(* ===== verification/Prelude.thy ===== *)
theory Prelude
  imports Main "HOL-Library.Word"
begin

unbundle bit_operations_syntax

text \<open>
  Shared vocabulary of the development: bytes and byte strings, the C library and GLib
  primitives that the sources call on them (\<^verbatim>\<open>memchr\<close>, \<^verbatim>\<open>strcspn\<close>, \<^verbatim>\<open>isspace\<close>,
  \<^verbatim>\<open>tolower\<close>, \<^verbatim>\<open>memmem\<close>, \<^verbatim>\<open>printf("%u")\<close>), the two generic interfaces that several
  components implement (byte codecs, incremental parsers), and the lemma collections
  the component theories extend.
\<close>

section \<open>Bytes and byte strings\<close>

type_synonym byte = "8 word"
type_synonym bytes = "byte list"

named_theorems cstr_simps \<open>evaluation of C string primitives\<close>
named_theorems wire_simps \<open>shape of encoded data\<close>
named_theorems inv_intros \<open>preservation of component invariants\<close>

text \<open>An ASCII literal of the source, as bytes.\<close>

abbreviation ascii :: "char \<Rightarrow> byte" where
  "ascii c \<equiv> of_char c"

definition asc :: "string \<Rightarrow> bytes" where
  "asc s = map of_char s"

lemma asc_simps [simp, cstr_simps]:
  "asc [] = []"
  "asc (c # cs) = of_char c # asc cs"
  by (simp_all add: asc_def)

lemma asc_append [simp]: "asc (xs @ ys) = asc xs @ asc ys"
  by (simp add: asc_def)

lemma length_asc [simp]: "length (asc s) = length s"
  by (simp add: asc_def)

lemma unat_byte_less [simp]: "unat (b::byte) < 256"
  using unsigned_less [of b] by simp

text \<open>A statement on a byte can be checked on the 256 of them.\<close>

lemma byte_cases:
  assumes "list_all (\<lambda>n. P (of_nat n)) [0..<256]"
  shows "P (b::byte)"
proof -
  have "P (of_nat (unat b))" using assms unsigned_less [of b] by (simp add: list_all_iff del: of_nat_unat)
  then show ?thesis by simp
qed

section \<open>Character classes\<close>

definition is_digit :: "byte \<Rightarrow> bool" where
  "is_digit b \<longleftrightarrow> 48 \<le> b \<and> b \<le> 57"

text \<open>\<^verbatim>\<open>isspace\<close> of the C locale: space, tab, newline, vertical tab, form feed, carriage
  return.\<close>

definition is_space :: "byte \<Rightarrow> bool" where
  "is_space b \<longleftrightarrow> b = 32 \<or> (9 \<le> b \<and> b \<le> 13)"

definition is_upper :: "byte \<Rightarrow> bool" where
  "is_upper b \<longleftrightarrow> 65 \<le> b \<and> b \<le> 90"

definition is_lower :: "byte \<Rightarrow> bool" where
  "is_lower b \<longleftrightarrow> 97 \<le> b \<and> b \<le> 122"

definition is_alnum :: "byte \<Rightarrow> bool" where
  "is_alnum b \<longleftrightarrow> is_digit b \<or> is_upper b \<or> is_lower b"

definition to_lower :: "byte \<Rightarrow> byte" where
  "to_lower b = (if is_upper b then b + 32 else b)"

definition to_upper :: "byte \<Rightarrow> byte" where
  "to_upper b = (if is_lower b then b - 32 else b)"

lemmas char_class_defs =
  is_digit_def is_space_def is_upper_def is_lower_def is_alnum_def to_lower_def to_upper_def

section \<open>C string primitives\<close>

text \<open>\<^verbatim>\<open>memchr\<close>/\<^verbatim>\<open>strchr\<close>: the offset of the first occurrence of a byte.\<close>

fun memchr :: "bytes \<Rightarrow> byte \<Rightarrow> nat option" where
  "memchr [] c = None"
| "memchr (b # bs) c = (if b = c then Some 0 else map_option Suc (memchr bs c))"

text \<open>\<^verbatim>\<open>strcspn\<close> and \<^verbatim>\<open>strspn\<close>: length of the longest prefix without (with only) the given bytes.\<close>

definition strcspn :: "bytes \<Rightarrow> bytes \<Rightarrow> nat" where
  "strcspn s reject = length (takeWhile (\<lambda>b. b \<notin> set reject) s)"

definition strspn :: "bytes \<Rightarrow> bytes \<Rightarrow> nat" where
  "strspn s accept = length (takeWhile (\<lambda>b. b \<in> set accept) s)"

text \<open>The C string at the start of a buffer: everything before the first NUL.\<close>

definition cstr :: "bytes \<Rightarrow> bytes" where
  "cstr s = takeWhile (\<lambda>b. b \<noteq> 0) s"

text \<open>\<^verbatim>\<open>memmem\<close>/\<^verbatim>\<open>strstr\<close>: the offset of the first occurrence of a byte string.\<close>

fun starts_with :: "bytes \<Rightarrow> bytes \<Rightarrow> bool" where
  "starts_with s [] = True"
| "starts_with [] (p # ps) = False"
| "starts_with (b # bs) (p # ps) = (b = p \<and> starts_with bs ps)"

fun memmem :: "bytes \<Rightarrow> bytes \<Rightarrow> nat option" where
  "memmem [] needle = (if needle = [] then Some 0 else None)"
| "memmem (b # bs) needle =
     (if starts_with (b # bs) needle then Some 0 else map_option Suc (memmem bs needle))"

text \<open>\<^verbatim>\<open>printf\<close> of an unsigned number in decimal.\<close>

fun dec_digits :: "nat \<Rightarrow> bytes" where
  "dec_digits n = (if n < 10 then [48 + of_nat n] else dec_digits (n div 10) @ [48 + of_nat (n mod 10)])"

declare dec_digits.simps [simp del]

section \<open>Lemmas on the primitives\<close>

lemma memchr_Some_iff:
  "memchr s c = Some i \<longleftrightarrow> i < length s \<and> s ! i = c \<and> c \<notin> set (take i s)"
proof (induction s arbitrary: i)
  case (Cons b s)
  show ?case
    by (cases i) (auto simp: Cons.IH split: option.splits)
qed simp

lemma memchr_None_iff: "memchr s c = None \<longleftrightarrow> c \<notin> set s"
  by (induction s) auto

lemma memchr_append [cstr_simps]:
  "memchr (xs @ ys) c =
    (case memchr xs c of Some i \<Rightarrow> Some i | None \<Rightarrow> map_option (\<lambda>i. length xs + i) (memchr ys c))"
  by (induction xs; cases "memchr ys c") (auto split: option.splits)

lemma memchr_notin: "c \<notin> set xs \<Longrightarrow> memchr (xs @ c # ys) c = Some (length xs)"
  by (induction xs) auto

lemma take_of_take_append:
  assumes "take (length (a @ b)) x = a @ b"
  shows "take (length a) x = a"
proof -
  have "take (length a) x = take (length a) (take (length (a @ b)) x)"
    by (simp only: take_take length_append min_def) simp
  then show ?thesis unfolding assms by simp
qed

lemma drop_take_append_drop: "k \<le> j \<Longrightarrow> drop k (take j s) @ drop j s = drop k s"
proof -
  assume "k \<le> j"
  then have "drop j s = drop (j - k) (drop k s)" by simp
  then show ?thesis by (simp only: drop_take append_take_drop_id)
qed

lemma starts_with_iff: "starts_with s p \<longleftrightarrow> (\<exists>r. s = p @ r)"
  by (induction s p rule: starts_with.induct) auto

lemma starts_with_take: "starts_with s p \<longleftrightarrow> take (length p) s = p"
  by (metis append_eq_conv_conj append_take_drop_id starts_with_iff)

lemma starts_with_append [simp]: "starts_with (p @ r) p"
  by (auto simp: starts_with_iff)

lemma memmem_Some: "memmem s p = Some i \<Longrightarrow> i + length p \<le> length s \<and> starts_with (drop i s) p"
proof (induction s p arbitrary: i rule: memmem.induct)
  case (2 b s p)
  then show ?case
    by (cases i) (auto split: if_splits simp: starts_with_take dest: arg_cong [where f = length])
qed (auto split: if_splits)

lemma memmem_None: "memmem s p = None \<Longrightarrow> \<not> starts_with (drop i s) p"
proof (induction s p arbitrary: i rule: memmem.induct)
  case (1 p)
  then show ?case by (cases p) (auto split: if_splits)
next
  case (2 b s p)
  then show ?case by (cases i) (auto split: if_splits)
qed

lemma memmem_first: "memmem s p = Some i \<Longrightarrow> j < i \<Longrightarrow> \<not> starts_with (drop j s) p"
proof (induction s p arbitrary: i j rule: memmem.induct)
  case (2 b s p)
  then show ?case by (cases j) (auto split: if_splits)
qed (auto split: if_splits)

lemma memmem_extend: "memmem s p = Some i \<Longrightarrow> memmem (s @ t) p = Some i"
proof (induction s p arbitrary: i rule: memmem.induct)
  case (1 p)
  then show ?case by (cases t) (auto split: if_splits)
next
  case (2 b s p)
  have "starts_with (b # s @ t) p" if "starts_with (b # s) p"
    using that unfolding starts_with_iff by (metis append_Cons append.assoc)
  moreover have "\<not> starts_with (b # s @ t) p" if "\<not> starts_with (b # s) p" "memmem s p = Some j" for j
  proof
    assume "starts_with (b # s @ t) p"
    then have "take (length p) (b # s @ t) = p" by (simp only: starts_with_take)
    moreover have "length p \<le> length (b # s)" using memmem_Some [OF that(2)] by simp
    ultimately have "take (length p) (b # s) = p" by (cases p) auto
    then show False using that(1) by (simp add: starts_with_take)
  qed
  ultimately show ?case using 2 by (auto split: if_splits)
qed

lemma memmem_unique:
  "starts_with (drop i s) p \<Longrightarrow> i \<le> length s \<Longrightarrow> (\<And>j. j < i \<Longrightarrow> \<not> starts_with (drop j s) p) \<Longrightarrow> memmem s p = Some i"
proof -
  assume a: "starts_with (drop i s) p" "i \<le> length s" "\<And>j. j < i \<Longrightarrow> \<not> starts_with (drop j s) p"
  then obtain k where k: "memmem s p = Some k" using memmem_None by (cases "memmem s p") blast+
  then have "starts_with (drop k s) p" "\<And>j. j < k \<Longrightarrow> \<not> starts_with (drop j s) p"
    using memmem_Some [OF k] memmem_first [OF k] by auto
  then have "k = i" using a by (metis linorder_neqE_nat)
  then show ?thesis using k by simp
qed

lemma memmem_None_iff: "memmem s p = None \<longleftrightarrow> (\<forall>i\<le>length s. \<not> starts_with (drop i s) p)"
proof
  assume "\<forall>i\<le>length s. \<not> starts_with (drop i s) p"
  then show "memmem s p = None" using memmem_Some [of s p] by (cases "memmem s p") auto
qed (auto dest: memmem_None)

lemma strcspn_le [simp]: "strcspn s r \<le> length s"
  by (simp add: strcspn_def length_takeWhile_le)

lemma strspn_le [simp]: "strspn s r \<le> length s"
  by (simp add: strspn_def length_takeWhile_le)

lemma cstr_no_nul [simp]: "0 \<notin> set s \<Longrightarrow> cstr s = s"
  by (auto simp: cstr_def takeWhile_eq_all_conv)

lemma cstr_append_nul [simp]: "0 \<notin> set s \<Longrightarrow> cstr (s @ 0 # r) = s"
  by (simp add: cstr_def) (metis (mono_tags, lifting) takeWhile_append2 takeWhile.simps(2) append_Nil2)

lemma zero_notin_cstr [simp]: "0 \<notin> set (cstr s)"
  by (auto simp: cstr_def dest: set_takeWhileD)

lemma is_digit_of_nat [simp]: "n < 10 \<Longrightarrow> is_digit (48 + of_nat n)"
  by (simp add: is_digit_def word_le_nat_alt unat_word_ariths unat_of_nat)

lemma unat_digit [simp]: "n < 10 \<Longrightarrow> unat ((48::byte) + of_nat n) = 48 + n"
  by (simp add: unat_word_ariths unat_of_nat)

lemma dec_digits_all [simp]: "b \<in> set (dec_digits n) \<Longrightarrow> is_digit b"
proof (induction n rule: dec_digits.induct)
  case (1 n)
  then show ?case
    by (subst (asm) (2) dec_digits.simps) (auto split: if_splits)
qed

lemma not_digit_10 [simp]: "\<not> is_digit 10"
  by (simp add: is_digit_def)

lemma dec_digits_not_Nil [simp]: "dec_digits n \<noteq> []"
  by (subst dec_digits.simps) simp

lemma dec_digits_hd: "0 < n \<Longrightarrow> hd (dec_digits n) \<noteq> 48"
proof (induction n rule: dec_digits.induct)
  case (1 n)
  show ?case
  proof (cases "n < 10")
    case True
    have "unat ((48::byte) + of_nat n) \<noteq> unat (48::byte)"
      using True \<open>0 < n\<close> by (simp only: unat_digit) simp
    then have "(48::byte) + of_nat n \<noteq> 48" by metis
    then show ?thesis using True by (subst dec_digits.simps) (simp del: add_cancel_left_right)
  next
    case False
    then show ?thesis using 1 by (subst dec_digits.simps) (simp add: hd_append)
  qed
qed

lemma length_dec_digits: "n < 10 ^ k \<Longrightarrow> 0 < k \<Longrightarrow> length (dec_digits n) \<le> k"
proof (induction n arbitrary: k rule: dec_digits.induct)
  case (1 n)
  show ?case
  proof (cases "n < 10")
    case True
    then show ?thesis using 1(3) by (subst dec_digits.simps) simp
  next
    case False
    with 1(2,3) obtain k' where k: "k = Suc k'" "0 < k'"
      by (cases k; cases "k - 1") auto
    have "n div 10 < 10 ^ k'" using 1(2) k by (simp add: less_mult_imp_div_less mult.commute)
    then have "length (dec_digits (n div 10)) \<le> k'" using 1(1) False k by blast
    then show ?thesis using False k by (subst dec_digits.simps) simp
  qed
qed

text \<open>The value of a decimal digit string, most significant digit first.\<close>

definition dec_value :: "bytes \<Rightarrow> nat" where
  "dec_value ds = foldl (\<lambda>v b. v * 10 + (unat b - 48)) 0 ds"

lemma dec_value_snoc: "dec_value (ds @ [b]) = dec_value ds * 10 + (unat b - 48)"
  by (simp add: dec_value_def)

lemma dec_value_digits [simp]: "dec_value (dec_digits n) = n"
proof (induction n rule: dec_digits.induct)
  case (1 n)
  show ?case
  proof (cases "n < 10")
    case True
    then show ?thesis by (subst dec_digits.simps) (simp add: dec_value_def)
  next
    case False
    then show ?thesis using 1 by (subst dec_digits.simps) (simp add: dec_value_snoc)
  qed
qed

lemma dec_value_bound: "\<forall>b\<in>set ds. is_digit b \<Longrightarrow> dec_value ds < 10 ^ length ds"
proof (induction ds rule: rev_induct)
  case (snoc b ds)
  then have "unat b - 48 \<le> 9" by (auto simp: is_digit_def word_le_nat_alt)
  then show ?case using snoc by (simp add: dec_value_snoc)
qed (simp add: dec_value_def)

end
