(* ===== verification/Interfaces.thy ===== *)
theory Interfaces
  imports Prelude
begin

text \<open>
  The contracts between components, stated once.  A \<^theory_text>\<open>locale\<close> here fixes the operations a
  client calls and assumes the laws the provider promises; the component theories
  interpret it on the model of the source, and the clients use the interpreted facts.
\<close>

section \<open>Byte codecs\<close>

text \<open>
  A codec turns arbitrary bytes into text that can stand as one word of a header line, and
  back.  Providers: \<^verbatim>\<open>cockpithex.c\<close> and \<^verbatim>\<open>cockpitbase64.c\<close>.  Client: \<^verbatim>\<open>cockpitauthorize.c\<close>,
  which splits its input at blanks and colons.
\<close>

locale byte_codec =
  fixes enc :: "bytes \<Rightarrow> bytes"
    and dec :: "bytes \<Rightarrow> bytes option"
    and alphabet :: "byte set"
  assumes dec_enc: "dec (enc x) = Some x"
    and enc_alphabet: "set (enc x) \<subseteq> alphabet"
    and alphabet_token: "b \<in> alphabet \<Longrightarrow> b \<noteq> 0 \<and> b \<noteq> 10 \<and> b \<noteq> 32 \<and> b \<noteq> 58"
begin

lemma enc_inject: "enc x = enc y \<longleftrightarrow> x = y"
  by (metis dec_enc option.inject)

lemma enc_token: "b \<in> set (enc x) \<Longrightarrow> b \<noteq> 0 \<and> b \<noteq> 10 \<and> b \<noteq> 32 \<and> b \<noteq> 58"
  using enc_alphabet alphabet_token by blast

lemma enc_no_nul: "0 \<notin> set (enc x)"
  using enc_token by blast

lemma enc_cstr: "cstr (enc x) = enc x" "cstr (enc x @ 0 # r) = enc x"
  using enc_no_nul by simp_all

lemma enc_strcspn_blank: "strcspn (enc x) [32] = length (enc x)"
  using enc_token by (auto simp: strcspn_def takeWhile_eq_all_conv [THEN iffD2])

lemma enc_strcspn_delim: "strcspn (enc x @ 32 # r) [58, 32] = length (enc x)"
  "strcspn (enc x) [58, 32] = length (enc x)"
  using enc_token
  by (auto simp: strcspn_def takeWhile_append takeWhile_eq_all_conv [THEN iffD2])

end

section \<open>Incremental parsers\<close>

text \<open>
  The protocol code parses a growing input buffer: each call sees what has arrived so far and
  either wants more, rejects, or takes a message of known length off the front.
\<close>

datatype 'a parse = Want_more | Reject | Message 'a nat

text \<open>The reading loop: take messages off the buffer until the parser wants more or rejects.
  The result is the messages and the buffer that is left, with a flag for a rejection.\<close>

function drain :: "(bytes \<Rightarrow> 'a parse) \<Rightarrow> bytes \<Rightarrow> 'a list \<times> bytes \<times> bool" where
  "drain parse buf =
     (case parse buf of
        Want_more \<Rightarrow> ([], buf, False)
      | Reject \<Rightarrow> ([], buf, True)
      | Message v n \<Rightarrow>
          if n = 0 \<or> length buf < n then ([], buf, True)
          else (case drain parse (drop n buf) of (vs, r) \<Rightarrow> (v # vs, r)))"
  by pat_completeness auto
termination
  by (relation "measure (\<lambda>(_, buf). length buf)") auto

declare drain.simps [simp del]

text \<open>Arrival of one more chunk, and of a list of chunks.\<close>

definition feed :: "(bytes \<Rightarrow> 'a parse) \<Rightarrow> 'a list \<times> bytes \<times> bool \<Rightarrow> bytes \<Rightarrow> 'a list \<times> bytes \<times> bool" where
  "feed parse st chunk =
     (case st of (vs, buf, bad) \<Rightarrow>
        if bad then (vs, buf @ chunk, True)
        else (case drain parse (buf @ chunk) of (vs', r) \<Rightarrow> (vs @ vs', r)))"

locale stream_parser =
  fixes parse :: "bytes \<Rightarrow> 'a parse"
  assumes message_bound: "parse s = Message v n \<Longrightarrow> 0 < n \<and> n \<le> length s"
    and message_extend: "parse s = Message v n \<Longrightarrow> parse (s @ t) = Message v n"
    and reject_extend: "parse s = Reject \<Longrightarrow> parse (s @ t) = Reject"
begin

lemma drain_Message:
  "parse s = Message v n \<Longrightarrow> drain parse s = (case drain parse (drop n s) of (vs, r) \<Rightarrow> (v # vs, r))"
  using message_bound [of s v n] by (subst drain.simps) auto

lemma drain_append:
  "drain parse (s @ t) =
    (case drain parse s of (vs, buf, bad) \<Rightarrow>
       if bad then (vs, buf @ t, True) else (case drain parse (buf @ t) of (vs', r) \<Rightarrow> (vs @ vs', r)))"
proof (induction "length s" arbitrary: s rule: less_induct)
  case less
  show ?case
  proof (cases "parse s")
    case Want_more
    then show ?thesis by (subst (2) drain.simps) (auto split: prod.splits)
  next
    case Reject
    then show ?thesis using reject_extend [OF Reject, of t]
      by (subst (1 2) drain.simps) simp
  next
    case (Message v n)
    then have n: "0 < n" "n \<le> length s" using message_bound by auto
    then have "length (drop n s) < length s" by auto
    from less [OF this] show ?thesis
      using drain_Message [OF Message] drain_Message [OF message_extend [OF Message, of t]] n
      by (auto split: prod.splits if_splits)
  qed
qed

text \<open>Delivery does not depend on how the stream was cut into chunks.\<close>

lemma feed_chunks:
  "foldl (feed parse) (drain parse s) chunks = drain parse (s @ concat chunks)"
proof (induction chunks arbitrary: s)
  case (Cons c chunks)
  have "feed parse (drain parse s) c = drain parse (s @ c)"
    by (simp add: feed_def drain_append [of s c] split: prod.splits)
  then show ?case using Cons [of "s @ c"] by simp
qed simp

lemma feed_all: "foldl (feed parse) ([], [], False) chunks = drain parse (concat chunks)"
  if "parse [] = Want_more"
proof -
  have "drain parse [] = ([], [], False)" using that by (subst drain.simps) simp
  then show ?thesis using feed_chunks [of "[]" chunks] by simp
qed

text \<open>A stream of encoded messages followed by more data.\<close>

lemma drain_encoded:
  assumes "\<And>m r. m \<in> set ms \<Longrightarrow> parse (enc m @ r) = Message (f m) (length (enc m))"
  shows "drain parse (concat (map enc ms) @ r) = (case drain parse r of (vs, x) \<Rightarrow> (map f ms @ vs, x))"
  using assms
proof (induction ms)
  case (Cons m ms)
  then show ?case
    using drain_Message [OF Cons.prems [of m "concat (map enc ms) @ r"]] by (auto split: prod.splits)
qed (auto split: prod.splits)

end

section \<open>Dictionaries\<close>

text \<open>
  The laws the code relies on whenever it keeps values under names: member lists of JSON objects,
  hash tables.
\<close>

locale dictionary =
  fixes lookup :: "'m \<Rightarrow> 'k \<Rightarrow> 'v option"
    and insert_at :: "'m \<Rightarrow> 'k \<Rightarrow> 'v \<Rightarrow> 'm"
    and remove_at :: "'m \<Rightarrow> 'k \<Rightarrow> 'm"
    and ok :: "'m \<Rightarrow> bool"
  assumes lookup_insert: "ok m \<Longrightarrow> lookup (insert_at m k v) k' = (if k' = k then Some v else lookup m k')"
    and lookup_remove: "ok m \<Longrightarrow> lookup (remove_at m k) k' = (if k' = k then None else lookup m k')"
    and ok_insert: "ok m \<Longrightarrow> ok (insert_at m k v)"
    and ok_remove: "ok m \<Longrightarrow> ok (remove_at m k)"
begin

lemma ok_bulk: "ok m \<Longrightarrow> ok (foldl (\<lambda>m k. insert_at m k (f k)) m ks)"
  by (induction ks arbitrary: m) (auto simp: ok_insert)

text \<open>Filling in a list of names.\<close>

lemma lookup_bulk:
  "ok m \<Longrightarrow> lookup (foldl (\<lambda>m k. insert_at m k (f k)) m ks) k =
     (if k \<in> set ks then Some (f k) else lookup m k)"
  by (induction ks arbitrary: m) (auto simp: ok_insert lookup_insert)

lemma remove_insert: "ok m \<Longrightarrow> lookup (remove_at (insert_at m k v) k) k' = lookup (remove_at m k) k'"
  by (simp add: lookup_insert lookup_remove ok_insert)

end

section \<open>Byte queues\<close>

text \<open>
  A bounded queue of bytes, seen through its contents.  Whatever is stored and taken, in any interleaving, the
  bytes come out in the order they went in.
\<close>

datatype fifo_op = Store bytes | Take nat

locale byte_fifo =
  fixes held :: "'b \<Rightarrow> bytes"
    and ok :: "'b \<Rightarrow> bool"
    and room :: "'b \<Rightarrow> nat"
    and store :: "'b \<Rightarrow> bytes \<Rightarrow> 'b"
    and discard :: "'b \<Rightarrow> nat \<Rightarrow> 'b"
  assumes store_ok: "ok b \<Longrightarrow> length d \<le> room b \<Longrightarrow> ok (store b d)"
    and held_store: "ok b \<Longrightarrow> length d \<le> room b \<Longrightarrow> held (store b d) = held b @ d"
    and discard_ok: "ok b \<Longrightarrow> n \<le> length (held b) \<Longrightarrow> ok (discard b n)"
    and held_discard: "ok b \<Longrightarrow> n \<le> length (held b) \<Longrightarrow> held (discard b n) = drop n (held b)"
begin

text \<open>A run of operations, each within its bounds: bytes stored, bytes taken and the final queue.\<close>

fun run :: "'b \<Rightarrow> fifo_op list \<Rightarrow> (bytes \<times> bytes \<times> 'b) option" where
  "run b [] = Some ([], [], b)"
| "run b (Store d # ops) =
     (if length d \<le> room b then map_option (\<lambda>(i, out, b'). (d @ i, out, b')) (run (store b d) ops) else None)"
| "run b (Take n # ops) =
     (if n \<le> length (held b) then map_option (\<lambda>(i, out, b'). (i, take n (held b) @ out, b')) (run (discard b n) ops)
      else None)"

lemma run_stream: "ok b \<Longrightarrow> run b ops = Some (i, out, b') \<Longrightarrow> ok b' \<and> held b @ i = out @ held b'"
proof (induction b ops arbitrary: i out rule: run.induct)
  case (2 b d ops)
  then obtain i' where i': "run (store b d) ops = Some (i', out, b')" "i = d @ i'" "length d \<le> room b"
    by (auto split: if_splits)
  then show ?case using 2 store_ok [of b d] held_store [of b d] by auto
next
  case (3 b n ops)
  then obtain out' where o: "run (discard b n) ops = Some (i, out', b')" "out = take n (held b) @ out'" "n \<le> length (held b)"
    by (auto split: if_splits)
  then have "ok b' \<and> drop n (held b) @ i = out' @ held b'"
    using 3 discard_ok [of b n] held_discard [of b n] by auto
  then show ?case using o(2) by (metis append.assoc append_take_drop_id)
qed simp

end

end
