(* ===== verification/Hex.thy ===== *)
theory Hex
  imports Interfaces
begin

unbundle bit_operations_syntax

text \<open>
  \<^verbatim>\<open>src/common/cockpithex.c\<close>: lower-case hexadecimal encoding and decoding.  The
  \<^verbatim>\<open>ssize_t\<close> length arguments are \<^typ>\<open>int\<close>; a negative length means a NUL-terminated
  argument.  \<^verbatim>\<open>strchr\<close> on the digit table also finds the table's own terminator, at
  offset 16, and the model keeps that.
\<close>

definition HEX :: bytes where
  "HEX = asc ''0123456789abcdef''"

text \<open>The bytes a function reads through a pointer and an \<^verbatim>\<open>ssize_t\<close> length.\<close>

definition sized_input :: "bytes \<Rightarrow> int \<Rightarrow> bytes" where
  "sized_input data len = (if len < 0 then cstr data else take (nat len) data)"

text \<open>\<^verbatim>\<open>strchr\<close> on a string literal: the terminating NUL is part of the search.\<close>

definition strchr_lit :: "bytes \<Rightarrow> byte \<Rightarrow> nat option" where
  "strchr_lit lit c = memchr (lit @ [0]) c"

fun hex_encode_loop :: "bytes \<Rightarrow> bytes" where
  "hex_encode_loop [] = []"
| "hex_encode_loop (b # bs) =
     HEX ! unat (drop_bit 4 b) # HEX ! unat (b AND 0xf) # hex_encode_loop bs"

definition cockpit_hex_encode :: "bytes \<Rightarrow> int \<Rightarrow> bytes" where
  "cockpit_hex_encode data len = hex_encode_loop (sized_input data len)"

fun hex_decode_loop :: "bytes \<Rightarrow> bytes option" where
  "hex_decode_loop (h # l # rest) =
     (case (strchr_lit HEX h, strchr_lit HEX l) of
        (Some hpos, Some lpos) \<Rightarrow>
          map_option (\<lambda>out. (push_bit 4 (of_nat hpos) OR (of_nat lpos AND 0xf)) # out)
            (hex_decode_loop rest)
      | _ \<Rightarrow> None)"
| "hex_decode_loop _ = Some []"

definition cockpit_hex_decode :: "bytes \<Rightarrow> int \<Rightarrow> bytes option" where
  "cockpit_hex_decode hex hexlen =
     (let text = sized_input hex hexlen in
      if length text mod 2 \<noteq> 0 then None else hex_decode_loop text)"

section \<open>Lemmas\<close>

lemma memchr_distinct: "distinct xs \<Longrightarrow> i < length xs \<Longrightarrow> memchr (xs @ ys) (xs ! i) = Some i"
  by (auto simp: memchr_Some_iff nth_append in_set_conv_nth nth_eq_iff_index_eq)

lemma length_HEX [simp]: "length HEX = 16"
  by (simp add: HEX_def)

lemma distinct_HEX: "distinct HEX"
  by (simp add: HEX_def)

lemma strchr_HEX_nth [simp]: "i < 16 \<Longrightarrow> strchr_lit HEX (HEX ! i) = Some i"
  by (simp add: strchr_lit_def memchr_distinct distinct_HEX)

lemma nibble_bounds [simp]:
  "unat (drop_bit 4 (b::byte)) < 16" "unat ((b::byte) AND 0xf) < 16"
proof -
  show "unat (drop_bit 4 b) < 16"
    by (simp add: drop_bit_eq_div unat_div less_mult_imp_div_less)
  show "unat (b AND 0xf) < 16"
  proof -
    have "b AND 0xf \<le> 0xf" by (rule word_and_le1)
    then show ?thesis by (simp add: word_le_nat_alt)
  qed
qed

lemma nibbles_join: "push_bit 4 (drop_bit 4 b) OR (b AND 0xf) = (b::byte)"
proof (rule bit_word_eqI)
  fix n assume "n < LENGTH(8)"
  then have "n \<in> {0,1,2,3,4,5,6,7}" by auto
  then show "bit (push_bit 4 (drop_bit 4 b) OR (b AND 0xf)) n = bit b n"
    by (auto simp: bit_simps)
qed

lemma hex_decode_encode_loop [simp]: "hex_decode_loop (hex_encode_loop bs) = Some bs"
  by (induction bs) (simp_all add: nibbles_join)

lemma length_hex_encode_loop [simp]: "length (hex_encode_loop bs) = 2 * length bs"
  by (induction bs) simp_all

lemma set_hex_encode_loop: "set (hex_encode_loop bs) \<subseteq> set HEX"
  by (induction bs) (auto intro: nth_mem)

lemma HEX_token: "b \<in> set HEX \<Longrightarrow> b \<noteq> 0 \<and> b \<noteq> 10 \<and> b \<noteq> 32 \<and> b \<noteq> 58"
  by (auto simp: HEX_def)

interpretation hex: byte_codec hex_encode_loop
  "\<lambda>h. if length h mod 2 \<noteq> 0 then None else hex_decode_loop h" "set HEX"
  by unfold_locales (use set_hex_encode_loop HEX_token in auto)

lemma strchr_HEX_Some_iff: "(\<exists>i. strchr_lit HEX c = Some i) \<longleftrightarrow> c = 0 \<or> c \<in> set HEX"
  using memchr_None_iff [of "HEX @ [0]" c] by (auto simp: strchr_lit_def)

lemma hex_decode_loop_Some_iff:
  "even (length h) \<Longrightarrow> (\<exists>bs. hex_decode_loop h = Some bs) \<longleftrightarrow> set h \<subseteq> insert 0 (set HEX)"
proof (induction h rule: hex_decode_loop.induct)
  case (1 h l rest)
  show ?case
  proof (cases "\<exists>i j. strchr_lit HEX h = Some i \<and> strchr_lit HEX l = Some j")
    case True
    then obtain i j where ij: "strchr_lit HEX h = Some i" "strchr_lit HEX l = Some j" by blast
    then have "(\<exists>bs. hex_decode_loop rest = Some bs) \<longleftrightarrow> set rest \<subseteq> insert 0 (set HEX)"
      using "1.IH" [OF refl ij] "1.prems" by simp
    then show ?thesis
      using ij strchr_HEX_Some_iff [of h] strchr_HEX_Some_iff [of l] by auto
  next
    case False
    then show ?thesis
      using strchr_HEX_Some_iff [of h] strchr_HEX_Some_iff [of l]
      by (auto split: option.splits)
  qed
qed auto

section \<open>Properties\<close>

text \<open>What \<^verbatim>\<open>cockpit_hex_encode\<close> produces, \<^verbatim>\<open>cockpit_hex_decode\<close> turns back into the
  same bytes, given the exact length or as a NUL-terminated string.\<close>

theorem cockpit_hex_roundtrip:
  "cockpit_hex_decode (cockpit_hex_encode data (int (length data)) @ 0 # junk) (-1) = Some data \<and>
   cockpit_hex_decode (cockpit_hex_encode data (int (length data))) (2 * int (length data)) = Some data"
proof -
  have "nat (2 * int (length data)) = 2 * length data" by simp
  then show ?thesis
    by (simp add: cockpit_hex_decode_def cockpit_hex_encode_def sized_input_def hex.enc_cstr Let_def)
qed

text \<open>The inputs \<^verbatim>\<open>cockpit_hex_decode\<close> accepts are exactly those of even length made of
  lower-case digits and NUL bytes.\<close>

theorem cockpit_hex_decode_accepts:
  "(\<exists>bs. cockpit_hex_decode hex (int (length hex)) = Some bs) \<longleftrightarrow>
     even (length hex) \<and> set hex \<subseteq> insert 0 (set (asc ''0123456789abcdef''))"
  using hex_decode_loop_Some_iff [of hex]
  by (auto simp: cockpit_hex_decode_def sized_input_def HEX_def Let_def even_iff_mod_2_eq_zero)

end
