(* ===== verification/Base64.thy ===== *)
theory Base64
  imports Hex
begin

unbundle bit_operations_syntax

text \<open>
  \<^verbatim>\<open>src/common/cockpitbase64.c\<close>: the base64 decoder and encoder.  The decoder is the
  state machine of the source: a phase from 0 to 3, an index into the target buffer, and the
  buffer itself, whose length is \<^verbatim>\<open>targsize\<close> (\<^term>\<open>None\<close> for a NULL target).  A read or
  write outside the buffer and the call of \<^verbatim>\<open>abort()\<close> are the outcome \<open>Fault\<close>, so that
  their absence is a theorem and not a modelling choice.
\<close>

definition Base64 :: bytes where
  "Base64 = asc ''ABCDEFGHIJKLMNOPQRSTUVWXYZabcdefghijklmnopqrstuvwxyz0123456789+/''"

definition Pad64 :: byte where
  "Pad64 = ascii CHR ''=''"

definition cockpit_base64_size :: "nat \<Rightarrow> nat" where
  "cockpit_base64_size len = len * 4 div 3 + 9"

section \<open>Decoding: \<^verbatim>\<open>cockpit_base64_pton\<close>\<close>

text \<open>The value of a table character.  The NUL terminator of the table is never looked up,
  the loops stop at a NUL first.\<close>

definition b64_pos :: "byte \<Rightarrow> nat option" where
  "b64_pos ch = strchr_lit Base64 ch"

datatype store_result = Stored nat nat "bytes option" | Store_error | Store_fault

definition put :: "bytes \<Rightarrow> nat \<Rightarrow> byte \<Rightarrow> bytes option" where
  "put target i v = (if i < length target then Some (target[i := v]) else None)"

text \<open>One character: the \<^verbatim>\<open>switch (state)\<close> of the loop body.\<close>

definition pton_store :: "nat \<Rightarrow> nat \<Rightarrow> bytes option \<Rightarrow> nat \<Rightarrow> store_result" where
  "pton_store state tarindex target pos =
     (let v = of_nat pos :: byte in
      if state = 0 then
        (case target of None \<Rightarrow> Stored 1 tarindex None
         | Some t \<Rightarrow>
             if tarindex \<ge> length t then Store_error
             else case put t tarindex (push_bit 2 v) of
                    None \<Rightarrow> Store_fault | Some t' \<Rightarrow> Stored 1 tarindex (Some t'))
      else if state = 1 then
        (case target of None \<Rightarrow> Stored 2 (tarindex + 1) None
         | Some t \<Rightarrow>
             if tarindex + 1 \<ge> length t then Store_error
             else case put t tarindex (t ! tarindex OR drop_bit 4 v) of
                    None \<Rightarrow> Store_fault
                  | Some t' \<Rightarrow> (case put t' (tarindex + 1) (push_bit 4 (v AND 0x0f)) of
                      None \<Rightarrow> Store_fault | Some t'' \<Rightarrow> Stored 2 (tarindex + 1) (Some t'')))
      else if state = 2 then
        (case target of None \<Rightarrow> Stored 3 (tarindex + 1) None
         | Some t \<Rightarrow>
             if tarindex + 1 \<ge> length t then Store_error
             else case put t tarindex (t ! tarindex OR drop_bit 2 v) of
                    None \<Rightarrow> Store_fault
                  | Some t' \<Rightarrow> (case put t' (tarindex + 1) (push_bit 6 (v AND 0x03)) of
                      None \<Rightarrow> Store_fault | Some t'' \<Rightarrow> Stored 3 (tarindex + 1) (Some t'')))
      else if state = 3 then
        (case target of None \<Rightarrow> Stored 0 (tarindex + 1) None
         | Some t \<Rightarrow>
             if tarindex \<ge> length t then Store_error
             else case put t tarindex (t ! tarindex OR v) of
                    None \<Rightarrow> Store_fault | Some t' \<Rightarrow> Stored 0 (tarindex + 1) (Some t'))
      else Store_fault)"

datatype pton_exit =
    At_end nat nat "bytes option"
  | At_pad bytes nat nat "bytes option"
  | Loop_error "bytes option"
  | Loop_fault

fun pton_loop :: "bytes \<Rightarrow> nat \<Rightarrow> nat \<Rightarrow> bytes option \<Rightarrow> pton_exit" where
  "pton_loop [] state tarindex target = At_end state tarindex target"
| "pton_loop (ch # src) state tarindex target =
     (if ch = 0 then At_end state tarindex target
      else if is_space ch then pton_loop src state tarindex target
      else if ch = Pad64 then At_pad src state tarindex target
      else case b64_pos ch of
             None \<Rightarrow> Loop_error target
           | Some pos \<Rightarrow>
               (case pton_store state tarindex target pos of
                  Stored state' tarindex' target' \<Rightarrow> pton_loop src state' tarindex' target'
                | Store_error \<Rightarrow> Loop_error target
                | Store_fault \<Rightarrow> Loop_fault))"

text \<open>The macro \<^verbatim>\<open>next_char\<close>: NUL at the end of the input.\<close>

fun next_char :: "bytes \<Rightarrow> byte \<times> bytes" where
  "next_char [] = (0, [])"
| "next_char (c # cs) = (c, cs)"

text \<open>Skip spaces before the second pad character.\<close>

fun pton_skip_space :: "byte \<Rightarrow> bytes \<Rightarrow> byte \<times> bytes" where
  "pton_skip_space ch [] = (if ch \<noteq> 0 \<and> is_space ch then (0, []) else (ch, []))"
| "pton_skip_space ch (c # cs) =
     (if ch \<noteq> 0 \<and> is_space ch then pton_skip_space c cs else (ch, c # cs))"

text \<open>The check of what follows the last pad character.  The loop runs while
  \<^verbatim>\<open>src != end\<close>, so the character already fetched when the input is used up is not looked
  at.\<close>

fun pton_trailing :: "byte \<Rightarrow> bytes \<Rightarrow> bool" where
  "pton_trailing ch [] = True"
| "pton_trailing ch (c # cs) = (is_space ch \<and> pton_trailing c cs)"

datatype pton_result = Ret int "bytes option" | Fault

definition pton_slop :: "nat \<Rightarrow> bytes option \<Rightarrow> pton_result" where
  "pton_slop tarindex target =
     (case target of
        None \<Rightarrow> Ret (int tarindex) None
      | Some t \<Rightarrow>
          if tarindex \<ge> length t then Fault
          else if t ! tarindex \<noteq> 0 then Ret (-1) target
          else Ret (int tarindex) target)"

definition pton_pad :: "bytes \<Rightarrow> nat \<Rightarrow> nat \<Rightarrow> bytes option \<Rightarrow> pton_result" where
  "pton_pad src state tarindex target =
     (let (ch, src) = next_char src in
      if state = 0 \<or> state = 1 then Ret (-1) target
      else if state = 2 then
        (let (ch, src) = pton_skip_space ch src in
         if ch \<noteq> Pad64 then Ret (-1) target
         else let (ch, src) = next_char src in
              if \<not> pton_trailing ch src then Ret (-1) target else pton_slop tarindex target)
      else if state = 3 then
        (if \<not> pton_trailing ch src then Ret (-1) target else pton_slop tarindex target)
      else Ret (int tarindex) target)"

text \<open>What follows the loop: the pad characters, or the end of the input on a byte boundary.\<close>

definition pton_finish :: "pton_exit \<Rightarrow> pton_result" where
  "pton_finish loop_exit =
     (case loop_exit of
        Loop_error target' \<Rightarrow> Ret (-1) target'
      | Loop_fault \<Rightarrow> Fault
      | At_pad rest state tarindex target' \<Rightarrow> pton_pad rest state tarindex target'
      | At_end state tarindex target' \<Rightarrow>
          if state \<noteq> 0 then Ret (-1) target' else Ret (int tarindex) target')"

definition cockpit_base64_pton :: "bytes \<Rightarrow> bytes option \<Rightarrow> pton_result" where
  "cockpit_base64_pton src target = pton_finish (pton_loop src 0 0 target)"

section \<open>Encoding: \<^verbatim>\<open>cockpit_base64_ntop\<close>\<close>

text \<open>The four output codes of a group; 255 stands for a pad character.\<close>

definition ntop_group :: "bytes \<Rightarrow> bytes" where
  "ntop_group src =
     (case src of
        i0 # i1 # i2 # _ \<Rightarrow>
          [drop_bit 2 i0, push_bit 4 (i0 AND 0x03) + drop_bit 4 i1,
           push_bit 2 (i1 AND 0x0f) + drop_bit 6 i2, i2 AND 0x3f]
      | [i0, i1] \<Rightarrow>
          [drop_bit 2 i0, push_bit 4 (i0 AND 0x03) + drop_bit 4 i1,
           push_bit 2 (i1 AND 0x0f) + drop_bit 6 0, 255]
      | [i0] \<Rightarrow> [drop_bit 2 i0, push_bit 4 (i0 AND 0x03) + drop_bit 4 0, 255, 255]
      | [] \<Rightarrow> [])"

text \<open>The inner \<^verbatim>\<open>for\<close> loop over the four codes; \<^term>\<open>None\<close> is a failed assertion.\<close>

fun ntop_emit :: "bytes \<Rightarrow> bytes \<Rightarrow> nat \<Rightarrow> bytes option" where
  "ntop_emit [] out targsize = Some out"
| "ntop_emit (c # cs) out targsize =
     (if \<not> (c = 255 \<or> c < 64) then None
      else if \<not> length out + 1 < targsize then None
      else ntop_emit cs (out @ [if c = 255 then Pad64 else Base64 ! unat c]) targsize)"

function ntop_loop :: "bytes \<Rightarrow> bytes \<Rightarrow> nat \<Rightarrow> bytes option" where
  "ntop_loop src out targsize =
     (if src = [] then Some out
      else case ntop_emit (ntop_group src) out targsize of
             None \<Rightarrow> None
           | Some out' \<Rightarrow> ntop_loop (drop 3 src) out' targsize)"
  by pat_completeness auto
termination
  by (relation "measure (\<lambda>(src, out, targsize). length src)") auto

declare ntop_loop.simps [simp del]

text \<open>The encoded text, without the terminating NUL, whose length is the value returned;
  \<^term>\<open>None\<close> when an assertion fails.\<close>

definition cockpit_base64_ntop :: "bytes \<Rightarrow> nat \<Rightarrow> bytes option" where
  "cockpit_base64_ntop src targsize =
     (case ntop_loop src [] targsize of
        None \<Rightarrow> None
      | Some out \<Rightarrow> if length out < targsize then Some out else None)"

section \<open>Bit-level facts\<close>

lemma byte_bit_cases: "n < LENGTH(8) \<Longrightarrow> n \<in> {0,1,2,3,4,5,6,7}"
  by auto

lemma bit_byte_high [simp]: "8 \<le> n \<Longrightarrow> \<not> bit (x::byte) n"
  by (auto dest: bit_imp_le_length)

lemma plus_or:
  "push_bit 4 (a AND 3) + drop_bit 4 b = push_bit 4 (a AND 3) OR drop_bit 4 (b::byte)"
  "push_bit 2 (a AND 15) + drop_bit 6 b = push_bit 2 (a AND 15) OR drop_bit 6 (b::byte)"
proof -
  have "\<not> bit (push_bit 4 (a AND 3)) n \<or> \<not> bit (drop_bit 4 b) n" for n
  proof (cases "n < 8")
    case True
    then show ?thesis using byte_bit_cases [of n] by (auto simp: bit_simps)
  next
    case False
    then show ?thesis by (auto simp: bit_simps dest: bit_imp_le_length)
  qed
  then show "push_bit 4 (a AND 3) + drop_bit 4 b = push_bit 4 (a AND 3) OR drop_bit 4 (b::byte)"
    by (rule disjunctive_add)
next
  have "\<not> bit (push_bit 2 (a AND 15)) n \<or> \<not> bit (drop_bit 6 b) n" for n
  proof (cases "n < 8")
    case True
    then show ?thesis using byte_bit_cases [of n] by (auto simp: bit_simps)
  next
    case False
    then show ?thesis by (auto simp: bit_simps dest: bit_imp_le_length)
  qed
  then show "push_bit 2 (a AND 15) + drop_bit 6 b = push_bit 2 (a AND 15) OR drop_bit 6 (b::byte)"
    by (rule disjunctive_add)
qed

text \<open>The four codes of a group and the three bytes the decoder builds from them, as opaque
  operations, so that the proofs about the loops need no bit arithmetic.\<close>

definition enc0 :: "byte \<Rightarrow> byte" where
  "enc0 a = drop_bit 2 a"

definition enc1 :: "byte \<Rightarrow> byte \<Rightarrow> byte" where
  "enc1 a b = push_bit 4 (a AND 3) + drop_bit 4 b"

definition enc2 :: "byte \<Rightarrow> byte \<Rightarrow> byte" where
  "enc2 b c = push_bit 2 (b AND 15) + drop_bit 6 c"

definition enc3 :: "byte \<Rightarrow> byte" where
  "enc3 c = c AND 63"

definition dec0 :: "byte \<Rightarrow> byte \<Rightarrow> byte" where
  "dec0 c0 c1 = push_bit 2 c0 OR drop_bit 4 c1"

definition dec1 :: "byte \<Rightarrow> byte \<Rightarrow> byte" where
  "dec1 c1 c2 = push_bit 4 (c1 AND 15) OR drop_bit 2 c2"

definition dec2 :: "byte \<Rightarrow> byte \<Rightarrow> byte" where
  "dec2 c2 c3 = push_bit 6 (c2 AND 3) OR c3"

lemmas b64_bits = enc0_def enc1_def enc2_def enc3_def dec0_def dec1_def dec2_def

lemma dec_enc_join:
  "dec0 (enc0 a) (enc1 a b) = a"
  "dec1 (enc1 a b) (enc2 b c) = b"
  "dec2 (enc2 b c) (enc3 c) = c"
  unfolding b64_bits plus_or
  by ((rule bit_word_eqI, drule byte_bit_cases, (auto simp: bit_simps simp flip: numeral_2_eq_2)[1])+)

lemma slop_zero:
  "push_bit 4 (enc1 a 0 AND 15) = 0"
  "push_bit 6 (enc2 b 0 AND 3) = 0"
  unfolding b64_bits plus_or
  by ((rule bit_word_eqI, drule byte_bit_cases, (auto simp: bit_simps simp flip: numeral_2_eq_2)[1])+)

lemma code_bound: "enc0 a < 64" "enc1 a b < 64" "enc2 a b < 64" "enc3 a < 64"
proof -
  have less: "x < 64" if "\<not> bit x 6" "\<not> bit x 7" for x :: byte
  proof -
    have "x = x AND 63"
      by (rule bit_word_eqI, drule byte_bit_cases) (use that in \<open>auto simp: bit_simps\<close>)
    also have "\<dots> \<le> 63" by (rule word_and_le1)
    finally show ?thesis by (simp add: word_le_nat_alt word_less_nat_alt)
  qed
  show "enc0 a < 64" "enc1 a b < 64" "enc2 a b < 64" "enc3 a < 64"
    unfolding b64_bits plus_or by (rule less; auto simp: bit_simps)+
qed

lemma ntop_group_simps:
  "ntop_group (a # b # c # r) = [enc0 a, enc1 a b, enc2 b c, enc3 c]"
  "ntop_group [a, b] = [enc0 a, enc1 a b, enc2 b 0, 255]"
  "ntop_group [a] = [enc0 a, enc1 a 0, 255, 255]"
  "ntop_group [] = []"
  by (simp_all add: ntop_group_def b64_bits)

section \<open>The encoded text\<close>

definition b64_sym :: "byte \<Rightarrow> byte" where
  "b64_sym c = (if c = 255 then Pad64 else Base64 ! unat c)"

text \<open>Reference definition of the encoding, by groups of three bytes.\<close>

fun b64_text :: "bytes \<Rightarrow> bytes" where
  "b64_text (a # b # c # r) = map b64_sym (ntop_group [a, b, c]) @ b64_text r"
| "b64_text [] = []"
| "b64_text [a] = map b64_sym (ntop_group [a])"
| "b64_text [a, b] = map b64_sym (ntop_group [a, b])"

lemma length_Base64 [simp]: "length Base64 = 64"
  by (simp add: Base64_def)

lemma distinct_Base64: "distinct Base64"
  by (simp add: Base64_def)

lemma Base64_chars: "\<forall>b\<in>set Base64. b \<noteq> 0 \<and> b \<noteq> 10 \<and> b \<noteq> 32 \<and> b \<noteq> 58 \<and> b \<noteq> Pad64 \<and> \<not> is_space b"
  by (simp add: Base64_def Pad64_def is_space_def)

lemma b64_sym_props:
  assumes "c < (64::byte)"
  shows "b64_pos (b64_sym c) = Some (unat c)" "b64_sym c \<noteq> 0" "b64_sym c \<noteq> Pad64"
    "\<not> is_space (b64_sym c)"
proof -
  have c: "unat c < 64" "c \<noteq> 255" using assms by (auto simp: word_less_nat_alt)
  then show "b64_pos (b64_sym c) = Some (unat c)"
    by (simp add: b64_sym_def b64_pos_def strchr_lit_def memchr_distinct distinct_Base64)
  from c have "b64_sym c \<in> set Base64" by (simp add: b64_sym_def)
  then show "b64_sym c \<noteq> 0" "b64_sym c \<noteq> Pad64" "\<not> is_space (b64_sym c)"
    using Base64_chars by auto
qed

lemma b64_sym_255 [simp]: "b64_sym 255 = Pad64"
  by (simp add: b64_sym_def)

lemma ntop_group_codes: "\<forall>c \<in> set (ntop_group src). c = 255 \<or> c < 64"
  by (cases src rule: b64_text.cases) (auto simp: ntop_group_simps code_bound)

lemma length_ntop_group: "src \<noteq> [] \<Longrightarrow> length (ntop_group src) = 4"
  by (cases src rule: b64_text.cases) (auto simp: ntop_group_simps)

lemma ntop_emit_codes:
  "\<forall>c \<in> set cs. c = 255 \<or> c < 64 \<Longrightarrow> cs \<noteq> [] \<Longrightarrow>
   ntop_emit cs out ts = (if length out + length cs < ts then Some (out @ map b64_sym cs) else None)"
proof (induction cs arbitrary: out)
  case (Cons c cs)
  then show ?case
    by (cases "cs = []") (auto simp: b64_sym_def)
qed simp

lemma b64_text_step: "src \<noteq> [] \<Longrightarrow> b64_text src = map b64_sym (ntop_group src) @ b64_text (drop 3 src)"
  by (cases src rule: b64_text.cases) (auto simp: ntop_group_simps)

lemma ntop_loop_text:
  "src \<noteq> [] \<Longrightarrow> ntop_loop src out ts =
    (if length out + 4 * ((length src + 2) div 3) < ts then Some (out @ b64_text src) else None)"
proof (induction src out ts rule: ntop_loop.induct)
  case (1 src out ts)
  have emit: "ntop_emit (ntop_group src) out ts =
      (if length out + 4 < ts then Some (out @ map b64_sym (ntop_group src)) else None)"
    using ntop_emit_codes [OF ntop_group_codes] length_ntop_group "1.prems"
    by (metis length_0_conv zero_neq_numeral)
  have blocks: "(length src + 2) div 3 = Suc ((length (drop 3 src) + 2) div 3)"
    using "1.prems" by (cases src rule: b64_text.cases) auto
  show ?case
  proof (cases "drop 3 src = []")
    case True
    then have "(length src + 2) div 3 = 1" using blocks by simp
    then show ?thesis
      using True "1.prems" emit b64_text_step [of src]
      by (simp add: ntop_loop.simps [of src] ntop_loop.simps [of "[]"])
  next
    case False
    then show ?thesis
      using "1.IH" [OF "1.prems"] "1.prems" emit b64_text_step [of src] blocks length_ntop_group [of src]
      by (auto simp: ntop_loop.simps [of src])
  qed
qed

lemma length_b64_text: "length (b64_text src) = 4 * ((length src + 2) div 3)"
proof (induction src rule: b64_text.induct)
  case (1 a b c r)
  have "(length r + 5) div 3 = Suc ((length r + 2) div 3)" by presburger
  with 1 show ?case by (simp add: ntop_group_simps add.commute)
qed (auto simp: ntop_group_simps)

lemma ntop_text:
  "cockpit_base64_ntop src ts = (if 4 * ((length src + 2) div 3) < ts then Some (b64_text src) else None)"
proof (cases "src = []")
  case True
  then show ?thesis by (simp add: cockpit_base64_ntop_def ntop_loop.simps [of "[]"])
next
  case False
  then show ?thesis by (simp add: cockpit_base64_ntop_def ntop_loop_text length_b64_text)
qed

lemma base64_size_enough: "4 * ((n + 2) div 3) < cockpit_base64_size n"
  unfolding cockpit_base64_size_def by presburger

section \<open>Decoding what was encoded\<close>

lemmas pton_store_defs = pton_store_def put_def Let_def

lemma pton_sym:
  "c < 64 \<Longrightarrow> pton_loop (b64_sym c # rest) state ti target =
     (case pton_store state ti target (unat c) of
        Stored state' ti' target' \<Rightarrow> pton_loop rest state' ti' target'
      | Store_error \<Rightarrow> Loop_error target
      | Store_fault \<Rightarrow> Loop_fault)"
  by (simp add: b64_sym_props)

lemma pton_group3:
  assumes "c0 < 64" "c1 < 64" "c2 < 64" "c3 < 64" "ti + 2 < length t"
  shows "pton_loop (b64_sym c0 # b64_sym c1 # b64_sym c2 # b64_sym c3 # rest) 0 ti (Some t) =
     pton_loop rest 0 (ti + 3) (Some (t[ti := dec0 c0 c1, ti + 1 := dec1 c1 c2, ti + 2 := dec2 c2 c3]))"
  using assms
  by (simp add: pton_sym pton_store_defs list_update_swap b64_bits numeral_2_eq_2 numeral_3_eq_3
      del: pton_loop.simps)

lemma Pad64_plain [simp]: "Pad64 \<noteq> 0" "\<not> is_space Pad64"
  by (simp_all add: Pad64_def is_space_def)

lemma not_space_0 [simp]: "\<not> is_space 0"
  by (simp add: is_space_def)

text \<open>The decoder undoes the encoder, whatever part of the target is filled already.\<close>

lemma pton_text:
  assumes "ti + length src < length t"
  shows "\<exists>t'. pton_finish (pton_loop (b64_text src) 0 ti (Some t)) =
           Ret (int (ti + length src)) (Some t') \<and>
         length t' = length t \<and> take (ti + length src) t' = take ti t @ src"
  using assms
proof (induction src arbitrary: ti t rule: b64_text.induct)
  case (1 a b c r)
  let ?t = "t[ti := a, ti + 1 := b, ti + 2 := c]"
  have loop: "pton_loop (b64_text (a # b # c # r)) 0 ti (Some t) =
      pton_loop (b64_text r) 0 (ti + 3) (Some ?t)"
    using pton_group3 [OF code_bound(1) code_bound(2) code_bound(3) code_bound(4), of ti t a a b b c c "b64_text r"]
      "1.prems"
    by (simp add: ntop_group_simps dec_enc_join del: pton_loop.simps)
  obtain t' where t': "pton_finish (pton_loop (b64_text r) 0 (ti + 3) (Some ?t)) =
      Ret (int (ti + 3 + length r)) (Some t')" "length t' = length ?t"
      "take (ti + 3 + length r) t' = take (ti + 3) ?t @ r"
    using "1.IH" [of "ti + 3" ?t] "1.prems" by auto
  have "take (ti + 3) ?t = take ti t @ [a, b, c]"
    using "1.prems" by (intro nth_equalityI) (auto simp: nth_append nth_list_update less_Suc_eq numeral_3_eq_3)
  then show ?case
    using t' loop by (intro exI [of _ t']) (simp add: add.commute add.left_commute numeral_3_eq_3)
next
  case 2
  then show ?case by (simp add: pton_finish_def)
next
  case (3 a)
  then have "pton_loop (b64_text [a]) 0 ti (Some t) =
      At_pad [Pad64] 2 (ti + 1) (Some (t[ti := a, ti + 1 := 0]))"
    using dec_enc_join(1) [of a 0] slop_zero(1) [of a]
    by (simp add: ntop_group_simps pton_sym code_bound pton_store_defs dec0_def del: pton_loop.simps)
      (simp add: Pad64_def is_space_def)
  then show ?case
    using 3
    by (simp add: pton_finish_def pton_pad_def pton_slop_def Let_def take_Suc_conv_app_nth)
next
  case (4 a b)
  then have "pton_loop (b64_text [a, b]) 0 ti (Some t) =
      At_pad [] 3 (ti + 2) (Some (t[ti := a, ti + 1 := b, ti + 2 := 0]))"
    using dec_enc_join(1) [of a b] dec_enc_join(2) [of a b 0] slop_zero(2) [of b]
    by (simp add: ntop_group_simps pton_sym code_bound pton_store_defs dec0_def dec1_def del: pton_loop.simps)
      (simp add: Pad64_def is_space_def)
  then show ?case
    using 4
    by (simp add: pton_finish_def pton_pad_def pton_slop_def Let_def take_Suc_conv_app_nth)
qed

section \<open>No overrun\<close>

text \<open>What holds between two characters: outside phase 0 the byte being assembled is inside
  the buffer.\<close>

definition pton_inv :: "nat \<Rightarrow> nat \<Rightarrow> bytes option \<Rightarrow> bool" where
  "pton_inv state ti target \<longleftrightarrow>
     state < 4 \<and> (\<forall>t. target = Some t \<longrightarrow> (if state = 0 then ti \<le> length t else ti < length t))"

text \<open>Bits decoded so far, in units of two: four per byte, and what is pending.\<close>

definition pton_weight :: "nat \<Rightarrow> nat \<Rightarrow> nat" where
  "pton_weight state ti = 4 * ti + (if state = 1 then 3 else if state = 2 then 2 else if state = 3 then 1 else 0)"

definition same_size :: "bytes option \<Rightarrow> bytes option \<Rightarrow> bool" where
  "same_size a b \<longleftrightarrow> map_option length a = map_option length b"

lemma pton_store_inv:
  assumes "pton_inv st ti tg"
  shows "case pton_store st ti tg pos of
      Stored st' ti' tg' \<Rightarrow> pton_inv st' ti' tg' \<and> pton_weight st' ti' = pton_weight st ti + 3 \<and> same_size tg' tg
    | Store_error \<Rightarrow> True
    | Store_fault \<Rightarrow> False"
proof -
  have "st = 0 \<or> st = 1 \<or> st = 2 \<or> st = 3" using assms by (auto simp: pton_inv_def)
  then show ?thesis
    using assms
    by (cases tg; elim disjE)
      (auto simp: pton_store_defs pton_inv_def pton_weight_def same_size_def)
qed

definition exit_ok :: "bytes option \<Rightarrow> nat \<Rightarrow> pton_exit \<Rightarrow> bool" where
  "exit_ok tg w ex = (case ex of
      At_end st ti tg' \<Rightarrow> pton_inv st ti tg' \<and> pton_weight st ti \<le> w \<and> same_size tg' tg
    | At_pad rest st ti tg' \<Rightarrow> pton_inv st ti tg' \<and> pton_weight st ti \<le> w \<and> same_size tg' tg
    | Loop_error tg' \<Rightarrow> same_size tg' tg
    | Loop_fault \<Rightarrow> False)"

lemma exit_ok_mono: "exit_ok tg' w ex \<Longrightarrow> same_size tg' tg \<Longrightarrow> w \<le> w' \<Longrightarrow> exit_ok tg w' ex"
  by (auto simp: exit_ok_def same_size_def split: pton_exit.splits)

lemma pton_loop_inv:
  "pton_inv st ti tg \<Longrightarrow> exit_ok tg (pton_weight st ti + 3 * length src) (pton_loop src st ti tg)"
proof (induction src st ti tg rule: pton_loop.induct)
  case (1 st ti tg)
  then show ?case by (simp add: exit_ok_def same_size_def)
next
  case (2 ch src st ti tg)
  show ?case
  proof (cases "is_space ch")
    case True
    then have "exit_ok tg (pton_weight st ti + 3 * length src) (pton_loop src st ti tg)"
      using 2 by fastforce
    then show ?thesis
      using True by (auto elim: exit_ok_mono simp: same_size_def)
  next
    case space: False
    show ?thesis
  proof (cases "ch = 0 \<or> ch = Pad64 \<or> b64_pos ch = None")
    case True
    then show ?thesis
      using "2.prems" space by (auto simp: exit_ok_def same_size_def)
  next
    case False
    then obtain pos where pos: "b64_pos ch = Some pos" by auto
    show ?thesis
    proof (cases "pton_store st ti tg pos")
      case (Stored st' ti' tg')
      then have inv: "pton_inv st' ti' tg'" "pton_weight st' ti' = pton_weight st ti + 3" "same_size tg' tg"
        using pton_store_inv [OF "2.prems", of pos] by auto
      have "exit_ok tg' (pton_weight st' ti' + 3 * length src) (pton_loop src st' ti' tg')"
        using "2.IH"(2) False space pos Stored inv(1) by blast
      then show ?thesis
        using False space pos Stored inv by (auto elim: exit_ok_mono)
    next
      case Store_error
      then show ?thesis using False space pos by (simp add: exit_ok_def same_size_def)
    next
      case Store_fault
      then show ?thesis using pton_store_inv [OF "2.prems", of pos] by simp
    qed
  qed
  qed
qed

lemma pton_inv_start: "pton_inv 0 0 tg"
  by (simp add: pton_inv_def)

lemma pton_pad_ok:
  assumes "pton_inv st ti tg"
  shows "\<exists>r tg'. pton_pad rest st ti tg = Ret r tg' \<and> same_size tg' tg \<and> (r = -1 \<or> r = int ti)"
  using assms
  by (auto simp: pton_pad_def pton_slop_def pton_inv_def same_size_def Let_def
      split: prod.splits option.splits if_splits)

lemma pton_inv_le: "pton_inv st ti (Some t) \<Longrightarrow> ti \<le> length t"
  by (auto simp: pton_inv_def split: if_splits)

lemma pton_total:
  "\<exists>r tg'. cockpit_base64_pton src tg = Ret r tg' \<and> same_size tg' tg \<and>
     (r = -1 \<or> (\<exists>ti st. r = int ti \<and> pton_inv st ti tg' \<and> 4 * ti \<le> 3 * length src))"
proof -
  have ok: "exit_ok tg (3 * length src) (pton_loop src 0 0 tg)"
    using pton_loop_inv [OF pton_inv_start, of tg src] by (simp add: pton_weight_def)
  show ?thesis
  proof (cases "pton_loop src 0 0 tg")
    case (At_end st ti tg')
    then show ?thesis using ok
      by (auto simp: cockpit_base64_pton_def pton_finish_def exit_ok_def pton_weight_def)
  next
    case (At_pad rest st ti tg')
    then have inv: "pton_inv st ti tg'" "4 * ti \<le> 3 * length src" "same_size tg' tg"
      using ok by (auto simp: exit_ok_def pton_weight_def)
    obtain r tg'' where r: "pton_pad rest st ti tg' = Ret r tg''" "same_size tg'' tg'" "r = -1 \<or> r = int ti"
      using pton_pad_ok [OF inv(1)] by blast
    have "pton_inv st ti tg''"
      using inv(1) r(2) by (cases tg'; cases tg'') (auto simp: pton_inv_def same_size_def)
    then show ?thesis
      using r inv At_pad by (auto simp: cockpit_base64_pton_def pton_finish_def same_size_def)
  next
    case (Loop_error tg')
    then show ?thesis using ok by (simp add: cockpit_base64_pton_def pton_finish_def exit_ok_def)
  next
    case Loop_fault
    then show ?thesis using ok by (simp add: exit_ok_def)
  qed
qed

section \<open>Interface and properties\<close>

text \<open>Memory returned by \<^verbatim>\<open>malloc (n)\<close>: \<open>n\<close> bytes of arbitrary content, taken from \<open>m\<close>.\<close>

definition malloc_buf :: "bytes \<Rightarrow> nat \<Rightarrow> bytes" where
  "malloc_buf m n = take n (m @ replicate n 0)"

lemma length_malloc_buf [simp]: "length (malloc_buf m n) = n"
  by (simp add: malloc_buf_def)

text \<open>Decoding into a fresh buffer as long as the text, the way the callers do.\<close>

definition b64_decode :: "bytes \<Rightarrow> bytes \<Rightarrow> bytes option" where
  "b64_decode m text =
     (case cockpit_base64_pton text (Some (malloc_buf m (length text))) of
        Ret r (Some t) \<Rightarrow> if r < 0 then None else Some (take (nat r) t)
      | _ \<Rightarrow> None)"

lemma less_four_thirds: "0 < (n::nat) \<Longrightarrow> n < 4 * ((n + 2) div 3)"
  by presburger

lemma b64_decode_text: "b64_decode m (b64_text src) = Some src"
proof (cases "src = []")
  case True
  then show ?thesis
    by (simp add: b64_decode_def cockpit_base64_pton_def pton_finish_def)
next
  case False
  let ?n = "length (b64_text src)"
  have "0 + length src < length (malloc_buf m ?n)"
    using False less_four_thirds [of "length src"] by (simp add: length_b64_text)
  from pton_text [OF this] show ?thesis
    by (auto simp: b64_decode_def cockpit_base64_pton_def)
qed

lemma set_b64_text: "set (b64_text src) \<subseteq> insert Pad64 (set Base64)"
proof (induction src rule: b64_text.induct)
  case (1 a b c r)
  have "set (map b64_sym (ntop_group [a, b, c])) \<subseteq> insert Pad64 (set Base64)"
    using ntop_group_codes [of "[a, b, c]"] by (auto simp: b64_sym_def word_less_nat_alt)
  with 1 show ?case by simp
next
  case (3 a)
  show ?case using ntop_group_codes [of "[a]"] by (auto simp: b64_sym_def word_less_nat_alt)
next
  case (4 a b)
  show ?case using ntop_group_codes [of "[a, b]"] by (auto simp: b64_sym_def word_less_nat_alt)
qed simp

interpretation base64: byte_codec b64_text "b64_decode m" "insert Pad64 (set Base64)" for m
  by unfold_locales
    (use b64_decode_text set_b64_text Base64_chars in \<open>auto simp: Pad64_def\<close>)

lemma b64_text_Nil_iff [simp]: "b64_text src = [] \<longleftrightarrow> src = []"
  by (metis base64.enc_inject b64_text.simps(2))


text \<open>With a buffer of \<^verbatim>\<open>cockpit_base64_size\<close> bytes the encoder's assertions hold and its
  text decodes, in a buffer of any content that has room, to exactly the bytes encoded; the slop
  check of the decoder accepts it.\<close>

theorem cockpit_base64_roundtrip:
  assumes "length src < length t"
  shows "\<exists>text t'. cockpit_base64_ntop src (cockpit_base64_size (length src)) = Some text \<and>
     cockpit_base64_pton text (Some t) = Ret (int (length src)) (Some t') \<and> take (length src) t' = src"
proof -
  have "cockpit_base64_ntop src (cockpit_base64_size (length src)) = Some (b64_text src)"
    using base64_size_enough [of "length src"] by (simp add: ntop_text)
  moreover from assms obtain t' where "cockpit_base64_pton (b64_text src) (Some t) = Ret (int (length src)) (Some t')"
      "take (length src) t' = src"
    using pton_text [of 0 src t] by (auto simp: cockpit_base64_pton_def)
  ultimately show ?thesis by blast
qed

theorem cockpit_base64_roundtrip_witness:
  "\<exists>text t'. cockpit_base64_ntop [77, 97] (cockpit_base64_size 2) = Some text \<and>
     cockpit_base64_pton text (Some [1, 2, 3]) = Ret 2 (Some t') \<and> take 2 t' = [77, 97]"
  using cockpit_base64_roundtrip [of "[77, 97]" "[1, 2, 3]"] by (simp add: numeral_2_eq_2)

text \<open>The check for trailing data after the padding overlooks the last character: any one
  byte may follow a padded text.\<close>

theorem cockpit_base64_pton_trailing_byte:
  "cockpit_base64_pton (asc ''TQ=='' @ [c]) (Some [0, 0, 0]) = Ret 1 (Some [77, 0, 0])"
  by (simp add: cockpit_base64_pton_def b64_pos_def strchr_lit_def Base64_def Pad64_def is_space_def
      pton_store_def put_def pton_finish_def pton_pad_def pton_slop_def push_bit_eq_mult drop_bit_eq_div)

end
