(* ===== verification/Posix.thy ===== *)
theory Posix
  imports Prelude
begin

text \<open>
  What the sources see of the operating system: error numbers and the outcomes of
  \<^verbatim>\<open>read\<close> and \<^verbatim>\<open>write\<close>.  A loop over system calls is a function of the list of outcomes the
  kernel delivers, so a theorem about it covers every schedule of short reads, short writes and
  interruptions.
\<close>

text \<open>\<open>E_none\<close> is the value 0 of \<^verbatim>\<open>errno\<close>.\<close>

datatype errno = E_none | EINVAL | ENOMEM | EAGAIN | EINTR | EIO | EBADMSG | EPIPE | ECONNRESET | ENOENT |
  EPERM | EACCES | ECONNREFUSED | EBADF | ENOTSOCK | EINPROGRESS

datatype read_outcome = Read_data bytes | Read_eof | Read_error errno

text \<open>\<^verbatim>\<open>write\<close> reports how many bytes it took, at most what it was offered.\<close>

datatype write_outcome = Wrote nat | Write_error errno

definition retry_errno :: "errno \<Rightarrow> bool" where
  "retry_errno e \<longleftrightarrow> e = EAGAIN \<or> e = EINTR"

end
