(* ===== verification/Authorize.thy ===== *)
theory Authorize
  imports Base64 Posix
begin

text \<open>
  \<^verbatim>\<open>src/common/cockpitauthorize.c\<close>: the text format of authorize challenges and responses
  (\<^verbatim>\<open>Basic\<close>, \<^verbatim>\<open>Negotiate\<close>, \<^verbatim>\<open>X-Conversation\<close>).  Strings are byte lists; a NULL pointer is
  \<^term>\<open>None\<close>.  The argument \<open>m\<close> of a parser is the content \<^verbatim>\<open>malloc\<close> happens to return, which
  the results must not depend on.  Failure of \<^verbatim>\<open>malloc\<close>, \<^verbatim>\<open>strndup\<close> and \<^verbatim>\<open>asprintf\<close> is not
  modelled.  \<open>Auth_crash\<close> is a failed assertion or an access outside a buffer.
\<close>

datatype 'a auth_result = Auth_ok 'a | Auth_err errno | Auth_crash

section \<open>Nonces\<close>

text \<open>The \<^verbatim>\<open>do ... while\<close> loop; \<^term>\<open>None\<close> when the reads given are used up and the loop still
  waits.  A \<^verbatim>\<open>continue\<close> goes to the loop condition.\<close>

fun nonce_loop :: "nat \<Rightarrow> bytes \<Rightarrow> read_outcome list \<Rightarrow> (errno + bytes) option" where
  "nonce_loop len key [] = None"
| "nonce_loop len key (Read_data d # rs) =
     (let key' = key @ take (len - length key) d in
      if length key' = length key then Some (if length key < len then Inl E_none else Inr key)
      else if length key' < len then nonce_loop len key' rs else Some (Inr key'))"
| "nonce_loop len key (Read_eof # rs) = Some (if length key < len then Inl E_none else Inr key)"
| "nonce_loop len key (Read_error e # rs) =
     (if retry_errno e then (if length key < len then nonce_loop len key rs else Some (Inr key))
      else Some (if length key < len then Inl e else Inr key))"

text \<open>The first argument is the error of opening \<^verbatim>\<open>/dev/urandom\<close>, if any.\<close>

definition cockpit_authorize_nonce ::
    "errno option \<Rightarrow> nat \<Rightarrow> read_outcome list \<Rightarrow> (errno + bytes) option" where
  "cockpit_authorize_nonce open_error len reads =
     (case open_error of Some e \<Rightarrow> Some (Inl e) | None \<Rightarrow> nonce_loop len [] reads)"

section \<open>Splitting a challenge\<close>

text \<open>Step over the delimiter, if there is one, and the blanks after it.\<close>

definition skip_delim :: "bytes \<Rightarrow> bytes" where
  "skip_delim s = dropWhile (\<lambda>b. b = 32) (drop 1 s)"

definition cockpit_authorize_type :: "bytes option \<Rightarrow> (bytes \<times> bytes) option" where
  "cockpit_authorize_type challenge =
     (case challenge of
        None \<Rightarrow> None
      | Some s \<Rightarrow>
          let len = strcspn s [58, 32] in
          if len = 0 then None
          else Some (map to_lower (take len s), skip_delim (drop len s)))"

definition cockpit_authorize_subject :: "bytes option \<Rightarrow> (bytes \<times> bytes) option" where
  "cockpit_authorize_subject challenge =
     (case cockpit_authorize_type challenge of
        None \<Rightarrow> None
      | Some (_, s) \<Rightarrow>
          let len = strcspn s [58, 32] in
          if len = 0 then None else Some (take len s, skip_delim (drop len s)))"

section \<open>Basic\<close>

text \<open>\<^verbatim>\<open>buf = malloc (len + 1); res = cockpit_base64_pton (challenge, len, buf, len)\<close>: of the
  \<^verbatim>\<open>len + 1\<close> bytes the decoder may use the first \<^verbatim>\<open>len\<close>.\<close>

definition pton_call :: "bytes \<Rightarrow> bytes \<Rightarrow> pton_result" where
  "pton_call m text =
     (let buf = malloc_buf m (length text + 1) in
      case cockpit_base64_pton text (Some (take (length text) buf)) of
        Fault \<Rightarrow> Fault
      | Ret res t \<Rightarrow> Ret res (map_option (\<lambda>t. t @ drop (length text) buf) t))"

text \<open>Everything after the decoding: the terminating NUL at \<^verbatim>\<open>res\<close>, the split at the first
  colon of the C string in the buffer, and the \<^verbatim>\<open>memmove\<close> of \<^verbatim>\<open>res - off\<close> bytes to the front.\<close>

definition split_basic :: "bytes \<Rightarrow> nat \<Rightarrow> (bytes \<times> bytes option) auth_result" where
  "split_basic buf res =
     (let buf = buf[res := 0];
          off = strcspn (cstr buf) [58] in
      if off = res then Auth_err EINVAL
      else Auth_ok (cstr (take (res - off) (drop (off + 1) buf)), Some (take off buf)))"

definition cockpit_authorize_parse_basic ::
    "bytes \<Rightarrow> bytes option \<Rightarrow> (bytes \<times> bytes option) auth_result" where
  "cockpit_authorize_parse_basic m challenge =
     (case cockpit_authorize_type challenge of
        None \<Rightarrow> Auth_err EINVAL
      | Some (type, rest) \<Rightarrow>
          if type \<noteq> asc ''basic'' then Auth_err EINVAL
          else
            let len = strcspn rest [32] in
            if len = 0 then Auth_ok ([], None)
            else
              case pton_call m (take len rest) of
                Fault \<Rightarrow> Auth_crash
              | Ret res (Some buf) \<Rightarrow>
                  if res < 0 then Auth_err EINVAL
                  else if \<not> nat res \<le> len then Auth_crash
                  else split_basic buf (nat res)
              | Ret res None \<Rightarrow> Auth_crash)"

definition cockpit_authorize_build_basic :: "bytes option \<Rightarrow> bytes option \<Rightarrow> bytes auth_result" where
  "cockpit_authorize_build_basic user password =
     (let u = (case user of None \<Rightarrow> [] | Some u \<Rightarrow> u);
          p = (case password of None \<Rightarrow> [] | Some p \<Rightarrow> p);
          content = u @ [58] @ p in
      case cockpit_base64_ntop content (cockpit_base64_size (length content)) of
        None \<Rightarrow> Auth_crash
      | Some encoded \<Rightarrow> Auth_ok (asc ''Basic '' @ encoded))"

section \<open>Negotiate\<close>

definition cockpit_authorize_parse_negotiate :: "bytes \<Rightarrow> bytes option \<Rightarrow> bytes auth_result" where
  "cockpit_authorize_parse_negotiate m challenge =
     (case cockpit_authorize_type challenge of
        None \<Rightarrow> Auth_err EINVAL
      | Some (type, rest) \<Rightarrow>
          if type \<noteq> asc ''negotiate'' then Auth_err EINVAL
          else
            case pton_call m (take (strcspn rest [32]) rest) of
              Fault \<Rightarrow> Auth_crash
            | Ret res (Some buf) \<Rightarrow>
                if res < 0 then Auth_err EINVAL else Auth_ok (take (nat res) buf)
            | Ret res None \<Rightarrow> Auth_crash)"

definition cockpit_authorize_build_negotiate :: "bytes option \<Rightarrow> bytes auth_result" where
  "cockpit_authorize_build_negotiate input =
     (let input = (case input of None \<Rightarrow> [] | Some i \<Rightarrow> i) in
      if 0 < length input then
        (case cockpit_base64_ntop input (cockpit_base64_size (length input)) of
           None \<Rightarrow> Auth_crash
         | Some encoded \<Rightarrow> Auth_ok (asc ''Negotiate'' @ asc '' '' @ encoded))
      else Auth_ok (asc ''Negotiate''))"

section \<open>X-Conversation\<close>

definition cockpit_authorize_parse_x_conversation ::
    "bytes \<Rightarrow> bytes option \<Rightarrow> (bytes \<times> bytes) auth_result" where
  "cockpit_authorize_parse_x_conversation m challenge =
     (case cockpit_authorize_type challenge of
        None \<Rightarrow> Auth_err EINVAL
      | Some (type, _) \<Rightarrow>
          if type \<noteq> asc ''x-conversation'' then Auth_err EINVAL
          else
            case cockpit_authorize_subject challenge of
              None \<Rightarrow> Auth_err EINVAL
            | Some (conversation, rest) \<Rightarrow>
                let len = strcspn rest [32] in
                case pton_call m (take len rest) of
                  Fault \<Rightarrow> Auth_crash
                | Ret res (Some buf) \<Rightarrow>
                    if res < 0 then Auth_err EINVAL
                    else if \<not> nat res < length buf then Auth_crash
                    else Auth_ok (cstr (buf[nat res := 0]), conversation)
                | Ret res None \<Rightarrow> Auth_crash)"

text \<open>The response and the conversation the caller is left with.  \<open>nonce\<close> is what
  \<^verbatim>\<open>cockpit_authorize_nonce (128)\<close> returns when no conversation is given.\<close>

definition cockpit_authorize_build_x_conversation ::
    "errno + bytes \<Rightarrow> bytes option \<Rightarrow> bytes option \<Rightarrow> (bytes \<times> bytes) auth_result" where
  "cockpit_authorize_build_x_conversation nonce prompt conversation =
     (let prompt = (case prompt of None \<Rightarrow> [] | Some p \<Rightarrow> p);
          conv =
            (case conversation of
               Some c \<Rightarrow> Auth_ok c
             | None \<Rightarrow>
                 (case nonce of
                    Inl e \<Rightarrow> Auth_err e
                  | Inr n \<Rightarrow>
                      (case cockpit_base64_ntop n (cockpit_base64_size 128) of
                         None \<Rightarrow> Auth_crash | Some c \<Rightarrow> Auth_ok c))) in
      case conv of
        Auth_err e \<Rightarrow> Auth_err e
      | Auth_crash \<Rightarrow> Auth_crash
      | Auth_ok c \<Rightarrow>
          if length c = 0 then Auth_err EINVAL
          else if 0 < length prompt then
            (case cockpit_base64_ntop prompt (cockpit_base64_size (length prompt)) of
               None \<Rightarrow> Auth_crash
             | Some encoded \<Rightarrow> Auth_ok (asc ''X-Conversation '' @ c @ asc '' '' @ encoded, c))
          else Auth_ok (asc ''X-Conversation '' @ c, c))"

section \<open>Lemmas\<close>

lemma pton_call_text:
  "\<exists>buf. pton_call m (b64_text src) = Ret (int (length src)) (Some buf) \<and>
     length buf = length (b64_text src) + 1 \<and> take (length src) buf = src"
proof (cases "src = []")
  case True
  then show ?thesis by (simp add: pton_call_def cockpit_base64_pton_def pton_finish_def)
next
  case False
  let ?n = "length (b64_text src)"
  have less: "length src < ?n"
    using False less_four_thirds [of "length src"] by (simp add: length_b64_text)
  then obtain t where t: "cockpit_base64_pton (b64_text src) (Some (take ?n (malloc_buf m (?n + 1)))) =
        Ret (int (length src)) (Some t)" "length t = ?n" "take (length src) t = src"
    using pton_text [of 0 src "take ?n (malloc_buf m (?n + 1))"] by (auto simp: cockpit_base64_pton_def)
  then show ?thesis using less by (auto simp: pton_call_def Let_def)
qed

lemma pton_call_safe:
  "\<exists>r buf. pton_call m text = Ret r (Some buf) \<and> length buf = length text + 1 \<and>
     (r = -1 \<or> 0 \<le> r \<and> nat r \<le> length text)"
proof -
  obtain r tg where r: "cockpit_base64_pton text (Some (take (length text) (malloc_buf m (length text + 1)))) = Ret r tg"
      "same_size tg (Some (take (length text) (malloc_buf m (length text + 1))))"
      "r = -1 \<or> (\<exists>ti st. r = int ti \<and> pton_inv st ti tg \<and> 4 * ti \<le> 3 * length text)"
    using pton_total by blast
  then show ?thesis
    by (auto simp: pton_call_def same_size_def Let_def)
qed

lemma pton_call_cases:
  obtains (bad) buf where "pton_call m text = Ret (-1) (Some buf)"
  | (decoded) n buf where "pton_call m text = Ret (int n) (Some buf)" "n \<le> length text" "length buf = length text + 1"
  using pton_call_safe [of m "text"] by (metis int_nat_eq)

lemma strcspn_word:
  assumes "\<forall>b\<in>set w. b \<noteq> 58 \<and> b \<noteq> 32"
  shows "strcspn (w @ 32 # r) [58, 32] = length w" "strcspn w [58, 32] = length w"
proof -
  have "takeWhile (\<lambda>b. b \<notin> set [58, 32]) (w @ 32 # r) = w" "takeWhile (\<lambda>b. b \<notin> set [58, 32]) w = w"
    using assms by (auto simp: takeWhile_append)
  then show "strcspn (w @ 32 # r) [58, 32] = length w" "strcspn w [58, 32] = length w"
    unfolding strcspn_def by metis+
qed

lemma type_word:
  assumes "w \<noteq> []" "\<forall>b\<in>set w. b \<noteq> 58 \<and> b \<noteq> 32"
  shows "cockpit_authorize_type (Some (w @ 32 # r)) = Some (map to_lower w, dropWhile (\<lambda>b. b = 32) r)"
    and "cockpit_authorize_type (Some w) = Some (map to_lower w, [])"
  using assms(1) by (simp_all add: cockpit_authorize_type_def strcspn_word [OF assms(2)] skip_delim_def)

lemma dropWhile_b64 [simp]: "dropWhile (\<lambda>b. b = 32) (b64_text src) = b64_text src"
  using base64.enc_token [of _ src] by (cases "b64_text src") auto

lemmas type_literal =
  type_word [of "asc ''Basic''", simplified]
  type_word [of "asc ''Negotiate''", simplified]
  type_word [of "asc ''X-Conversation''", simplified]

lemma ntop_sized: "cockpit_base64_ntop src (cockpit_base64_size (length src)) = Some (b64_text src)"
  using base64_size_enough [of "length src"] by (simp add: ntop_text)

lemma split_basic_content:
  assumes "58 \<notin> set u" "0 \<notin> set u" "0 \<notin> set p"
    and "take (length (u @ 58 # p)) buf = u @ 58 # p" "length (u @ 58 # p) < length buf"
  shows "split_basic buf (length (u @ 58 # p)) = Auth_ok (p, Some u)"
proof -
  let ?n = "length (u @ 58 # p)"
  have buf: "buf[?n := 0] = u @ 58 # p @ 0 # drop (Suc ?n) buf"
    using assms(4,5) upd_conv_take_nth_drop [of ?n buf 0] by simp
  have "cstr (buf[?n := 0]) = u @ 58 # p"
    unfolding buf using assms(2,3) cstr_append_nul [of "u @ 58 # p"] by simp
  then have off: "strcspn (cstr (buf[?n := 0])) [58] = length u"
    using assms(1) by (simp add: strcspn_def takeWhile_append)
  then show ?thesis
    unfolding split_basic_def Let_def off unfolding buf using assms(3) by simp
qed

text \<open>A nonce has the length asked for, however the reads are split or interrupted.\<close>

lemma nonce_loop_length:
  "nonce_loop len key rs = Some (Inr n) \<Longrightarrow> length key \<le> len \<Longrightarrow> length n = len \<and> take (length key) n = key"
proof (induction len key rs rule: nonce_loop.induct)
  case (2 len key d rs)
  show ?case
  proof (cases "length (key @ take (len - length key) d) < len \<and> take (len - length key) d \<noteq> []")
    case True
    let ?key = "key @ take (len - length key) d"
    from True have n: "length n = len" "take (length ?key) n = ?key"
      using 2 by (auto simp: Let_def split: if_splits)
    then show ?thesis using take_of_take_append [OF n(2)] by simp
  qed (use 2 in \<open>auto simp: Let_def split: if_splits\<close>)
qed (auto split: if_splits)

section \<open>Properties\<close>

text \<open>The header built for a user and a password parses back to them, for every user name
  without a colon and whatever the allocated memory holds.\<close>

theorem authorize_basic_roundtrip:
  assumes "58 \<notin> set user" "0 \<notin> set user" "0 \<notin> set password"
  shows "\<exists>header. cockpit_authorize_build_basic (Some user) (Some password) = Auth_ok header \<and>
     cockpit_authorize_parse_basic m (Some header) = Auth_ok (password, Some user)"
proof -
  define c where "c = user @ 58 # password"
  obtain buf where buf: "pton_call m (b64_text c) = Ret (int (length c)) (Some buf)"
      "length buf = length (b64_text c) + 1" "take (length c) buf = c"
    using pton_call_text by blast
  have le: "length c \<le> length (b64_text c)"
    using less_four_thirds [of "length c"] by (simp add: length_b64_text c_def)
  have "b64_text c \<noteq> []" by (simp add: c_def)
  then have "cockpit_authorize_parse_basic m (Some (asc ''Basic'' @ 32 # b64_text c)) = split_basic buf (length c)"
    using buf le base64.enc_strcspn_blank [of c]
    by (simp add: cockpit_authorize_parse_basic_def type_literal to_lower_def is_upper_def Let_def)
  then show ?thesis
    using split_basic_content [OF assms, of buf] buf le ntop_sized [of c]
    by (simp add: cockpit_authorize_build_basic_def Let_def c_def)
qed

theorem authorize_basic_roundtrip_witness:
  "\<exists>header. cockpit_authorize_build_basic (Some (asc ''me'')) (Some (asc ''a:b'')) = Auth_ok header \<and>
     cockpit_authorize_parse_basic [] (Some header) = Auth_ok (asc ''a:b'', Some (asc ''me''))"
  using authorize_basic_roundtrip [of "asc ''me''" "asc ''a:b''" "[]"] by simp

text \<open>A negotiate header carries arbitrary binary data, the empty token included: parsing
  what was built returns the input.\<close>

theorem authorize_negotiate_roundtrip:
  "\<exists>header. cockpit_authorize_build_negotiate (Some input) = Auth_ok header \<and>
     cockpit_authorize_parse_negotiate m (Some header) = Auth_ok input"
proof (cases "input = []")
  case True
  then show ?thesis
    using type_literal(4) pton_call_text [of m "[]"]
    by (auto simp: cockpit_authorize_build_negotiate_def cockpit_authorize_parse_negotiate_def
        to_lower_def is_upper_def strcspn_def)
next
  case False
  obtain buf where buf: "pton_call m (b64_text input) = Ret (int (length input)) (Some buf)"
      "take (length input) buf = input"
    using pton_call_text by blast
  then show ?thesis
    using False base64.enc_strcspn_blank [of input] ntop_sized [of input]
    by (simp add: cockpit_authorize_build_negotiate_def cockpit_authorize_parse_negotiate_def
        type_literal to_lower_def is_upper_def)
qed

text \<open>A conversation challenge carries its prompt and its conversation id: both come back from
  the parser, for a fresh nonce or an id without blanks and colons.\<close>

theorem authorize_x_conversation_roundtrip:
  assumes "0 \<notin> set prompt" "length nonce = 128"
    and "\<And>c. conversation = Some c \<Longrightarrow> c \<noteq> [] \<and> (\<forall>b\<in>set c. b \<noteq> 58 \<and> b \<noteq> 32)"
  shows "\<exists>header conv.
     cockpit_authorize_build_x_conversation (Inr nonce) (Some prompt) conversation = Auth_ok (header, conv) \<and>
     (\<forall>c. conversation = Some c \<longrightarrow> conv = c) \<and>
     cockpit_authorize_parse_x_conversation m (Some header) = Auth_ok (prompt, conv)"
proof -
  define conv where "conv = (case conversation of Some c \<Rightarrow> c | None \<Rightarrow> b64_text nonce)"
  have conv: "conv \<noteq> []" "\<forall>b\<in>set conv. b \<noteq> 58 \<and> b \<noteq> 32"
    using assms base64.enc_token [of _ nonce] by (auto simp: conv_def split: option.splits)
  obtain buf where buf: "pton_call m (b64_text prompt) = Ret (int (length prompt)) (Some buf)"
      "length buf = length (b64_text prompt) + 1" "take (length prompt) buf = prompt"
    using pton_call_text by blast
  have le: "length prompt \<le> length (b64_text prompt)"
    unfolding length_b64_text by presburger
  have nul: "cstr (buf[length prompt := 0]) = prompt"
  proof -
    have "buf[length prompt := 0] = prompt @ 0 # drop (Suc (length prompt)) buf"
      using buf(2,3) le upd_conv_take_nth_drop [of "length prompt" buf 0] by simp
    then show ?thesis using assms(1) by simp
  qed
  let ?header = "asc ''X-Conversation'' @ 32 # conv @ (if prompt = [] then [] else 32 # b64_text prompt)"
  have build: "cockpit_authorize_build_x_conversation (Inr nonce) (Some prompt) conversation = Auth_ok (?header, conv)"
    using conv assms ntop_sized [of nonce] ntop_sized [of prompt]
    by (auto simp: cockpit_authorize_build_x_conversation_def conv_def Let_def split: option.splits)
  have "dropWhile (\<lambda>b. b = 32) (conv @ r) = conv @ r" for r
    using conv by (cases conv) auto
  then have subj: "cockpit_authorize_subject (Some ?header) = Some (conv, b64_text prompt)"
    using conv dropWhile_b64 [of "[]"]
    by (simp add: cockpit_authorize_subject_def type_literal strcspn_word [OF conv(2)] skip_delim_def Let_def)
  have "cockpit_authorize_parse_x_conversation m (Some ?header) = Auth_ok (prompt, conv)"
    using subj buf le nul base64.enc_strcspn_blank [of prompt]
    by (simp add: cockpit_authorize_parse_x_conversation_def type_literal to_lower_def is_upper_def Let_def)
  then show ?thesis using build by (auto simp: conv_def)
qed

theorem authorize_x_conversation_roundtrip_witness:
  "\<exists>header.
     cockpit_authorize_build_x_conversation (Inr (replicate 128 7)) (Some (asc ''Password: '')) (Some (asc ''id'')) =
       Auth_ok (header, asc ''id'') \<and>
     cockpit_authorize_parse_x_conversation [] (Some header) = Auth_ok (asc ''Password: '', asc ''id'')"
  using authorize_x_conversation_roundtrip [of "asc ''Password: ''" "replicate 128 7" "Some (asc ''id'')" "[]"]
  by auto


end
