(* ===== verification/Json.thy ===== *)
theory Json
  imports Interfaces "HOL-Library.List_Lexorder"
begin

unbundle bit_operations_syntax

text \<open>
  \<^verbatim>\<open>src/common/cockpitjson.c\<close>: typed access to JSON objects, comparison, merging, writing,
  conversion from and to hash tables, and the copy-on-write tree walk.

  A \<^verbatim>\<open>JsonNode\<close> of json-glib is a value of the datatype below, without object identity: a
  \<^verbatim>\<open>JsonObject\<close> is the list of its members in the order json-glib keeps them (insertion
  order, names unique), an integer is an \<^verbatim>\<open>int64\<close>, a double its 64-bit IEEE pattern.  The parser
  of json-glib and \<^verbatim>\<open>g_ascii_dtostr\<close> are parameters of the functions that use them.
\<close>

datatype json =
    JNull
  | JBool bool
  | JInt "64 word"
  | JDouble "64 word"
  | JString bytes
  | JArray "json list"
  | JObject "(bytes \<times> json) list"

type_synonym members = "(bytes \<times> json) list"

section \<open>Members of an object\<close>

definition json_object_get_member :: "members \<Rightarrow> bytes \<Rightarrow> json option" where
  "json_object_get_member ms k = map_of ms k"

fun json_object_set_member :: "members \<Rightarrow> bytes \<Rightarrow> json \<Rightarrow> members" where
  "json_object_set_member [] k v = [(k, v)]"
| "json_object_set_member ((k', v') # ms) k v =
     (if k' = k then (k', v) # ms else (k', v') # json_object_set_member ms k v)"

definition json_object_remove_member :: "members \<Rightarrow> bytes \<Rightarrow> members" where
  "json_object_remove_member ms k = filter (\<lambda>(k', _). k' \<noteq> k) ms"

section \<open>Typed access\<close>

text \<open>A getter returns \<^term>\<open>None\<close> for \<^verbatim>\<open>FALSE\<close> and the value stored otherwise.  The conversions
  between doubles and integers are those of json-glib.\<close>

definition cockpit_json_get_int ::
    "(64 word \<Rightarrow> 64 word) \<Rightarrow> members \<Rightarrow> bytes \<Rightarrow> 64 word \<Rightarrow> 64 word option" where
  "cockpit_json_get_int trunc ms name defawlt =
     (case json_object_get_member ms name of
        None \<Rightarrow> Some defawlt
      | Some (JInt i) \<Rightarrow> Some i
      | Some (JDouble d) \<Rightarrow> Some (trunc d)
      | Some _ \<Rightarrow> None)"

definition cockpit_json_get_double ::
    "(64 word \<Rightarrow> 64 word) \<Rightarrow> members \<Rightarrow> bytes \<Rightarrow> 64 word \<Rightarrow> 64 word option" where
  "cockpit_json_get_double of_int64 ms name defawlt =
     (case json_object_get_member ms name of
        None \<Rightarrow> Some defawlt
      | Some (JInt i) \<Rightarrow> Some (of_int64 i)
      | Some (JDouble d) \<Rightarrow> Some d
      | Some _ \<Rightarrow> None)"

definition cockpit_json_get_bool :: "members \<Rightarrow> bytes \<Rightarrow> bool \<Rightarrow> bool option" where
  "cockpit_json_get_bool ms name defawlt =
     (case json_object_get_member ms name of
        None \<Rightarrow> Some defawlt | Some (JBool b) \<Rightarrow> Some b | Some _ \<Rightarrow> None)"

definition cockpit_json_get_string :: "members \<Rightarrow> bytes \<Rightarrow> bytes option \<Rightarrow> bytes option option" where
  "cockpit_json_get_string ms name defawlt =
     (case json_object_get_member ms name of
        None \<Rightarrow> Some defawlt | Some (JString s) \<Rightarrow> Some (Some s) | Some _ \<Rightarrow> None)"

definition cockpit_json_get_array :: "members \<Rightarrow> bytes \<Rightarrow> json list option \<Rightarrow> json list option option" where
  "cockpit_json_get_array ms name defawlt =
     (case json_object_get_member ms name of
        None \<Rightarrow> Some defawlt | Some (JArray a) \<Rightarrow> Some (Some a) | Some _ \<Rightarrow> None)"

definition cockpit_json_get_object :: "members \<Rightarrow> bytes \<Rightarrow> members option \<Rightarrow> members option option" where
  "cockpit_json_get_object ms name defawlt =
     (case json_object_get_member ms name of
        None \<Rightarrow> Some defawlt | Some (JObject m) \<Rightarrow> Some (Some m) | Some _ \<Rightarrow> None)"

fun strv_elements :: "json list \<Rightarrow> bytes list option" where
  "strv_elements [] = Some []"
| "strv_elements (JString s # vs) = map_option ((#) s) (strv_elements vs)"
| "strv_elements (_ # vs) = None"

definition cockpit_json_get_strv :: "members \<Rightarrow> bytes \<Rightarrow> bytes list option \<Rightarrow> bytes list option option" where
  "cockpit_json_get_strv ms name defawlt =
     (case json_object_get_member ms name of
        None \<Rightarrow> Some defawlt
      | Some (JArray a) \<Rightarrow> map_option Some (strv_elements a)
      | Some _ \<Rightarrow> None)"

definition cockpit_json_get_null :: "members \<Rightarrow> bytes \<Rightarrow> bool option" where
  "cockpit_json_get_null ms name =
     (case json_object_get_member ms name of
        None \<Rightarrow> Some False | Some JNull \<Rightarrow> Some True | Some _ \<Rightarrow> None)"

section \<open>Comparison\<close>

text \<open>Equality of doubles: NaN differs from everything, the two zeros are equal.\<close>

definition double_exponent_full :: "64 word \<Rightarrow> bool" where
  "double_exponent_full d \<longleftrightarrow> d AND 0x7ff0000000000000 = 0x7ff0000000000000"

definition double_nan :: "64 word \<Rightarrow> bool" where
  "double_nan d \<longleftrightarrow> double_exponent_full d \<and> d AND 0x000fffffffffffff \<noteq> 0"

definition double_inf :: "64 word \<Rightarrow> bool" where
  "double_inf d \<longleftrightarrow> double_exponent_full d \<and> d AND 0x000fffffffffffff = 0"

definition double_zero :: "64 word \<Rightarrow> bool" where
  "double_zero d \<longleftrightarrow> d AND 0x7fffffffffffffff = 0"

definition double_equal :: "64 word \<Rightarrow> 64 word \<Rightarrow> bool" where
  "double_equal a b \<longleftrightarrow> \<not> double_nan a \<and> \<not> double_nan b \<and> (a = b \<or> double_zero a \<and> double_zero b)"

text \<open>The names of both objects, sorted; a name equal to its predecessor is skipped.\<close>

definition compare_names :: "members \<Rightarrow> members \<Rightarrow> bytes list" where
  "compare_names previous current = remdups_adj (sort (map fst previous @ map fst current))"

lemma map_of_size: "Some v = map_of ms k \<Longrightarrow> size v < Suc (size_list (size_prod (\<lambda>x. 0) size) ms)"
  by (induction ms) (auto split: if_splits)

lemma elem_size: "x \<in> set xs \<Longrightarrow> size x < Suc (size_list size xs)"
  by (induction xs) auto

function json_equal :: "json \<Rightarrow> json \<Rightarrow> bool" where
  "json_equal previous current =
     (case (previous, current) of
        (JObject ps, JObject cs) \<Rightarrow>
          list_all (\<lambda>name.
            case (json_object_get_member ps name, json_object_get_member cs name) of
              (None, None) \<Rightarrow> True
            | (Some p, Some c) \<Rightarrow> json_equal p c
            | _ \<Rightarrow> False) (compare_names ps cs)
      | (JArray ps, JArray cs) \<Rightarrow>
          length ps = length cs \<and> list_all (\<lambda>(p, c). json_equal p c) (zip ps cs)
      | (JNull, JNull) \<Rightarrow> True
      | (JInt p, JInt c) \<Rightarrow> p = c
      | (JDouble p, JDouble c) \<Rightarrow> double_equal p c
      | (JBool p, JBool c) \<Rightarrow> p = c
      | (JString p, JString c) \<Rightarrow> p = c
      | _ \<Rightarrow> False)"
  by pat_completeness auto
termination
  by (relation "measure (\<lambda>(p, c). size p)")
    (auto simp: json_object_get_member_def dest: map_of_size set_zip_leftD [THEN elem_size])

declare json_equal.simps [simp del]

definition cockpit_json_equal :: "json option \<Rightarrow> json option \<Rightarrow> bool" where
  "cockpit_json_equal previous current =
     (case (previous, current) of
        (None, None) \<Rightarrow> True
      | (Some p, Some c) \<Rightarrow> json_equal p c
      | _ \<Rightarrow> False)"

section \<open>Merging\<close>

text \<open>\<^verbatim>\<open>cockpit_json_patch\<close> changes the target in place; here the new target is the result.\<close>

fun cockpit_json_patch :: "members \<Rightarrow> members \<Rightarrow> members" where
  "cockpit_json_patch target [] = target"
| "cockpit_json_patch target ((name, node) # override) =
     cockpit_json_patch
       (case node of
          JNull \<Rightarrow> json_object_remove_member target name
        | JObject o1 \<Rightarrow>
            (case json_object_get_member target name of
               Some (JObject t1) \<Rightarrow> json_object_set_member target name (JObject (cockpit_json_patch t1 o1))
             | _ \<Rightarrow> json_object_set_member target name node)
        | _ \<Rightarrow> json_object_set_member target name node)
       override"

section \<open>Integer keys\<close>

definition cockpit_json_int_hash :: "64 word \<Rightarrow> 32 word" where
  "cockpit_json_int_hash v = ucast v"

definition cockpit_json_int_equal :: "64 word \<Rightarrow> 64 word \<Rightarrow> bool" where
  "cockpit_json_int_equal v1 v2 \<longleftrightarrow> v1 = v2"

section \<open>Parsing\<close>

text \<open>\<open>load\<close> is \<^verbatim>\<open>json_parser_load_from_data\<close> with \<^verbatim>\<open>json_parser_steal_root\<close>: \<^term>\<open>None\<close> for a
  parse error, \<^term>\<open>Some None\<close> for a text without a root.\<close>

definition cockpit_json_parse :: "(bytes \<Rightarrow> json option option) \<Rightarrow> bytes \<Rightarrow> json option" where
  "cockpit_json_parse load data = (case load data of None \<Rightarrow> None | Some root \<Rightarrow> root)"

definition cockpit_json_parse_object :: "(bytes \<Rightarrow> json option option) \<Rightarrow> bytes \<Rightarrow> members option" where
  "cockpit_json_parse_object load data =
     (case cockpit_json_parse load data of Some (JObject ms) \<Rightarrow> Some ms | _ \<Rightarrow> None)"

definition cockpit_json_parse_bytes :: "(bytes \<Rightarrow> json option option) \<Rightarrow> bytes \<Rightarrow> members option" where
  "cockpit_json_parse_bytes load data =
     (if length data = 0 then None else cockpit_json_parse_object load data)"

section \<open>Writing\<close>

definition hex2 :: "byte \<Rightarrow> bytes" where
  "hex2 b = (let d = (\<lambda>n. if n < 10 then 48 + of_nat n else 87 + of_nat n)
             in [d (unat b div 16), d (unat b mod 16)])"

text \<open>\<^verbatim>\<open>*p\<close> is a signed \<^verbatim>\<open>char\<close>: bytes from 0x80 on are negative and copied.\<close>

definition json_strescape_char :: "byte \<Rightarrow> bytes" where
  "json_strescape_char p =
     (if p = 92 \<or> p = 34 then [92, p]
      else if (0 < p \<and> p < 0x1f) \<or> p = 0x7f then
        (if p = 8 then [92, 98]
         else if p = 12 then [92, 102]
         else if p = 10 then [92, 110]
         else if p = 13 then [92, 114]
         else if p = 9 then [92, 116]
         else [92, 117, 48, 48] @ hex2 p)
      else [p])"

definition json_strescape :: "bytes \<Rightarrow> bytes" where
  "json_strescape str = concat (map json_strescape_char str)"

definition int64_text :: "64 word \<Rightarrow> bytes" where
  "int64_text i =
     (if sint i < 0 then 45 # dec_digits (nat (- sint i)) else dec_digits (nat (sint i)))"

definition member_prefix :: "bytes option \<Rightarrow> bytes" where
  "member_prefix name = (case name of None \<Rightarrow> [] | Some n \<Rightarrow> [34] @ n @ [34, 58])"

text \<open>\<^verbatim>\<open>dump_value\<close>, \<^verbatim>\<open>dump_array\<close> and \<^verbatim>\<open>dump_object\<close>, dispatched by node type as in the loops of
  the latter two and in \<^verbatim>\<open>cockpit_json_write\<close>; \<open>dtostr\<close> is \<^verbatim>\<open>g_ascii_dtostr\<close>.\<close>

definition dump_value :: "(64 word \<Rightarrow> bytes) \<Rightarrow> bytes option \<Rightarrow> json \<Rightarrow> bytes" where
  "dump_value dtostr name node =
     member_prefix name @
     (case node of
        JInt i \<Rightarrow> int64_text i
      | JDouble d \<Rightarrow> if double_nan d \<or> double_inf d then asc ''null'' else dtostr d
      | JBool b \<Rightarrow> if b then asc ''true'' else asc ''false''
      | JString s \<Rightarrow> [34] @ json_strescape s @ [34]
      | _ \<Rightarrow> [])"

fun dump_node :: "(64 word \<Rightarrow> bytes) \<Rightarrow> bytes option \<Rightarrow> json \<Rightarrow> bytes"
  and dump_elements :: "(64 word \<Rightarrow> bytes) \<Rightarrow> json list \<Rightarrow> bytes"
  and dump_members :: "(64 word \<Rightarrow> bytes) \<Rightarrow> members \<Rightarrow> bytes" where
  "dump_node dtostr name JNull = member_prefix name @ asc ''null''"
| "dump_node dtostr name (JArray a) = member_prefix name @ [91] @ dump_elements dtostr a @ [93]"
| "dump_node dtostr name (JObject ms) = member_prefix name @ [123] @ dump_members dtostr ms @ [125]"
| "dump_node dtostr name v = dump_value dtostr name v"
| "dump_elements dtostr [] = []"
| "dump_elements dtostr (v # vs) =
     dump_node dtostr None v @ (if vs \<noteq> [] then [44] else []) @ dump_elements dtostr vs"
| "dump_members dtostr [] = []"
| "dump_members dtostr ((k, v) # ms) =
     dump_node dtostr (Some (json_strescape k)) v @ (if ms \<noteq> [] then [44] else []) @ dump_members dtostr ms"

definition cockpit_json_write :: "(64 word \<Rightarrow> bytes) \<Rightarrow> json option \<Rightarrow> bytes option" where
  "cockpit_json_write dtostr node = map_option (dump_node dtostr None) node"

definition cockpit_json_write_object :: "(64 word \<Rightarrow> bytes) \<Rightarrow> members \<Rightarrow> bytes" where
  "cockpit_json_write_object dtostr ms = dump_node dtostr None (JObject ms)"

definition cockpit_json_write_bytes :: "(64 word \<Rightarrow> bytes) \<Rightarrow> members \<Rightarrow> bytes" where
  "cockpit_json_write_bytes dtostr ms = cockpit_json_write_object dtostr ms"

section \<open>Hash tables\<close>

fun from_fields :: "(bytes \<rightharpoonup> bytes) \<Rightarrow> bytes list \<Rightarrow> members \<Rightarrow> members" where
  "from_fields table [] block = block"
| "from_fields table (f # fields) block =
     from_fields table fields
       (json_object_set_member block f (case table f of Some v \<Rightarrow> JString v | None \<Rightarrow> JNull))"

definition cockpit_json_from_hash_table :: "(bytes \<rightharpoonup> bytes) option \<Rightarrow> bytes list \<Rightarrow> members option" where
  "cockpit_json_from_hash_table table fields = map_option (\<lambda>t. from_fields t fields []) table"

fun to_fields :: "members \<Rightarrow> bytes list \<Rightarrow> (bytes \<rightharpoonup> bytes) \<Rightarrow> (bytes \<rightharpoonup> bytes)" where
  "to_fields ms [] table = table"
| "to_fields ms (f # fields) table =
     to_fields ms fields
       (case cockpit_json_get_string ms f None of
          Some (Some v) \<Rightarrow> table(f \<mapsto> v)
        | _ \<Rightarrow> table)"

definition cockpit_json_to_hash_table :: "members \<Rightarrow> bytes list \<Rightarrow> (bytes \<rightharpoonup> bytes)" where
  "cockpit_json_to_hash_table ms fields = to_fields ms fields Map.empty"

section \<open>Walking\<close>

text \<open>The copy-on-write walk: \<^term>\<open>None\<close> when nothing below was replaced.  \<open>seen\<close> is what the loop has
  passed, which goes into the copy when the first replacement is found.\<close>

fun cockpit_json_walk_node :: "(json \<Rightarrow> json option) \<Rightarrow> json \<Rightarrow> json option"
  and cockpit_json_walk_array :: "(json \<Rightarrow> json option) \<Rightarrow> json list \<Rightarrow> json list \<Rightarrow> json list option \<Rightarrow> json list option"
  and cockpit_json_walk_object :: "(json \<Rightarrow> json option) \<Rightarrow> members \<Rightarrow> members \<Rightarrow> members option \<Rightarrow> members option" where
  "cockpit_json_walk_node callback (JArray a) = map_option JArray (cockpit_json_walk_array callback a [] None)"
| "cockpit_json_walk_node callback (JObject ms) = map_option JObject (cockpit_json_walk_object callback ms [] None)"
| "cockpit_json_walk_node callback node = callback node"
| "cockpit_json_walk_array callback [] seen copy = copy"
| "cockpit_json_walk_array callback (v # vs) seen copy =
     (let node = cockpit_json_walk_node callback v;
          copy = (if node \<noteq> None \<and> copy = None then Some seen else copy);
          copy = map_option (\<lambda>c. c @ [case node of Some n \<Rightarrow> n | None \<Rightarrow> v]) copy
      in cockpit_json_walk_array callback vs (seen @ [v]) copy)"
| "cockpit_json_walk_object callback [] seen copy = copy"
| "cockpit_json_walk_object callback ((k, v) # ms) seen copy =
     (let node = cockpit_json_walk_node callback v;
          copy = (if node \<noteq> None \<and> copy = None
                  then Some (foldl (\<lambda>c (k', v'). json_object_set_member c k' v') [] seen) else copy);
          copy = map_option (\<lambda>c. json_object_set_member c k (case node of Some n \<Rightarrow> n | None \<Rightarrow> v)) copy
      in cockpit_json_walk_object callback ms (seen @ [(k, v)]) copy)"

definition cockpit_json_walk :: "members \<Rightarrow> (json \<Rightarrow> json option) \<Rightarrow> members" where
  "cockpit_json_walk object callback =
     (case cockpit_json_walk_object callback object [] None of
        None \<Rightarrow> object
      | Some copy \<Rightarrow> copy)"

section \<open>Members\<close>

abbreviation names_unique :: "members \<Rightarrow> bool" where
  "names_unique ms \<equiv> distinct (map fst ms)"

lemma set_member_names: "fst ` set (json_object_set_member ms k v) = insert k (fst ` set ms)"
  by (induction ms k v rule: json_object_set_member.induct) auto

lemma get_set_member: "map_of (json_object_set_member ms k v) k' = (if k' = k then Some v else map_of ms k')"
  by (induction ms k v rule: json_object_set_member.induct) auto

lemma set_member_fresh: "k \<notin> fst ` set ms \<Longrightarrow> json_object_set_member ms k v = ms @ [(k, v)]"
  by (induction ms k v rule: json_object_set_member.induct) auto

lemma names_set_member: "map fst (json_object_set_member ms k v) = (if k \<in> fst ` set ms then map fst ms else map fst ms @ [k])"
  by (induction ms k v rule: json_object_set_member.induct) auto

lemma unique_set_member: "names_unique ms \<Longrightarrow> names_unique (json_object_set_member ms k v)"
  by (simp add: names_set_member)

lemma get_remove_member: "map_of (json_object_remove_member ms k) k' = (if k' = k then None else map_of ms k')"
  by (induction ms) (auto simp: json_object_remove_member_def)

lemma unique_remove_member: "names_unique ms \<Longrightarrow> names_unique (json_object_remove_member ms k)"
  by (induction ms) (auto simp: json_object_remove_member_def)

interpretation members: dictionary json_object_get_member json_object_set_member json_object_remove_member names_unique
  by unfold_locales
    (simp_all add: json_object_get_member_def get_set_member get_remove_member unique_set_member unique_remove_member)

section \<open>Merging\<close>

text \<open>What merging one member does to the target.\<close>

definition patch_member :: "json option \<Rightarrow> json \<Rightarrow> json option" where
  "patch_member old node =
     (case node of
        JNull \<Rightarrow> None
      | JObject o1 \<Rightarrow>
          (case old of Some (JObject t1) \<Rightarrow> Some (JObject (cockpit_json_patch t1 o1)) | _ \<Rightarrow> Some node)
      | _ \<Rightarrow> Some node)"

lemma patch_get:
  "names_unique ov \<Longrightarrow> names_unique target \<Longrightarrow>
   json_object_get_member (cockpit_json_patch target ov) k =
     (case json_object_get_member ov k of
        None \<Rightarrow> json_object_get_member target k
      | Some node \<Rightarrow> patch_member (json_object_get_member target k) node)"
proof (induction ov arbitrary: target)
  case (Cons e ov)
  obtain name node where e: "e = (name, node)" by (cases e)
  define target' where "target' =
    (case node of
          JNull \<Rightarrow> json_object_remove_member target name
        | JObject o1 \<Rightarrow>
            (case json_object_get_member target name of
               Some (JObject t1) \<Rightarrow> json_object_set_member target name (JObject (cockpit_json_patch t1 o1))
             | _ \<Rightarrow> json_object_set_member target name node)
        | _ \<Rightarrow> json_object_set_member target name node)"
  have get': "json_object_get_member target' k' =
      (if k' = name then patch_member (json_object_get_member target name) node else json_object_get_member target k')" for k'
    using Cons.prems(2)
    by (auto simp: target'_def patch_member_def members.lookup_insert members.lookup_remove
        split: json.splits option.splits)
  have "names_unique target'"
    using Cons.prems(2)
    by (auto simp: target'_def members.ok_insert members.ok_remove split: json.splits option.splits)
  then have "json_object_get_member (cockpit_json_patch target' ov) k =
      (case json_object_get_member ov k of
        None \<Rightarrow> json_object_get_member target' k
      | Some node \<Rightarrow> patch_member (json_object_get_member target' k) node)"
    using Cons by simp
  moreover have "cockpit_json_patch target (e # ov) = cockpit_json_patch target' ov"
    by (simp add: e target'_def)
  moreover have "json_object_get_member ov name = None"
    using Cons.prems(1) by (simp add: e json_object_get_member_def map_of_eq_None_iff)
  moreover have "json_object_get_member (e # ov) k = (if k = name then Some node else json_object_get_member ov k)"
    by (simp add: e json_object_get_member_def)
  ultimately show ?case
    using get' [of k] by (auto split: option.splits)
qed (simp add: json_object_get_member_def)

section \<open>Hash tables\<close>

lemma from_fields_fold:
  "from_fields t fs block = foldl (\<lambda>b f. json_object_set_member b f (case t f of Some v \<Rightarrow> JString v | None \<Rightarrow> JNull)) block fs"
  by (induction t fs block rule: from_fields.induct) auto

lemma to_fields_get:
  "to_fields ms fs table k =
    (if k \<in> set fs then (case cockpit_json_get_string ms k None of Some (Some v) \<Rightarrow> Some v | _ \<Rightarrow> table k) else table k)"
  by (induction ms fs table rule: to_fields.induct) (auto split: option.splits)

section \<open>Walking\<close>

text \<open>Reference: replace the simple values, everywhere, and whether anything is replaced.\<close>

fun walk_map :: "(json \<Rightarrow> json option) \<Rightarrow> json \<Rightarrow> json" where
  "walk_map f (JArray a) = JArray (map (walk_map f) a)"
| "walk_map f (JObject ms) = JObject (map (\<lambda>(k, v). (k, walk_map f v)) ms)"
| "walk_map f v = (case f v of Some w \<Rightarrow> w | None \<Rightarrow> v)"

fun walk_changes :: "(json \<Rightarrow> json option) \<Rightarrow> json \<Rightarrow> bool" where
  "walk_changes f (JArray a) = (\<exists>v\<in>set a. walk_changes f v)"
| "walk_changes f (JObject ms) = (\<exists>(k, v)\<in>set ms. walk_changes f v)"
| "walk_changes f v = (f v \<noteq> None)"


text \<open>Well-formed trees: names are unique in every object.\<close>

fun json_wf :: "json \<Rightarrow> bool" where
  "json_wf (JArray a) = (\<forall>v\<in>set a. json_wf v)"
| "json_wf (JObject ms) = (names_unique ms \<and> (\<forall>(k, v)\<in>set ms. json_wf v))"
| "json_wf v = True"

lemma walk_map_id: "\<not> walk_changes f v \<Longrightarrow> walk_map f v = v"
proof (induction f v rule: walk_map.induct)
  case (1 f a)
  then show ?case by (simp add: map_idI)
next
  case (2 f ms)
  then have "map (\<lambda>(k, v). (k, walk_map f v)) ms = ms" by (intro map_idI) auto
  then show ?case by simp
qed auto

lemma foldl_set_member:
  "distinct (map fst (c @ ms)) \<Longrightarrow> foldl (\<lambda>c (k, v). json_object_set_member c k v) c ms = c @ ms"
proof (induction ms arbitrary: c)
  case (Cons e ms)
  obtain k v where "e = (k, v)" by (cases e)
  then show ?case using Cons.prems Cons.IH [of "c @ [(k, v)]"] by (simp add: set_member_fresh)
qed simp

abbreviation walk_member :: "(json \<Rightarrow> json option) \<Rightarrow> bytes \<times> json \<Rightarrow> bytes \<times> json" where
  "walk_member f \<equiv> \<lambda>(k, v). (k, walk_map f v)"

lemma walk_eq:
  "json_wf v \<Longrightarrow> cockpit_json_walk_node f v = (if walk_changes f v then Some (walk_map f v) else None)"
  "\<forall>v\<in>set vs. json_wf v \<Longrightarrow> cockpit_json_walk_array f vs seen acopy =
     (case acopy of Some c \<Rightarrow> Some (c @ map (walk_map f) vs)
      | None \<Rightarrow> if \<exists>v\<in>set vs. walk_changes f v then Some (seen @ map (walk_map f) vs) else None)"
  "\<forall>(k, v)\<in>set ms. json_wf v \<Longrightarrow> distinct (map fst (mseen @ ms)) \<Longrightarrow>
     (\<And>c. mcopy = Some c \<Longrightarrow> map fst c = map fst mseen) \<Longrightarrow>
     cockpit_json_walk_object f ms mseen mcopy =
     (case mcopy of Some c \<Rightarrow> Some (c @ map (walk_member f) ms)
      | None \<Rightarrow> if \<exists>(k, v)\<in>set ms. walk_changes f v then Some (mseen @ map (walk_member f) ms) else None)"
proof (induction f v and f vs seen acopy and f ms mseen mcopy
    rule: cockpit_json_walk_node_cockpit_json_walk_array_cockpit_json_walk_object.induct)
  case (5 f v vs seen copy)
  then show ?case
    by (cases copy; cases "walk_changes f v") (auto simp: Let_def walk_map_id)
next
  case (7 f k v ms seen copy)
  define node where "node = cockpit_json_walk_node f v"
  have node: "node = (if walk_changes f v then Some (walk_map f v) else None)"
    using "7.IH"(1) "7.prems"(1) by (simp add: node_def)
  have fresh: "k \<notin> fst ` set seen" "distinct (map fst seen)" using "7.prems"(2) by auto
  have cfresh: "k \<notin> fst ` set c" if "copy = Some c" for c
    using "7.prems"(3) [OF that] fresh(1) by (metis set_map)
  define copy' where "copy' = (case copy of Some c \<Rightarrow> Some (c @ [(k, walk_map f v)])
      | None \<Rightarrow> if walk_changes f v then Some (seen @ [(k, walk_map f v)]) else None)"
  have copy': "map_option (\<lambda>c. json_object_set_member c k (case node of Some n \<Rightarrow> n | None \<Rightarrow> v))
      (if node \<noteq> None \<and> copy = None
       then Some (foldl (\<lambda>c (k', v'). json_object_set_member c k' v') [] seen) else copy) = copy'"
    using fresh cfresh node
    by (cases copy; cases "walk_changes f v")
      (auto simp: copy'_def foldl_set_member set_member_fresh walk_map_id)
  have "cockpit_json_walk_object f ((k, v) # ms) seen copy = cockpit_json_walk_object f ms (seen @ [(k, v)]) copy'"
    by (simp only: cockpit_json_walk_object.simps Let_def node_def [symmetric] copy')
  moreover have "cockpit_json_walk_object f ms (seen @ [(k, v)]) copy' =
     (case copy' of Some c \<Rightarrow> Some (c @ map (walk_member f) ms)
      | None \<Rightarrow> if \<exists>(k, v)\<in>set ms. walk_changes f v then Some ((seen @ [(k, v)]) @ map (walk_member f) ms) else None)"
  proof (rule "7.IH"(2) [OF refl refl refl, folded node_def, unfolded copy'])
    show "map fst c = map fst (seen @ [(k, v)])" if "copy' = Some c" for c
      using that "7.prems"(3) by (auto simp: copy'_def split: option.splits if_splits)
  qed (use "7.prems" in auto)
  ultimately show ?case
    by (cases copy) (auto simp: copy'_def walk_map_id)
qed (auto split: option.splits)


section \<open>Comparison\<close>

text \<open>Canonical form: members by name, one zero.  Two trees without NaN are equal when their
  canonical forms are.\<close>

fun canon :: "json \<Rightarrow> json" where
  "canon (JArray a) = JArray (map canon a)"
| "canon (JObject ms) = JObject (sort_key fst (map (\<lambda>(k, v). (k, canon v)) ms))"
| "canon (JDouble d) = JDouble (if double_zero d then 0 else d)"
| "canon v = v"

fun no_nan :: "json \<Rightarrow> bool" where
  "no_nan (JArray a) = (\<forall>v\<in>set a. no_nan v)"
| "no_nan (JObject ms) = (\<forall>(k, v)\<in>set ms. no_nan v)"
| "no_nan (JDouble d) = (\<not> double_nan d)"
| "no_nan v = True"

lemma sort_members_eq_iff:
  assumes "names_unique xs" "names_unique ys"
  shows "sort_key fst xs = sort_key fst ys \<longleftrightarrow> (\<forall>k. map_of xs k = map_of ys k)"
proof -
  have "set xs = set ys \<longleftrightarrow> map_of xs = map_of ys"
    using map_of_inject_set [OF assms] by simp
  moreover have "sort_key fst xs = sort_key fst ys" if "set xs = set ys"
  proof (rule map_sorted_distinct_set_unique [of fst])
    show "inj_on fst (set (sort_key fst xs) \<union> set (sort_key fst ys))"
      using assms(1) that by (simp add: distinct_map)
  qed (use assms that in \<open>simp_all add: distinct_map\<close>)
  ultimately show ?thesis
    by (metis set_sort ext)
qed

lemma set_compare_names: "set (compare_names ps cs) = fst ` set ps \<union> fst ` set cs"
  by (simp add: compare_names_def)

lemma map_of_canon: "map_of (map (\<lambda>(k, v). (k, canon v)) ms) k = map_option canon (map_of ms k)"
  by (induction ms) auto

lemma double_zero_0: "double_zero 0"
  by (simp add: double_zero_def)

lemma double_equal_canon:
  "\<not> double_nan a \<Longrightarrow> \<not> double_nan b \<Longrightarrow> double_equal a b \<longleftrightarrow> canon (JDouble a) = canon (JDouble b)"
  using double_zero_0 by (auto simp: double_equal_def)

lemma json_equal_objects:
  assumes "json_wf (JObject ps)" "json_wf (JObject cs)" "no_nan (JObject ps)" "no_nan (JObject cs)"
    and "\<And>p c. (\<exists>k. map_of ps k = Some p \<and> map_of cs k = Some c) \<Longrightarrow> json_equal p c \<longleftrightarrow> canon p = canon c"
  shows "json_equal (JObject ps) (JObject cs) \<longleftrightarrow> canon (JObject ps) = canon (JObject cs)"
proof -
  let ?c = "\<lambda>ms. map (\<lambda>(k, v). (k, canon v)) ms"
  have "names_unique (?c ps)" "names_unique (?c cs)"
    using assms(1,2) by (simp_all add: comp_def case_prod_unfold)
  then have "canon (JObject ps) = canon (JObject cs) \<longleftrightarrow> (\<forall>k. map_option canon (map_of ps k) = map_option canon (map_of cs k))"
    by (simp add: sort_members_eq_iff map_of_canon)
  also have "\<dots> \<longleftrightarrow> (\<forall>k \<in> fst ` set ps \<union> fst ` set cs. map_option canon (map_of ps k) = map_option canon (map_of cs k))"
    by (metis UnI1 UnI2 map_of_eq_None_iff)
  also have "\<dots> \<longleftrightarrow> json_equal (JObject ps) (JObject cs)"
  proof -
    have "(case (map_of ps k, map_of cs k) of (None, None) \<Rightarrow> True | (Some p, Some c) \<Rightarrow> json_equal p c | _ \<Rightarrow> False) \<longleftrightarrow>
        map_option canon (map_of ps k) = map_option canon (map_of cs k)" for k
      using assms(5) by (cases "map_of ps k"; cases "map_of cs k") auto
    then show ?thesis
      by (simp add: json_equal.simps [of "JObject ps"] list_all_iff set_compare_names json_object_get_member_def)
  qed
  finally show ?thesis by simp
qed

lemma json_equal_canon:
  "json_wf a \<Longrightarrow> json_wf b \<Longrightarrow> no_nan a \<Longrightarrow> no_nan b \<Longrightarrow> json_equal a b \<longleftrightarrow> canon a = canon b"
proof (induction a arbitrary: b)
  case (JArray ps)
  show ?case
  proof (cases b)
    case b: (JArray cs)
    have "json_equal p c \<longleftrightarrow> canon p = canon c" if "(p, c) \<in> set (zip ps cs)" for p c
      using set_zip_leftD [OF that] set_zip_rightD [OF that] JArray b by simp
    then have "json_equal (JArray ps) (JArray cs) \<longleftrightarrow> length ps = length cs \<and> (\<forall>(p, c)\<in>set (zip ps cs). canon p = canon c)"
      by (subst json_equal.simps) (auto simp: list_all_iff)
    also have "\<dots> \<longleftrightarrow> map canon ps = map canon cs"
      by (auto simp: list_eq_iff_nth_eq set_zip) blast
    finally show ?thesis using b by simp
  qed (simp_all add: json_equal.simps)
next
  case (JObject ps)
  show ?case
  proof (cases b)
    case b: (JObject cs)
    show ?thesis
      unfolding b
    proof (rule json_equal_objects)
      fix p c
      assume "\<exists>k. map_of ps k = Some p \<and> map_of cs k = Some c"
      then obtain k where "(k, p) \<in> set ps" "(k, c) \<in> set cs" by (auto dest: map_of_SomeD)
      then show "json_equal p c \<longleftrightarrow> canon p = canon c"
        using JObject.prems b by (intro JObject.IH) (fastforce+)
    qed (use JObject.prems b in auto)
  qed (simp_all add: json_equal.simps)
next
  case (JDouble d)
  then show ?case by (cases b) (simp_all add: json_equal.simps double_equal_canon del: canon.simps, simp_all)
qed (case_tac b; simp add: json_equal.simps)+

section \<open>Properties\<close>

text \<open>C40: comparison of JSON trees ignores member order at every level: on trees with unique names
  and without NaN, \<^verbatim>\<open>cockpit_json_equal\<close> holds exactly when the canonical forms coincide, so it is an
  equivalence.\<close>

theorem cockpit_json_equal_canonical:
  assumes "json_wf a" "json_wf b" "no_nan a" "no_nan b"
  shows "cockpit_json_equal (Some a) (Some b) \<longleftrightarrow> canon a = canon b"
  using json_equal_canon [OF assms] by (simp add: cockpit_json_equal_def)

theorem cockpit_json_equal_canonical_witness:
  "cockpit_json_equal (Some (JObject [(asc ''b'', JArray [JDouble 0x8000000000000000]), (asc ''a'', JNull)]))
                      (Some (JObject [(asc ''a'', JNull), (asc ''b'', JArray [JDouble 0])]))"
  by (subst cockpit_json_equal_canonical) (simp_all add: double_nan_def double_exponent_full_def double_zero_def)

text \<open>After \<^verbatim>\<open>cockpit_json_patch\<close> a member of the override that is null is gone from the target,
  one that is an object is merged recursively where the target holds an object, any other replaces
  the target's value, and members the override does not name are untouched.\<close>

theorem cockpit_json_patch_members:
  assumes "json_wf (JObject target)" "json_wf (JObject override)"
  shows "json_object_get_member (cockpit_json_patch target override) k =
     (case json_object_get_member override k of
        None \<Rightarrow> json_object_get_member target k
      | Some JNull \<Rightarrow> None
      | Some (JObject o1) \<Rightarrow>
          (case json_object_get_member target k of
             Some (JObject t1) \<Rightarrow> Some (JObject (cockpit_json_patch t1 o1))
           | _ \<Rightarrow> Some (JObject o1))
      | Some v \<Rightarrow> Some v)"
  using patch_get [of override target k] assms
  by (auto simp: patch_member_def split: option.splits json.splits)

theorem cockpit_json_patch_members_witness:
  "json_object_get_member
     (cockpit_json_patch [([1], JObject [([2], JNull), ([3], JBool True)])] [([1], JObject [([3], JNull)]), ([4], JNull)]) [1] =
   Some (JObject [([2], JNull)])"
  by (subst cockpit_json_patch_members)
    (simp_all add: json_object_get_member_def json_object_remove_member_def)

text \<open>The copy-on-write walk is the plain recursive replacement of simple values, and it returns
  the original object itself exactly when the callback replaced nothing.\<close>

theorem cockpit_json_walk_reference:
  assumes "json_wf (JObject object)"
  shows "JObject (cockpit_json_walk object callback) = walk_map callback (JObject object) \<and>
     (cockpit_json_walk_object callback object [] None = None \<longleftrightarrow> \<not> walk_changes callback (JObject object))"
proof -
  have eq: "cockpit_json_walk_object callback object [] None =
      (if \<exists>(k, v)\<in>set object. walk_changes callback v then Some (map (walk_member callback) object) else None)"
    using assms by (subst walk_eq(3)) auto
  show ?thesis
    using eq walk_map_id [of callback "JObject object"] by (auto simp: cockpit_json_walk_def)
qed

theorem cockpit_json_walk_reference_witness:
  "JObject (cockpit_json_walk [([1], JArray [JNull, JInt 5])] (\<lambda>v. if v = JNull then Some (JInt 0) else None)) =
   JObject [([1], JArray [JInt 0, JInt 5])]"
  using cockpit_json_walk_reference [of "[([1], JArray [JNull, JInt 5])]" "\<lambda>v. if v = JNull then Some (JInt 0) else None"]
  by simp

text \<open>A hash table written to JSON for a list of fields and read back for the same fields is the
  table restricted to them: absent fields, stored as null, stay absent.\<close>

theorem cockpit_json_hash_table_roundtrip:
  "map_option (\<lambda>block. cockpit_json_to_hash_table block fields) (cockpit_json_from_hash_table (Some table) fields) =
   Some (table |` set fields)"
proof -
  have "to_fields (from_fields table fields []) fields Map.empty k = (table |` set fields) k" for k
    using members.lookup_bulk [of "[]" "\<lambda>f. case table f of Some v \<Rightarrow> JString v | None \<Rightarrow> JNull" fields k]
    by (auto simp: to_fields_get from_fields_fold cockpit_json_get_string_def restrict_map_def split: option.splits)
  then show ?thesis
    by (auto simp: cockpit_json_to_hash_table_def cockpit_json_from_hash_table_def)
qed

end
