(* ===== verification/Frame.thy ===== *)
theory Frame
  imports Interfaces Posix
begin

text \<open>
  \<^verbatim>\<open>src/common/cockpitframe.c\<close>: the length-prefixed framing of the Cockpit protocol, and the
  blocking readers and writers over a file descriptor.  \<^verbatim>\<open>size_t\<close> is a 64-bit word.
\<close>

definition MAX_FRAME_SIZE_BYTES :: nat where
  "MAX_FRAME_SIZE_BYTES = 8"

section \<open>\<^verbatim>\<open>cockpit_frame_parse\<close>\<close>

text \<open>The digit loop: the position where it stops and the accumulated size.\<close>

fun frame_digits :: "bytes \<Rightarrow> nat \<Rightarrow> 64 word \<Rightarrow> nat \<times> 64 word" where
  "frame_digits [] i sz = (i, sz)"
| "frame_digits (c # input) i sz =
     (if i \<ge> MAX_FRAME_SIZE_BYTES \<or> c < 48 \<or> c > 57 then (i, sz)
      else frame_digits input (i + 1) (sz * 10 + (ucast c - 48)))"

text \<open>The return value and, when it is positive, \<^verbatim>\<open>*consumed\<close>.\<close>

definition cockpit_frame_parse :: "bytes \<Rightarrow> int \<times> nat option" where
  "cockpit_frame_parse input =
     (case frame_digits input 0 0 of (i, sz) \<Rightarrow>
        if i = length input then (0, None)
        else if sz = 0 \<or> input ! i \<noteq> 10 \<or> input ! 0 = 48 then (-1, None)
        else (sint sz, Some (i + 1)))"

section \<open>Writing\<close>

datatype write_result = Write_done | Write_failed errno | Write_blocked

text \<open>The bytes that reached the descriptor, the result and the outcomes left over.
  Running out of outcomes means that the loop still waits.\<close>

fun write_all_loop ::
    "bytes \<Rightarrow> bytes \<Rightarrow> write_outcome list \<Rightarrow> bytes \<times> write_result \<times> write_outcome list" where
  "write_all_loop [] sent ws = (sent, Write_done, ws)"
| "write_all_loop (d # data) sent [] = (sent, Write_blocked, [])"
| "write_all_loop (d # data) sent (Wrote n # ws) =
     write_all_loop (drop n (d # data)) (sent @ take n (d # data)) ws"
| "write_all_loop (d # data) sent (Write_error e # ws) =
     (if e \<noteq> EAGAIN \<and> e \<noteq> EINTR then (sent, Write_failed e, ws)
      else write_all_loop (d # data) sent ws)"

definition cockpit_fd_write_all ::
    "bytes \<Rightarrow> write_outcome list \<Rightarrow> bytes \<times> write_result \<times> write_outcome list" where
  "cockpit_fd_write_all data ws = write_all_loop data [] ws"

text \<open>\<^verbatim>\<open>asprintf ("%u\n", (unsigned int) length)\<close>: the length is cut to 32 bits.\<close>

definition frame_prefix :: "nat \<Rightarrow> bytes" where
  "frame_prefix len = dec_digits (unat (word_of_nat len :: 32 word)) @ [10]"

definition cockpit_frame_write ::
    "bytes \<Rightarrow> write_outcome list \<Rightarrow> bytes \<times> write_result \<times> write_outcome list" where
  "cockpit_frame_write input ws =
     (case cockpit_fd_write_all (frame_prefix (length input)) ws of
        (sent, Write_done, ws') \<Rightarrow>
          (case cockpit_fd_write_all input ws' of (sent', r, ws'') \<Rightarrow> (sent @ sent', r, ws''))
      | other \<Rightarrow> other)"

section \<open>Reading\<close>

text \<open>A descriptor is the list of outcomes it will deliver.  A \<^verbatim>\<open>read\<close> of fewer bytes than a
  chunk holds leaves the remainder for the next call.\<close>

datatype exact_result =
    Exact bytes bool "read_outcome list"
  | Exact_failed errno
  | Exact_blocked

definition exact_eof :: "bool \<Rightarrow> bytes \<Rightarrow> read_outcome list \<Rightarrow> exact_result" where
  "exact_eof may_eof buf fd = (if may_eof \<and> buf = [] then Exact [] True fd else Exact_failed EBADMSG)"

fun read_exactly :: "nat \<Rightarrow> bool \<Rightarrow> bytes \<Rightarrow> read_outcome list \<Rightarrow> exact_result" where
  "read_exactly required may_eof buf [] =
     (if length buf < required then Exact_blocked else Exact buf False [])"
| "read_exactly required may_eof buf (Read_error e # fd) =
     (if length buf < required then
        if e = EINTR then read_exactly required may_eof buf fd
        else if e \<noteq> ECONNRESET then Exact_failed e
        else exact_eof may_eof buf fd
      else Exact buf False (Read_error e # fd))"
| "read_exactly required may_eof buf (Read_eof # fd) =
     (if length buf < required then exact_eof may_eof buf fd else Exact buf False (Read_eof # fd))"
| "read_exactly required may_eof buf (Read_data d # fd) =
     (if length buf < required then
        if d = [] then exact_eof may_eof buf fd
        else if length d \<le> required - length buf
        then read_exactly required may_eof (buf @ d) fd
        else Exact (buf @ take (required - length buf) d) False
               (Read_data (drop (required - length buf) d) # fd)
      else Exact buf False (Read_data d # fd))"

datatype frame_result =
    Frame bytes "read_outcome list"
  | Frame_eof
  | Frame_error errno
  | Frame_blocked
  | Frame_assert

text \<open>From the parsed header on: copy what was read beyond the header, read the rest.  A copy
  longer than the buffer, or a wrapped \<^verbatim>\<open>size - bytes_from_header\<close>, would be \<open>Frame_assert\<close>.\<close>

definition frame_read_body :: "bytes \<Rightarrow> int \<times> nat option \<Rightarrow> read_outcome list \<Rightarrow> frame_result" where
  "frame_read_body headerbuf parsed fd =
     (case parsed of
        (sz, Some n_consumed) \<Rightarrow>
          let from_header = drop n_consumed headerbuf in
          if sz < int (length from_header) then Frame_assert
          else (case read_exactly (nat sz) False from_header fd of
                  Exact body _ fd' \<Rightarrow> Frame body fd'
                | Exact_failed e \<Rightarrow> Frame_error e
                | Exact_blocked \<Rightarrow> Frame_blocked)
      | (sz, None) \<Rightarrow> if sz = -1 then Frame_error EBADMSG else Frame_assert)"

definition cockpit_frame_read :: "read_outcome list \<Rightarrow> frame_result" where
  "cockpit_frame_read fd =
     (case read_exactly 3 True [] fd of
        Exact_failed e \<Rightarrow> Frame_error e
      | Exact_blocked \<Rightarrow> Frame_blocked
      | Exact headerbuf eof fd' \<Rightarrow>
          if eof then Frame_eof
          else if fst (cockpit_frame_parse headerbuf) = 0 then
            (case read_exactly (MAX_FRAME_SIZE_BYTES + 1) False headerbuf fd' of
               Exact_failed e \<Rightarrow> Frame_error e
             | Exact_blocked \<Rightarrow> Frame_blocked
             | Exact headerbuf' _ fd'' \<Rightarrow>
                 if fst (cockpit_frame_parse headerbuf') = 0 then Frame_assert
                 else frame_read_body headerbuf' (cockpit_frame_parse headerbuf') fd'')
          else frame_read_body headerbuf (cockpit_frame_parse headerbuf) fd')"

section \<open>The parser\<close>

text \<open>What the digit loop computes, for the whole input.\<close>

lemma frame_digits_eq:
  assumes "sz = word_of_nat v"
  shows "frame_digits input i sz =
    (let ds = takeWhile is_digit (take (8 - i) input)
     in (i + length ds, word_of_nat (foldl (\<lambda>v b. v * 10 + (unat b - 48)) v ds)))"
  using assms
proof (induction input arbitrary: i sz v)
  case (Cons c input)
  show ?case
  proof (cases "i < 8 \<and> is_digit c")
    case True
    then have k: "8 - i = Suc (8 - Suc i)" by auto
    have c: "48 \<le> unat c" using True by (auto simp: is_digit_def word_le_nat_alt)
    have "(ucast c :: 64 word) - 48 = word_of_nat (unat c - 48)"
      using c by (simp add: of_nat_diff)
    then have "sz * 10 + (ucast c - 48) = word_of_nat (v * 10 + (unat c - 48))"
      using Cons.prems by simp
    from Cons.IH [OF this, of "Suc i"] show ?thesis
      using True k by (auto simp: is_digit_def Let_def MAX_FRAME_SIZE_BYTES_def)
  next
    case False
    then show ?thesis
      using Cons.prems by (cases "8 - i") (auto simp: is_digit_def MAX_FRAME_SIZE_BYTES_def not_less not_le)
  qed
qed (simp add: Let_def)

text \<open>The parser as a specification: at most eight digits without a leading zero, then a newline.\<close>

definition frame_spec :: "bytes \<Rightarrow> int \<times> nat option" where
  "frame_spec input =
     (let ds = takeWhile is_digit (take 8 input) in
      if length ds = length input then (0, None)
      else if ds = [] \<or> hd ds = 48 \<or> input ! length ds \<noteq> 10 then (-1, None)
      else (int (dec_value ds), Some (length ds + 1)))"

lemma dec_value_pos: "ds \<noteq> [] \<Longrightarrow> \<forall>b\<in>set ds. is_digit b \<Longrightarrow> hd ds \<noteq> 48 \<Longrightarrow> 0 < dec_value ds"
proof (induction ds rule: rev_induct)
  case (snoc b ds)
  show ?case
  proof (cases "ds = []")
    case True
    then have "unat b \<noteq> unat (48::byte)" "48 \<le> unat b"
      using snoc.prems by (auto simp: is_digit_def word_le_nat_alt word_unat_eq_iff)
    then show ?thesis using True by (simp add: dec_value_def)
  next
    case False
    then show ?thesis using snoc by (simp add: dec_value_snoc)
  qed
qed simp

lemma take_digits_bound:
  assumes "\<forall>b\<in>set ds. is_digit b" "length ds \<le> 8"
  shows "dec_value ds < 100000000"
proof -
  have "dec_value ds < 10 ^ length ds" using dec_value_bound [OF assms(1)] .
  also have "(10::nat) ^ length ds \<le> 10 ^ 8" using assms(2) by (intro power_increasing) auto
  finally show ?thesis by simp
qed

lemma frame_parse_spec: "cockpit_frame_parse input = frame_spec input"
proof -
  define ds where "ds = takeWhile is_digit (take 8 input)"
  have dig: "\<forall>b\<in>set ds. is_digit b" by (auto simp: ds_def dest: set_takeWhileD)
  have len: "length ds \<le> 8" unfolding ds_def by (rule order.trans [OF length_takeWhile_le]) simp
  note v = take_digits_bound [OF dig len]
  have loop: "frame_digits input 0 0 = (length ds, word_of_nat (dec_value ds))"
    using frame_digits_eq [of 0 0 input 0] by (simp add: ds_def dec_value_def Let_def)
  have un: "unat (word_of_nat (dec_value ds) :: 64 word) = dec_value ds"
    using v by (simp add: unat_of_nat)
  have zero: "(word_of_nat (dec_value ds) :: 64 word) = 0 \<longleftrightarrow> dec_value ds = 0"
    using un by (metis unat_eq_zero)
  have sint: "sint (word_of_nat (dec_value ds) :: 64 word) = int (dec_value ds)"
    using v by (simp add: signed_of_nat signed_take_bit_int_eq_self)
  have hd0: "input ! 0 = hd ds" if ne: "ds \<noteq> []"
  proof -
    obtain c cs where "input = c # cs" using ne by (cases input) (auto simp: ds_def)
    then show ?thesis using ne by (auto simp: ds_def split: if_splits)
  qed
  have nil: "dec_value ds = 0" if "ds = []" using that by (simp add: dec_value_def)
  show ?thesis
    using loop zero sint hd0 nil dec_value_pos [OF _ dig]
    by (cases "ds = []") (auto simp: cockpit_frame_parse_def frame_spec_def ds_def [symmetric] Let_def)
qed


section \<open>Interface: framing as an incremental parser\<close>

text \<open>The header alone: the announced size, after the digits and the newline.\<close>

definition frame_header :: "bytes \<Rightarrow> nat parse" where
  "frame_header s =
     (case cockpit_frame_parse s of
        (sz, Some n) \<Rightarrow> Message (nat sz) n
      | (sz, None) \<Rightarrow> if sz = 0 then Want_more else Reject)"

lemma takeWhile_take_append:
  assumes "length (takeWhile P (take k s)) < length s"
  shows "takeWhile P (take k (s @ t)) = takeWhile P (take k s)"
proof (cases "k \<le> length s")
  case False
  then have "takeWhile P (s @ take (k - length s) t) = takeWhile P s"
    using assms by (metis order.asym nat_le_linear nat_less_le takeWhile_append1 takeWhile_eq_all_conv take_all)
  with False show ?thesis by simp
qed simp

lemma frame_spec_stable:
  assumes "fst (frame_spec s) \<noteq> 0"
  shows "frame_spec (s @ t) = frame_spec s"
proof -
  let ?ds = "takeWhile is_digit (take 8 s)"
  have le: "length ?ds \<le> length s"
    by (metis length_takeWhile_le length_take min.bounded_iff)
  then have lt: "length ?ds < length s"
    using assms by (auto simp: frame_spec_def Let_def split: if_splits)
  then have "takeWhile is_digit (take 8 (s @ t)) = ?ds" by (rule takeWhile_take_append)
  then show ?thesis
    using lt le by (simp add: frame_spec_def Let_def nth_append)
qed

lemma frame_spec_cases:
  obtains (more) "frame_spec s = (0, None)"
  | (reject) "frame_spec s = (-1, None)"
  | (size) v n where "frame_spec s = (int v, Some n)" "0 < v" "v < 100000000" "1 < n" "n \<le> length s" "n \<le> 9"
proof -
  define ds where "ds = takeWhile is_digit (take 8 s)"
  have dig: "\<forall>b\<in>set ds. is_digit b" by (auto simp: ds_def dest: set_takeWhileD)
  have len: "length ds \<le> 8" unfolding ds_def by (rule order.trans [OF length_takeWhile_le]) simp
  have le: "length ds \<le> length s"
    unfolding ds_def by (metis length_takeWhile_le length_take min.bounded_iff)
  consider "length ds = length s" | "length ds \<noteq> length s" "ds = [] \<or> hd ds = 48 \<or> s ! length ds \<noteq> 10"
    | "length ds < length s" "ds \<noteq> []" "hd ds \<noteq> 48" "s ! length ds = 10"
    using le by linarith
  then show ?thesis
  proof cases
    case 3
    then have "frame_spec s = (int (dec_value ds), Some (length ds + 1))"
      by (auto simp: frame_spec_def Let_def ds_def)
    moreover have "0 < dec_value ds" using dec_value_pos [OF 3(2) dig 3(3)] .
    ultimately show ?thesis
      using size take_digits_bound [OF dig len] 3 len by auto
  qed (use more reject in \<open>auto simp: frame_spec_def Let_def ds_def\<close>)
qed

lemma frame_parse_consumed: "cockpit_frame_parse s = (v, Some n) \<Longrightarrow> 1 < n \<and> n \<le> length s"
  by (cases rule: frame_spec_cases [of s]) (auto simp: frame_parse_spec)

interpretation header: stream_parser frame_header
proof
  fix s t :: bytes and v n
  show "0 < n \<and> n \<le> length s" if "frame_header s = Message v n"
    by (cases rule: frame_spec_cases [of s]) (use that in \<open>auto simp: frame_header_def frame_parse_spec\<close>)
  show "frame_header (s @ t) = Message v n" if "frame_header s = Message v n"
    using that frame_spec_stable [of s t]
    by (cases rule: frame_spec_cases [of s]) (auto simp: frame_header_def frame_parse_spec)
  show "frame_header (s @ t) = Reject" if "frame_header s = Reject"
    using that frame_spec_stable [of s t]
    by (cases rule: frame_spec_cases [of s]) (auto simp: frame_header_def frame_parse_spec)
qed

text \<open>A whole frame: the header and as many bytes as it announces.\<close>

definition frame_message :: "bytes \<Rightarrow> bytes parse" where
  "frame_message s =
     (case frame_header s of
        Want_more \<Rightarrow> Want_more
      | Reject \<Rightarrow> Reject
      | Message sz n \<Rightarrow> if length s < n + sz then Want_more else Message (take sz (drop n s)) (n + sz))"

interpretation frames: stream_parser frame_message
proof
  fix s t :: bytes and v n
  show "0 < n \<and> n \<le> length s" if "frame_message s = Message v n"
    using that header.message_bound [of s]
    by (auto simp: frame_message_def split: parse.splits if_splits)
  show "frame_message (s @ t) = Message v n" if "frame_message s = Message v n"
    using that header.message_extend [of s _ _ t] header.message_bound [of s]
    by (auto simp: frame_message_def split: parse.splits if_splits)
  show "frame_message (s @ t) = Reject" if "frame_message s = Reject"
    using that header.reject_extend [of s t]
    by (auto simp: frame_message_def split: parse.splits if_splits)
qed

section \<open>Writing a frame and parsing it\<close>

lemma frame_spec_encoded:
  assumes "0 < n" "n < 100000000"
  shows "frame_spec (dec_digits n @ 10 # r) = (int n, Some (length (dec_digits n) + 1))"
proof -
  have len: "length (dec_digits n) \<le> 8" using assms by (intro length_dec_digits) auto
  then have "takeWhile is_digit (take 8 (dec_digits n @ 10 # r)) = dec_digits n"
    by (cases "8 - length (dec_digits n)") (auto simp: takeWhile_append takeWhile_eq_all_conv)
  then show ?thesis
    using dec_digits_hd [OF assms(1)] by (simp add: frame_spec_def)
qed

definition frame_bytes :: "bytes \<Rightarrow> bytes" where
  "frame_bytes body = dec_digits (length body) @ 10 # body"

lemma frame_message_encoded:
  assumes "body \<noteq> []" "length body < 100000000"
  shows "frame_message (frame_bytes body @ r) = Message body (length (frame_bytes body))"
  using frame_spec_encoded [of "length body" "body @ r"] assms
  by (simp add: frame_message_def frame_header_def frame_parse_spec frame_bytes_def)

lemma write_all_done: "write_all_loop data sent ws = (out, Write_done, ws') \<Longrightarrow> out = sent @ data"
  by (induction data sent ws arbitrary: ws' rule: write_all_loop.induct) (auto split: if_splits)

lemma write_all_prefix: "write_all_loop data sent ws = (out, r, ws') \<Longrightarrow> \<exists>k. out = sent @ take k data"
proof (induction data sent ws rule: write_all_loop.induct)
  case (3 d data sent n ws)
  then obtain k where "out = (sent @ take n (d # data)) @ take k (drop n (d # data))" by auto
  then have "out = sent @ take (n + k) (d # data)" by (simp add: take_add del: take_Cons' drop_Cons')
  then show ?case by blast
next
  case (4 d data sent e ws)
  then show ?case by (auto split: if_splits intro: exI [of _ 0])
qed (auto intro: exI [of _ 0])

lemma write_all_at_once: "data \<noteq> [] \<Longrightarrow> write_all_loop data sent (Wrote (length data) # ws) = (sent @ data, Write_done, ws)"
  by (cases data) auto

lemma frame_prefix_exact: "n < 2 ^ 32 \<Longrightarrow> frame_prefix n = dec_digits n @ [10]"
  by (simp add: frame_prefix_def unat_of_nat)

lemma frame_write_done:
  assumes "cockpit_frame_write input ws = (out, Write_done, ws')" "length input < 2 ^ 32"
  shows "out = frame_bytes input"
  using assms
  by (auto simp: cockpit_frame_write_def cockpit_fd_write_all_def frame_bytes_def
      frame_prefix_exact dest!: write_all_done split: prod.splits write_result.splits)

lemma frame_write_at_once:
  assumes "input \<noteq> []" "length input < 2 ^ 32"
  shows "cockpit_frame_write input [Wrote (length (frame_prefix (length input))), Wrote (length input)] =
    (frame_bytes input, Write_done, [])"
proof -
  have "frame_prefix (length input) \<noteq> []" by (simp add: frame_prefix_def)
  note at_once = write_all_at_once [OF this, of "[]"] write_all_at_once [OF assms(1), of "[]" "[]"]
  show ?thesis
    unfolding cockpit_frame_write_def cockpit_fd_write_all_def at_once
    using assms(2) at_once(2) by (simp add: frame_prefix_exact frame_bytes_def)
qed

section \<open>Reading from a descriptor\<close>

text \<open>A descriptor on which nothing but data and interruptions arrive, and the data it carries.\<close>

fun benign :: "read_outcome list \<Rightarrow> bool" where
  "benign [] = True"
| "benign (Read_data d # fd) = (d \<noteq> [] \<and> benign fd)"
| "benign (Read_error e # fd) = (e = EINTR \<and> benign fd)"
| "benign (Read_eof # fd) = False"

fun stream_data :: "read_outcome list \<Rightarrow> bytes" where
  "stream_data (Read_data d # fd) = d @ stream_data fd"
| "stream_data (_ # fd) = stream_data fd"
| "stream_data [] = []"

lemma read_exactly_benign:
  assumes "benign fd" "length buf \<le> req" "req \<le> length buf + length (stream_data fd)"
  shows "\<exists>fd'. read_exactly req e buf fd = Exact (buf @ take (req - length buf) (stream_data fd)) False fd' \<and>
     benign fd' \<and> stream_data fd' = drop (req - length buf) (stream_data fd)"
  using assms
proof (induction req e buf fd rule: read_exactly.induct)
  case (4 req e buf d fd)
  show ?case
  proof (cases "length buf < req \<and> length d \<le> req - length buf")
    case True
    then show ?thesis using 4 by auto
  qed (use 4 in auto)
qed auto

lemma read_exactly_length:
  "read_exactly req e buf fd = Exact b eof fd' \<Longrightarrow> length buf \<le> req \<Longrightarrow>
     (if eof then e else length b = req \<and> take (length buf) b = buf)"
proof (induction req e buf fd rule: read_exactly.induct)
  case (4 req e buf d fd)
  show ?case
  proof (cases "length buf < req \<and> d \<noteq> [] \<and> length d \<le> req - length buf")
    case True
    then have "if eof then e else length b = req \<and> take (length (buf @ d)) b = buf @ d"
      using 4 by auto
    then show ?thesis using take_of_take_append [of buf d b] by (auto split: if_splits)
  qed (use 4 in \<open>auto simp: exact_eof_def split: if_splits\<close>)
qed (auto simp: exact_eof_def split: if_splits)


lemma dec_value_lower: "ds \<noteq> [] \<Longrightarrow> \<forall>b\<in>set ds. is_digit b \<Longrightarrow> hd ds \<noteq> 48 \<Longrightarrow> 10 ^ (length ds - 1) \<le> dec_value ds"
proof (induction ds rule: rev_induct)
  case (snoc b ds)
  show ?case
  proof (cases "ds = []")
    case True
    then show ?thesis using dec_value_pos [of "[b]"] snoc.prems by (simp add: Suc_le_eq)
  next
    case False
    then have "10 ^ (length ds - 1) \<le> dec_value ds" using snoc by simp
    moreover have "(10::nat) ^ length ds = 10 * 10 ^ (length ds - 1)"
      using False by (cases ds) auto
    ultimately show ?thesis by (simp add: dec_value_snoc)
  qed
qed simp

text \<open>What the source argues in a comment: after reading three bytes, or nine when the three were
  digits, the header never holds more than the frame.\<close>

lemma header_within_frame:
  assumes "frame_spec s = (v, Some n)" "length s = 3 \<or> length s = 9 \<and> fst (frame_spec (take 3 s)) = 0"
  shows "int (length s - n) \<le> v"
proof (cases rule: frame_spec_cases [of s])
  case (size v' n')
  define ds where "ds = takeWhile is_digit (take 8 s)"
  have dig: "\<forall>b\<in>set ds. is_digit b" by (auto simp: ds_def dest: set_takeWhileD)
  have ds: "ds \<noteq> []" "hd ds \<noteq> 48" "v = int (dec_value ds)" "n = length ds + 1"
    using assms(1) by (auto simp: frame_spec_def ds_def Let_def split: if_splits)
  note low = dec_value_lower [OF ds(1) dig ds(2)]
  show ?thesis
  proof (cases "length s = 3")
    case True
    then show ?thesis using size assms(1) by auto
  next
    case False
    then have s9: "length s = 9" and "fst (frame_spec (take 3 s)) = 0" using assms(2) by auto
    then have "frame_spec (take 3 s) = (0, None)"
      by (cases rule: frame_spec_cases [of "take 3 s"]) auto
    then have "length (takeWhile is_digit (take 3 s)) = length (take 3 s)"
      using s9 by (auto simp: frame_spec_def Let_def split: if_splits)
    then have all: "takeWhile is_digit (take 3 s) = take 3 s"
      by (metis append_eq_conv_conj takeWhile_dropWhile_id take_all_iff order.refl)
    have "take 8 s = take 3 s @ take 5 (drop 3 s)" using take_add [of 3 5 s] by simp
    then have "ds = take 3 s @ takeWhile is_digit (take 5 (drop 3 s))"
      unfolding ds_def using all by (simp add: takeWhile_append takeWhile_eq_all_conv)
    then have "3 \<le> length ds" using s9 by simp
    then have "(10::nat) ^ 2 \<le> 10 ^ (length ds - 1)" by (intro power_increasing) auto
    then show ?thesis using low ds s9 by simp
  qed
qed (use assms(1) in auto)

lemma frame_read_body_ok:
  assumes "length s = 3 \<or> length s = 9 \<and> fst (frame_spec (take 3 s)) = 0" "fst (frame_spec s) \<noteq> 0"
  shows "frame_read_body s (cockpit_frame_parse s) fd \<noteq> Frame_assert"
  using header_within_frame [OF _ assms(1)] assms(2)
  by (cases rule: frame_spec_cases [of s])
    (auto simp: frame_parse_spec frame_read_body_def Let_def split: exact_result.splits)

lemma nine_bytes_decide: "length s = 9 \<Longrightarrow> fst (frame_spec s) \<noteq> 0"
proof -
  assume "length s = 9"
  moreover have "length (takeWhile is_digit (take 8 s)) \<le> 8" by (rule order.trans [OF length_takeWhile_le]) simp
  ultimately show ?thesis
    by (cases rule: frame_spec_cases [of s]) (auto simp: frame_spec_def Let_def split: if_splits)
qed

text \<open>The first bytes of an encoded frame.\<close>

lemma frame_spec_take:
  assumes "0 < n" "n < 100000000" "s = dec_digits n @ 10 # r" "k = length (dec_digits n) + 1"
  shows "k \<le> j \<Longrightarrow> frame_spec (take j s) = (int n, Some k)"
    and "j < k \<Longrightarrow> j \<le> length s \<Longrightarrow> frame_spec (take j s) = (0, None)"
proof -
  assume "k \<le> j"
  then have "take j s = dec_digits n @ 10 # take (j - k) r"
    using assms(3,4) by (simp add: take_Cons' Suc_diff_Suc)
  then show "frame_spec (take j s) = (int n, Some k)"
    using frame_spec_encoded [OF assms(1,2)] assms(4) by simp
next
  assume "j < k" "j \<le> length s"
  then have j: "take j s = take j (dec_digits n)" "j \<le> length (dec_digits n)" using assms(3,4) by simp_all
  have "length (dec_digits n) \<le> 8" using assms(1,2) by (intro length_dec_digits) auto
  then have "take 8 (take j s) = take j s" using j by simp
  then have tw: "takeWhile is_digit (take 8 (take j s)) = take j s"
    using j by (auto simp: takeWhile_eq_all_conv dest: in_set_takeD)
  show "frame_spec (take j s) = (0, None)" unfolding frame_spec_def Let_def tw by simp
qed

lemma frame_read_body_encoded:
  assumes "frame_spec h = (int (length body), Some k)" "drop k h @ stream_data fd = body @ rest"
    and "length h \<le> k + length body" "benign fd"
  shows "\<exists>fd'. frame_read_body h (cockpit_frame_parse h) fd = Frame body fd' \<and> benign fd' \<and> stream_data fd' = rest"
proof -
  have "length (drop k h) \<le> length body" using assms(3) by auto
  then obtain us where us: "body = drop k h @ us" "stream_data fd = us @ rest"
    using assms(2) unfolding append_eq_append_conv_if by (metis append_take_drop_id)
  have "length (drop k h) \<le> length body" "length body \<le> length (drop k h) + length (stream_data fd)"
      "length body - length (drop k h) = length us"
    unfolding us by simp_all
  then obtain fd' where fd': "read_exactly (length body) False (drop k h) fd = Exact (drop k h @ us) False fd'"
      "benign fd'" "stream_data fd' = rest"
    using read_exactly_benign [OF assms(4), of "drop k h" "length body" False] us(2) by auto
  have "frame_read_body h (cockpit_frame_parse h) fd = Frame body fd'"
    using assms(1,3) fd'(1) unfolding us(1) [symmetric] by (auto simp: frame_read_body_def frame_parse_spec)
  then show ?thesis using fd' by blast
qed

lemma frame_read_encoded:
  assumes "0 < length body" "length body < 100000000" "benign fd" "stream_data fd = frame_bytes body @ rest"
  shows "\<exists>fd'. cockpit_frame_read fd = Frame body fd' \<and> benign fd' \<and> stream_data fd' = rest"
proof -
  define s where "s = dec_digits (length body) @ 10 # body @ rest"
  define k where "k = length (dec_digits (length body)) + 1"
  note spec = frame_spec_take [OF assms(1,2) s_def k_def]
  have k: "2 \<le> k" "k \<le> 9"
    using length_dec_digits [of "length body" 8] assms(2) by (auto simp: k_def Suc_le_eq)
  have len: "length s = k + length body + length rest" by (simp add: s_def k_def)
  have s: "stream_data fd = s" using assms(4) by (simp add: frame_bytes_def s_def)
  obtain fd1 where fd1: "read_exactly 3 True [] fd = Exact (take 3 s) False fd1" "benign fd1" "stream_data fd1 = drop 3 s"
    using read_exactly_benign [OF assms(3), of "[]" 3 True] s len k assms(1) by auto
  have body: "\<exists>fd''. frame_read_body (take j s) (cockpit_frame_parse (take j s)) fd' = Frame body fd'' \<and>
      benign fd'' \<and> stream_data fd'' = rest"
    if "k \<le> j" "j \<le> k + length body" "benign fd'" "stream_data fd' = drop j s" for j fd'
  proof (rule frame_read_body_encoded [OF spec(1) [OF that(1)]])
    have "drop k (take j s) @ drop j s = drop k s"
      using that(1) by (rule drop_take_append_drop)
    then show "drop k (take j s) @ stream_data fd' = body @ rest"
      using that(4) by (simp add: s_def k_def)
  qed (use that len in auto)
  show ?thesis
  proof (cases "k \<le> 3")
    case True
    then show ?thesis
      using body [OF True _ fd1(2,3)] k assms(1) fd1(1) spec(1) [OF True]
      by (simp add: cockpit_frame_read_def frame_parse_spec)
  next
    case False
    have n: "100 \<le> length body"
      using length_dec_digits [of "length body" 2] False by (fastforce simp: k_def)
    obtain fd2 where "read_exactly 9 False (take 3 s) fd1 = Exact (take 9 s) False fd2" "benign fd2"
        "stream_data fd2 = drop 9 s"
      using read_exactly_benign [OF fd1(2), of "take 3 s" 9 False] fd1(3) n len take_add [of 3 6 s] by auto
    then show ?thesis
      using body [OF k(2)] n fd1(1) spec(1) [OF k(2)] spec(2) [of 3] False len assms(1)
      by (simp add: cockpit_frame_read_def frame_parse_spec MAX_FRAME_SIZE_BYTES_def)
  qed
qed

section \<open>Properties\<close>

text \<open>C36: \<^verbatim>\<open>cockpit_frame_parse\<close> is the framing grammar: it asks for more exactly while all bytes seen
  are digits and fewer than nine, rejects anything that is not one to eight digits without a leading zero
  followed by a newline, and otherwise returns the decimal value; the 64-bit accumulator never wraps.\<close>

theorem cockpit_frame_parse_grammar:
  "cockpit_frame_parse input =
     (let digits = takeWhile is_digit (take 8 input) in
      if length digits = length input then (0, None)
      else if digits = [] \<or> hd digits = 48 \<or> input ! length digits \<noteq> 10 then (-1, None)
      else (int (dec_value digits), Some (length digits + 1)))"
  by (simp add: frame_parse_spec frame_spec_def)

theorem cockpit_frame_parse_grammar_witness: "cockpit_frame_parse [49, 50, 10, 104] = (12, Some 3)"
  by (subst cockpit_frame_parse_grammar) (simp add: is_digit_def dec_value_def)

text \<open>Reading a frame never fails \<^verbatim>\<open>assert (size != 0)\<close> and never copies more header bytes than
  the frame has room for, whatever the descriptor delivers.\<close>

theorem cockpit_frame_read_never_asserts: "cockpit_frame_read fd \<noteq> Frame_assert"
proof (cases "read_exactly 3 True [] fd")
  case (Exact h eof fd')
  show ?thesis
  proof (cases "\<not> eof \<and> fst (cockpit_frame_parse h) = 0")
    case True
    have h3: "length h = 3" using read_exactly_length [OF Exact] True by simp
    show ?thesis
    proof (cases "read_exactly (MAX_FRAME_SIZE_BYTES + 1) False h fd'")
      case (Exact h' eof' fd'')
      have h9: "length h' = 9" "take 3 h' = h"
        using read_exactly_length [OF Exact] h3 by (auto simp: MAX_FRAME_SIZE_BYTES_def split: if_splits)
      then show ?thesis
        using Exact \<open>read_exactly 3 True [] fd = Exact h eof fd'\<close> True
          frame_read_body_ok [of h' fd''] nine_bytes_decide [OF h9(1)]
        by (simp add: cockpit_frame_read_def frame_parse_spec)
    qed (use Exact True in \<open>simp_all add: cockpit_frame_read_def\<close>)
  next
    case False
    then show ?thesis
      using Exact read_exactly_length [OF Exact] frame_read_body_ok [of h fd']
      by (auto simp: cockpit_frame_read_def frame_parse_spec)
  qed
qed (simp_all add: cockpit_frame_read_def)

text \<open>C32: a frame written by \<^verbatim>\<open>cockpit_frame_write\<close>, however its writes were split, interrupted or
  retried, is read back by \<^verbatim>\<open>cockpit_frame_read\<close>, however its reads are split or interrupted,
  and exactly the bytes after the frame stay unread.\<close>

theorem frame_write_read:
  assumes "input \<noteq> []" "length input < 100000000"
    and "cockpit_frame_write input ws = (out, Write_done, ws')"
    and "benign fd" "stream_data fd = out @ rest"
  shows "\<exists>fd'. cockpit_frame_read fd = Frame input fd' \<and> benign fd' \<and> stream_data fd' = rest"
  using frame_write_done [OF assms(3)] assms by (intro frame_read_encoded) auto

theorem frame_write_read_witness:
  "\<exists>fd'. cockpit_frame_read [Read_data [50, 10], Read_error EINTR, Read_data [104, 105, 51]] =
      Frame [104, 105] fd' \<and> benign fd' \<and> stream_data fd' = [51]"
  by (rule frame_write_read [of "[104, 105]" "[Wrote 1, Write_error EAGAIN, Wrote 5, Wrote 1, Wrote 1]" "[50, 10, 104, 105]" "[]"])
    (simp_all add: cockpit_frame_write_def cockpit_fd_write_all_def frame_prefix_def dec_digits.simps)

text \<open>A body whose length needs more than eight digits is written without complaint, and the
  reader rejects the frame with \<^verbatim>\<open>EBADMSG\<close>.\<close>

theorem frame_write_oversized_unreadable:
  assumes "100000000 \<le> length input" "length input < 2 ^ 32"
    and "cockpit_frame_write input ws = (out, Write_done, ws')"
  shows "fst (cockpit_frame_parse out) = -1"
proof -
  define ds where "ds = dec_digits (length input)"
  have "(10::nat) ^ 8 < 10 ^ length ds"
    using dec_value_bound [of ds] assms(1) by (simp add: ds_def)
  then have long: "8 < length ds" by (rule power_less_imp_less_exp [rotated]) simp
  have out: "out = ds @ 10 # input"
    using frame_write_done [OF assms(3,2)] by (simp add: frame_bytes_def ds_def)
  have tw: "takeWhile is_digit (take 8 out) = take 8 ds"
    unfolding out using long by (auto simp: takeWhile_eq_all_conv ds_def dest: in_set_takeD)
  have "is_digit (ds ! 8)" using nth_mem [OF long] by (simp add: ds_def)
  then have "out ! 8 \<noteq> 10" using long by (auto simp: out nth_append)
  moreover have "length out \<noteq> 8" using long by (simp add: out)
  moreover have "length (take 8 ds) = 8" using long by simp
  ultimately show ?thesis
    unfolding frame_parse_spec frame_spec_def Let_def tw by simp
qed

theorem frame_write_oversized_unreadable_witness:
  "fst (cockpit_frame_parse (frame_bytes (replicate 100000000 7))) = -1"
  by (rule frame_write_oversized_unreadable [OF _ _ frame_write_at_once]) simp_all

end
