(* ===== verification/Transport.thy ===== *)
theory Transport
  imports Json Frame
begin

text \<open>
  \<^verbatim>\<open>src/common/cockpittransport.c\<close>: the channel prefix of a message, control messages and
  the freezing of channels.

  A signal emission is an event.  The handlers that other components connect are parameters that say
  whether they took the event; the class handlers of the source run after them.  A hash table key is
  the number of its allocation, because \<^verbatim>\<open>cockpit_transport_thaw\<close> compares pointers.
\<close>

section \<open>Messages\<close>

definition parse_frame :: "bytes \<Rightarrow> (bytes option \<times> bytes) option" where
  "parse_frame message =
     (case memchr message 10 of
        None \<Rightarrow> None
      | Some channel_len \<Rightarrow>
          if memchr (take channel_len message) 0 \<noteq> None then None
          else Some (if channel_len \<noteq> 0 then Some (take channel_len message) else None,
                     drop (channel_len + 1) message))"

definition cockpit_transport_parse_frame :: "bytes \<Rightarrow> (bytes option \<times> bytes) option" where
  "cockpit_transport_parse_frame message = parse_frame message"

definition cockpit_transport_parse_command ::
    "(bytes \<Rightarrow> json option option) \<Rightarrow> bytes \<Rightarrow> (bytes \<times> bytes option \<times> members) option" where
  "cockpit_transport_parse_command load payload =
     (case cockpit_json_parse_bytes load payload of
        None \<Rightarrow> None
      | Some obj \<Rightarrow>
          (case cockpit_json_get_string obj (asc ''command'') None of
             Some (Some command) \<Rightarrow>
               if command = [] then None
               else (case cockpit_json_get_string obj (asc ''channel'') None of
                       None \<Rightarrow> None
                     | Some None \<Rightarrow> Some (command, None, obj)
                     | Some (Some channel) \<Rightarrow>
                         if channel \<noteq> [] \<and> strcspn channel [10] = length channel
                         then Some (command, Some channel, obj) else None)
           | _ \<Rightarrow> None))"

fun build_json_va :: "(bytes \<times> bytes option) list \<Rightarrow> members \<Rightarrow> members" where
  "build_json_va [] obj = obj"
| "build_json_va ((name, val) # va) obj =
     build_json_va va (case val of None \<Rightarrow> obj | Some v \<Rightarrow> json_object_set_member obj name (JString v))"

definition cockpit_transport_build_json :: "(bytes \<times> bytes option) list \<Rightarrow> members" where
  "cockpit_transport_build_json va = build_json_va va []"

definition cockpit_transport_build_control :: "(64 word \<Rightarrow> bytes) \<Rightarrow> (bytes \<times> bytes option) list \<Rightarrow> bytes" where
  "cockpit_transport_build_control dtostr va = cockpit_json_write_bytes dtostr (build_json_va va [])"

section \<open>Frozen channels\<close>

record FrozenMessage =
  fm_channel :: nat
  fm_control :: "members option"
  fm_data :: bytes

record CockpitTransport =
  freeze :: "bytes \<rightharpoonup> nat"
  frozen :: "FrozenMessage list"
  next_key :: nat

datatype transport_event =
    Recv "bytes option" bytes
  | Control "bytes option" "bytes option" members bytes
  | Send "bytes option" bytes
  | Close bytes

text \<open>What the transport is connected to: the JSON parser, the printer of doubles, and the handlers.\<close>

record env =
  load :: "bytes \<Rightarrow> json option option"
  dtostr :: "64 word \<Rightarrow> bytes"
  on_recv :: "bytes option \<Rightarrow> bytes \<Rightarrow> bool"
  on_control :: "bytes option \<Rightarrow> bytes option \<Rightarrow> members \<Rightarrow> bool"

definition maybe_freeze_message ::
    "CockpitTransport \<Rightarrow> bytes option \<Rightarrow> members option \<Rightarrow> bytes \<Rightarrow> CockpitTransport option" where
  "maybe_freeze_message self channel control data =
     (case channel of
        None \<Rightarrow> None
      | Some c \<Rightarrow>
          (case freeze self c of
             None \<Rightarrow> None
           | Some key \<Rightarrow>
               Some (self\<lparr>frozen := frozen self @ [\<lparr>fm_channel = key, fm_control = control, fm_data = data\<rparr>]\<rparr>)))"

definition cockpit_transport_default_control ::
    "env \<Rightarrow> bytes option \<Rightarrow> bytes option \<Rightarrow> members \<Rightarrow> transport_event list" where
  "cockpit_transport_default_control e command channel options =
     (if channel \<noteq> None then []
      else if command = Some (asc ''ping'') then
        [Send None (cockpit_json_write_bytes (dtostr e)
           (json_object_set_member options (asc ''command'') (JString (asc ''pong''))))]
      else [])"

definition cockpit_transport_emit_control ::
    "env \<Rightarrow> CockpitTransport \<Rightarrow> bytes option \<Rightarrow> bytes option \<Rightarrow> members \<Rightarrow> bytes \<Rightarrow>
     CockpitTransport \<times> transport_event list" where
  "cockpit_transport_emit_control e self command channel options data =
     (case maybe_freeze_message self channel (Some options) data of
        Some self' \<Rightarrow> (self', [])
      | None \<Rightarrow>
          (self, Control command channel options data #
             (if on_control e command channel options then []
              else cockpit_transport_default_control e command channel options)))"

definition cockpit_transport_default_recv ::
    "env \<Rightarrow> CockpitTransport \<Rightarrow> bytes option \<Rightarrow> bytes \<Rightarrow> CockpitTransport \<times> transport_event list" where
  "cockpit_transport_default_recv e self channel payload =
     (if channel \<noteq> None then (self, [])
      else case cockpit_transport_parse_command (load e) payload of
             None \<Rightarrow> (self, [Close (asc ''protocol-error'')])
           | Some (command, inner_channel, options) \<Rightarrow>
               cockpit_transport_emit_control e self (Some command) inner_channel options payload)"

definition cockpit_transport_emit_recv ::
    "env \<Rightarrow> CockpitTransport \<Rightarrow> bytes option \<Rightarrow> bytes \<Rightarrow> CockpitTransport \<times> transport_event list" where
  "cockpit_transport_emit_recv e self channel data =
     (case maybe_freeze_message self channel None data of
        Some self' \<Rightarrow> (self', [])
      | None \<Rightarrow>
          if on_recv e channel data then (self, [Recv channel data])
          else (case cockpit_transport_default_recv e self channel data of
                  (self', evs) \<Rightarrow> (self', Recv channel data # evs)))"

text \<open>\<^verbatim>\<open>g_hash_table_add\<close> of an equal key keeps the new one.\<close>

definition cockpit_transport_freeze :: "CockpitTransport \<Rightarrow> bytes \<Rightarrow> CockpitTransport" where
  "cockpit_transport_freeze self channel =
     self\<lparr>freeze := (freeze self)(channel \<mapsto> next_key self), next_key := Suc (next_key self)\<rparr>"

text \<open>The flush loop over the queue: the messages emitted leave it.\<close>

fun thaw_loop ::
    "env \<Rightarrow> CockpitTransport \<Rightarrow> bytes \<Rightarrow> nat \<Rightarrow> FrozenMessage list \<Rightarrow> FrozenMessage list \<Rightarrow>
     CockpitTransport \<times> transport_event list" where
  "thaw_loop e self channel stolen kept [] = (self\<lparr>frozen := kept\<rparr>, [])"
| "thaw_loop e self channel stolen kept (fm # fms) =
     (if fm_channel fm = stolen then
        let (self', evs) =
              (case fm_control fm of
                 Some control \<Rightarrow>
                   cockpit_transport_emit_control e self
                     (case cockpit_json_get_string control (asc ''command'') None of Some c \<Rightarrow> c | None \<Rightarrow> None)
                     (Some channel) control (fm_data fm)
               | None \<Rightarrow> cockpit_transport_emit_recv e self (Some channel) (fm_data fm));
            (self'', evs') = thaw_loop e self' channel stolen kept fms
        in (self'', evs @ evs')
      else thaw_loop e self channel stolen (kept @ [fm]) fms)"

definition cockpit_transport_thaw ::
    "env \<Rightarrow> CockpitTransport \<Rightarrow> bytes \<Rightarrow> CockpitTransport \<times> transport_event list" where
  "cockpit_transport_thaw e self channel =
     (case freeze self channel of
        None \<Rightarrow> (self, [])
      | Some stolen \<Rightarrow>
          thaw_loop e (self\<lparr>freeze := (freeze self)(channel := None)\<rparr>) channel stolen [] (frozen self))"

section \<open>Interleavings of freezing, thawing and arrival\<close>

datatype transport_op = Freeze bytes | Thaw bytes | Arrive bytes bytes

definition transport_op_step ::
    "env \<Rightarrow> CockpitTransport \<Rightarrow> transport_op \<Rightarrow> CockpitTransport \<times> transport_event list" where
  "transport_op_step e t op =
     (case op of
        Freeze c \<Rightarrow> (cockpit_transport_freeze t c, [])
      | Thaw c \<Rightarrow> cockpit_transport_thaw e t c
      | Arrive c d \<Rightarrow> cockpit_transport_emit_recv e t (Some c) d)"

fun transport_run ::
    "env \<Rightarrow> CockpitTransport \<Rightarrow> transport_op list \<Rightarrow> CockpitTransport \<times> transport_event list" where
  "transport_run e t [] = (t, [])"
| "transport_run e t (op # ops) =
     (case transport_op_step e t op of (t', evs) \<Rightarrow>
        (case transport_run e t' ops of (t'', evs') \<Rightarrow> (t'', evs @ evs')))"

text \<open>Discipline of the callers: a channel is frozen only while it is not.\<close>

fun freezes_once :: "bytes set \<Rightarrow> transport_op list \<Rightarrow> bool" where
  "freezes_once F [] = True"
| "freezes_once F (Freeze c # ops) = (c \<notin> F \<and> freezes_once (insert c F) ops)"
| "freezes_once F (Thaw c # ops) = freezes_once (F - {c}) ops"
| "freezes_once F (Arrive c d # ops) = freezes_once F ops"

definition transport_init :: CockpitTransport where
  "transport_init = \<lparr>freeze = Map.empty, frozen = [], next_key = 0\<rparr>"

text \<open>Keys are allocated once: no channel shares its key, and none is ahead of the counter.\<close>

definition transport_ok :: "CockpitTransport \<Rightarrow> bool" where
  "transport_ok t \<longleftrightarrow>
     (\<forall>c k. freeze t c = Some k \<longrightarrow> k < next_key t) \<and>
     (\<forall>c c' k. freeze t c = Some k \<longrightarrow> freeze t c' = Some k \<longrightarrow> c = c') \<and>
     (\<forall>fm\<in>set (frozen t). fm_channel fm < next_key t)"

definition delivered :: "bytes \<Rightarrow> transport_event list \<Rightarrow> bytes list" where
  "delivered c evs = concat (map (\<lambda>ev. case ev of Recv (Some c') d \<Rightarrow> if c' = c then [d] else [] | _ \<Rightarrow> []) evs)"

definition arrivals :: "bytes \<Rightarrow> transport_op list \<Rightarrow> bytes list" where
  "arrivals c ops = concat (map (\<lambda>op. case op of Arrive c' d \<Rightarrow> if c' = c then [d] else [] | _ \<Rightarrow> []) ops)"

definition payloads :: "nat \<Rightarrow> FrozenMessage list \<Rightarrow> bytes list" where
  "payloads k fms = map fm_data (filter (\<lambda>fm. fm_channel fm = k \<and> fm_control fm = None) fms)"

definition pending :: "bytes \<Rightarrow> CockpitTransport \<Rightarrow> bytes list" where
  "pending c t = (case freeze t c of None \<Rightarrow> [] | Some k \<Rightarrow> payloads k (frozen t))"

lemma delivered_simps [simp]:
  "delivered c [] = []"
  "delivered c (evs @ evs') = delivered c evs @ delivered c evs'"
  "delivered c (Recv (Some c') d # evs) = (if c' = c then d # delivered c evs else delivered c evs)"
  "delivered c (Control x y z w # evs) = delivered c evs"
  by (simp_all add: delivered_def)

lemma arrivals_simps [simp]:
  "arrivals c [] = []"
  "arrivals c (Freeze c' # ops) = arrivals c ops"
  "arrivals c (Thaw c' # ops) = arrivals c ops"
  "arrivals c (Arrive c' d # ops) = (if c' = c then d # arrivals c ops else arrivals c ops)"
  by (simp_all add: arrivals_def)

lemma payloads_simps [simp]:
  "payloads k [] = []"
  "payloads k (fms @ fms') = payloads k fms @ payloads k fms'"
  "payloads k (fm # fms) = (if fm_channel fm = k \<and> fm_control fm = None then fm_data fm # payloads k fms else payloads k fms)"
  by (simp_all add: payloads_def)

lemma payloads_fresh: "\<forall>fm\<in>set fms. fm_channel fm < k \<Longrightarrow> payloads k fms = []"
  by (induction fms) auto

lemma payloads_filter: "payloads k (filter (\<lambda>fm. fm_channel fm \<noteq> k') fms) = (if k = k' then [] else payloads k fms)"
  by (induction fms) auto

subsection \<open>The steps\<close>

lemma emit_recv_unfrozen:
  "freeze t c = None \<Longrightarrow> cockpit_transport_emit_recv e t (Some c) d = (t, [Recv (Some c) d])"
  by (simp add: cockpit_transport_emit_recv_def maybe_freeze_message_def cockpit_transport_default_recv_def)

lemma emit_recv_frozen:
  "freeze t c = Some k \<Longrightarrow> cockpit_transport_emit_recv e t (Some c) d =
    (t\<lparr>frozen := frozen t @ [\<lparr>fm_channel = k, fm_control = None, fm_data = d\<rparr>]\<rparr>, [])"
  by (simp add: cockpit_transport_emit_recv_def maybe_freeze_message_def)

lemma emit_control_unfrozen:
  "freeze t c = None \<Longrightarrow> cockpit_transport_emit_control e t cmd (Some c) opts d =
    (t, [Control cmd (Some c) opts d])"
  by (simp add: cockpit_transport_emit_control_def maybe_freeze_message_def cockpit_transport_default_control_def)

lemma thaw_loop_result:
  "freeze t c = None \<Longrightarrow>
   \<exists>evs. thaw_loop e t c k kept fms = (t\<lparr>frozen := kept @ filter (\<lambda>fm. fm_channel fm \<noteq> k) fms\<rparr>, evs) \<and>
     (\<forall>c'. delivered c' evs = (if c' = c then payloads k fms else []))"
proof (induction fms arbitrary: kept)
  case (Cons fm fms)
  show ?case
  proof (cases "fm_channel fm = k")
    case True
    obtain evs where evs: "thaw_loop e t c k kept fms = (t\<lparr>frozen := kept @ filter (\<lambda>fm. fm_channel fm \<noteq> k) fms\<rparr>, evs)"
        "\<forall>c'. delivered c' evs = (if c' = c then payloads k fms else [])"
      using Cons by blast
    then show ?thesis
      using True Cons.prems
      by (cases "fm_control fm") (simp_all add: emit_recv_unfrozen emit_control_unfrozen)
  next
    case False
    then show ?thesis using Cons.IH [OF Cons.prems, of "kept @ [fm]"] by auto
  qed
qed simp

lemma thaw_result:
  assumes "freeze t c = Some k"
  shows "\<exists>evs. cockpit_transport_thaw e t c =
      (t\<lparr>freeze := (freeze t)(c := None), frozen := filter (\<lambda>fm. fm_channel fm \<noteq> k) (frozen t)\<rparr>, evs) \<and>
     (\<forall>c'. delivered c' evs = (if c' = c then payloads k (frozen t) else []))"
  using thaw_loop_result [of "t\<lparr>freeze := (freeze t)(c := None)\<rparr>" c e k "[]" "frozen t"] assms
  by (auto simp: cockpit_transport_thaw_def)

lemma transport_op_step_ok:
  "transport_ok t \<Longrightarrow> transport_op_step e t op = (t', evs) \<Longrightarrow> transport_ok t'"
proof (cases op)
  case (Thaw c)
  assume "transport_ok t" "transport_op_step e t op = (t', evs)"
  then show ?thesis
    using Thaw thaw_result [of t c _ e]
    by (cases "freeze t c") (auto simp: transport_op_step_def transport_ok_def cockpit_transport_thaw_def)
next
  case (Freeze c)
  assume *: "transport_ok t" "transport_op_step e t op = (t', evs)"
  have "freeze t c' \<noteq> Some (next_key t)" for c' using *(1) by (auto simp: transport_ok_def)
  then show ?thesis
    using * Freeze
    by (auto simp: transport_op_step_def transport_ok_def cockpit_transport_freeze_def less_Suc_eq split: if_splits)
next
  case (Arrive c d)
  assume "transport_ok t" "transport_op_step e t op = (t', evs)"
  then show ?thesis
    using Arrive
    by (cases "freeze t c") (auto simp: transport_op_step_def transport_ok_def emit_recv_unfrozen emit_recv_frozen)
qed

text \<open>One step keeps the account of every channel, unless it freezes a frozen channel again.\<close>

lemma transport_op_step_account:
  assumes "transport_ok t" "transport_op_step e t op = (t', evs)" "\<And>c'. op = Freeze c' \<Longrightarrow> freeze t c' = None"
  shows "pending c t @ arrivals c [op] = delivered c evs @ pending c t'"
proof (cases op)
  case (Freeze c')
  then show ?thesis
    using assms payloads_fresh [of "frozen t" "next_key t"]
    by (auto simp: transport_op_step_def cockpit_transport_freeze_def pending_def transport_ok_def
        split: option.splits if_splits)
next
  case (Thaw c')
  show ?thesis
  proof (cases "freeze t c'")
    case (Some k)
    then obtain evs' where "cockpit_transport_thaw e t c' =
      (t\<lparr>freeze := (freeze t)(c' := None), frozen := filter (\<lambda>fm. fm_channel fm \<noteq> k) (frozen t)\<rparr>, evs')"
      "\<forall>c. delivered c evs' = (if c = c' then payloads k (frozen t) else [])"
      using thaw_result by blast
    moreover have "k' \<noteq> k" if "freeze t c = Some k'" "c \<noteq> c'" for k'
      using that Some assms(1) by (auto simp: transport_ok_def)
    ultimately show ?thesis
      using Some assms(2) Thaw
      by (cases "freeze t c") (auto simp: transport_op_step_def pending_def payloads_filter)
  qed (use assms(2) Thaw in \<open>auto simp: transport_op_step_def cockpit_transport_thaw_def\<close>)
next
  case (Arrive c' d)
  show ?thesis
  proof (cases "freeze t c'")
    case None
    then show ?thesis using assms(2) Arrive by (auto simp: transport_op_step_def emit_recv_unfrozen pending_def)
  next
    case (Some k)
    moreover have "k' \<noteq> k" if "freeze t c = Some k'" "c \<noteq> c'" for k'
      using that Some assms(1) by (auto simp: transport_ok_def)
    ultimately show ?thesis
      using assms(2) Arrive
      by (cases "freeze t c") (auto simp: transport_op_step_def emit_recv_frozen pending_def)
  qed
qed

lemma transport_op_step_frozen_set:
  "transport_op_step e t op = (t', evs) \<Longrightarrow>
   dom (freeze t') = (case op of Freeze c \<Rightarrow> insert c (dom (freeze t)) | Thaw c \<Rightarrow> dom (freeze t) - {c} | Arrive c d \<Rightarrow> dom (freeze t))"
proof (cases op)
  case (Thaw c)
  assume "transport_op_step e t op = (t', evs)"
  then show ?thesis using Thaw thaw_result [of t c _ e]
    by (cases "freeze t c") (auto simp: transport_op_step_def cockpit_transport_thaw_def)
next
  case (Arrive c d)
  assume "transport_op_step e t op = (t', evs)"
  then show ?thesis using Arrive
    by (cases "freeze t c") (auto simp: transport_op_step_def emit_recv_unfrozen emit_recv_frozen)
qed (auto simp: transport_op_step_def cockpit_transport_freeze_def)

lemma transport_run_account:
  "transport_ok t \<Longrightarrow> freezes_once (dom (freeze t)) ops \<Longrightarrow> transport_run e t ops = (t', evs) \<Longrightarrow>
   pending c t @ arrivals c ops = delivered c evs @ pending c t'"
proof (induction ops arbitrary: t evs)
  case (Cons op ops)
  obtain t1 evs1 where s: "transport_op_step e t op = (t1, evs1)" by fastforce
  then obtain evs2 where r: "transport_run e t1 ops = (t', evs2)" "evs = evs1 @ evs2"
    using Cons.prems(3) by (auto split: prod.splits)
  have "\<And>c'. op = Freeze c' \<Longrightarrow> freeze t c' = None" using Cons.prems(2) by auto
  from transport_op_step_account [OF Cons.prems(1) s this]
  have "pending c t @ arrivals c [op] = delivered c evs1 @ pending c t1" .
  moreover have "pending c t1 @ arrivals c ops = delivered c evs2 @ pending c t'"
    using Cons.IH transport_op_step_ok [OF Cons.prems(1) s] transport_op_step_frozen_set [OF s] Cons.prems(2) r(1)
    by (cases op) auto
  moreover have "arrivals c (op # ops) = arrivals c [op] @ arrivals c ops" by (cases op) auto
  ultimately show ?case using r(2) by (metis append.assoc delivered_simps(2))
qed simp


section \<open>Properties of the base transport\<close>



text \<open>Freezing a channel that is already frozen strands what it holds: the second key replaces the first, and
  thawing delivers nothing of what arrived before, which no later thaw can match either.\<close>

theorem transport_double_freeze_strands:
  assumes "transport_ok t" "freeze t c = None"
  shows "\<exists>t'. transport_run e t [Freeze c, Arrive c d, Freeze c, Thaw c] = (t', []) \<and>
     freeze t' = freeze t \<and>
     frozen t' = frozen t @ [\<lparr>fm_channel = next_key t, fm_control = None, fm_data = d\<rparr>] \<and>
     (\<forall>c'. freeze t' c' \<noteq> Some (next_key t))"
proof -
  let ?fms = "frozen t @ [\<lparr>fm_channel = next_key t, fm_control = None, fm_data = d\<rparr>]"
  have keys: "\<forall>fm\<in>set ?fms. fm_channel fm \<noteq> Suc (next_key t)" "\<forall>c'. freeze t c' \<noteq> Some (next_key t)"
    using assms(1) by (auto simp: transport_ok_def)
  have loop: "thaw_loop e u c k kept fms = (u\<lparr>frozen := kept @ fms\<rparr>, [])"
    if "\<forall>fm\<in>set fms. fm_channel fm \<noteq> k" for u k kept fms
    using that by (induction fms arbitrary: kept) auto
  have "(freeze t)(c := None) = freeze t" using assms(2) by (simp add: fun_upd_idem)
  then show ?thesis
    using loop [OF keys(1)] keys(2)
    by (simp add: transport_op_step_def cockpit_transport_freeze_def emit_recv_frozen cockpit_transport_thaw_def)
qed

theorem transport_double_freeze_strands_witness:
  "\<exists>t'. transport_run \<lparr>load = \<lambda>_. None, dtostr = \<lambda>_. [], on_recv = \<lambda>_ _. True, on_control = \<lambda>_ _ _. True\<rparr>
      transport_init [Freeze [99], Arrive [99] [1], Freeze [99], Thaw [99]] = (t', []) \<and>
     freeze t' = freeze transport_init \<and>
     frozen t' = frozen transport_init @ [\<lparr>fm_channel = next_key transport_init, fm_control = None, fm_data = [1]\<rparr>] \<and>
     (\<forall>c'. freeze t' c' \<noteq> Some (next_key transport_init))"
  by (rule transport_double_freeze_strands) (simp_all add: transport_init_def transport_ok_def)

end
