(* ===== verification/PipeTransport.thy ===== *)
theory PipeTransport
  imports Transport
begin

unbundle bit_operations_syntax

text \<open>
  \<^verbatim>\<open>src/common/cockpitpipetransport.c\<close>: messages over a pipe, each a frame whose body is the
  channel id, a newline and the payload.  The pipe is seen through the calls made on it: the blocks
  given to \<^verbatim>\<open>cockpit_pipe_write\<close> and the problems given to \<^verbatim>\<open>cockpit_pipe_close\<close>.
\<close>

record CockpitPipeTransport =
  pt_name :: bytes
  pt_closed :: bool
  pt_written :: "bytes list"
  pt_close_calls :: "bytes option list"

definition pipe_write :: "'a CockpitPipeTransport_scheme \<Rightarrow> bytes \<Rightarrow> 'a CockpitPipeTransport_scheme" where
  "pipe_write self block = self\<lparr>pt_written := pt_written self @ [block]\<rparr>"

definition pipe_close :: "'a CockpitPipeTransport_scheme \<Rightarrow> bytes option \<Rightarrow> 'a CockpitPipeTransport_scheme" where
  "pipe_close self problem = self\<lparr>pt_close_calls := pt_close_calls self @ [problem]\<rparr>"

section \<open>Sending\<close>

definition cockpit_pipe_transport_send ::
    "'a CockpitPipeTransport_scheme \<Rightarrow> bytes option \<Rightarrow> bytes \<Rightarrow> 'a CockpitPipeTransport_scheme" where
  "cockpit_pipe_transport_send self channel_id payload =
     (if pt_closed self then self
      else
        let cid = (case channel_id of None \<Rightarrow> [] | Some c \<Rightarrow> c);
            prefix = dec_digits (length cid + 1 + length payload) @ [10] @ cid @ [10]
        in pipe_write (pipe_write self prefix) payload)"

definition cockpit_pipe_transport_close :: "'a CockpitPipeTransport_scheme \<Rightarrow> bytes option \<Rightarrow> 'a CockpitPipeTransport_scheme" where
  "cockpit_pipe_transport_close self problem = pipe_close self problem"

section \<open>Receiving\<close>

text \<open>The loop over the input buffer.  \<open>emit\<close> is what \<^verbatim>\<open>cockpit_transport_emit_recv\<close> does to the
  transport, handlers included; it may close it.  The result is the transport and the buffer left.\<close>

function read_from_pipe_loop ::
    "('a CockpitPipeTransport_scheme \<Rightarrow> bytes option \<Rightarrow> bytes \<Rightarrow> 'a CockpitPipeTransport_scheme) \<Rightarrow>
     'a CockpitPipeTransport_scheme \<Rightarrow> bytes \<Rightarrow> 'a CockpitPipeTransport_scheme \<times> bytes" where
  "read_from_pipe_loop emit self input =
     (if pt_closed self then (self, input)
      else
        case cockpit_frame_parse input of
          (sz, Some i) \<Rightarrow>
            if sz = 0 then (self, input)
            else if sz < 0 then (pipe_close self (Some (asc ''protocol-error'')), input)
            else if int (length input) < int i + sz then (self, input)
            else
              let message = take (nat sz) (drop i input);
                  input' = drop (i + nat sz) input;
                  self' = (case cockpit_transport_parse_frame message of
                             None \<Rightarrow> self
                           | Some (channel, payload) \<Rightarrow> emit self channel payload)
              in read_from_pipe_loop emit self' input'
        | (sz, None) \<Rightarrow>
            if sz = 0 then (self, input)
            else (pipe_close self (Some (asc ''protocol-error'')), input))"
  by pat_completeness auto
termination
  by (relation "measure (\<lambda>(_, _, input). length input)") (auto dest!: frame_parse_consumed [OF sym])

declare read_from_pipe_loop.simps [simp del]

definition cockpit_transport_read_from_pipe ::
    "('a CockpitPipeTransport_scheme \<Rightarrow> bytes option \<Rightarrow> bytes \<Rightarrow> 'a CockpitPipeTransport_scheme) \<Rightarrow>
     'a CockpitPipeTransport_scheme \<Rightarrow> bytes \<Rightarrow> bool \<Rightarrow> 'a CockpitPipeTransport_scheme \<times> bytes" where
  "cockpit_transport_read_from_pipe emit self input end_of_data =
     (case read_from_pipe_loop emit self input of (self', input') \<Rightarrow>
        (if end_of_data \<and> length input' > 0 then pipe_close self' (Some (asc ''disconnected'')) else self',
         input'))"

definition on_pipe_read ::
    "('a CockpitPipeTransport_scheme \<Rightarrow> bytes option \<Rightarrow> bytes \<Rightarrow> 'a CockpitPipeTransport_scheme) \<Rightarrow>
     'a CockpitPipeTransport_scheme \<Rightarrow> bytes \<Rightarrow> bool \<Rightarrow> 'a CockpitPipeTransport_scheme \<times> bytes" where
  "on_pipe_read emit self input end_of_data =
     (case cockpit_transport_read_from_pipe emit self input end_of_data of (self', input') \<Rightarrow>
        (if end_of_data then pipe_close self' None else self', input'))"

section \<open>The end of the process\<close>

text \<open>The macros of \<^verbatim>\<open>sys/wait.h\<close> on a wait status.\<close>

definition WTERMSIG :: "32 word \<Rightarrow> 32 word" where
  "WTERMSIG status = status AND 0x7f"

definition WIFEXITED :: "32 word \<Rightarrow> bool" where
  "WIFEXITED status \<longleftrightarrow> WTERMSIG status = 0"

definition WIFSIGNALED :: "32 word \<Rightarrow> bool" where
  "WIFSIGNALED status \<longleftrightarrow> WTERMSIG status \<noteq> 0 \<and> WTERMSIG status \<noteq> 0x7f"

definition WEXITSTATUS :: "32 word \<Rightarrow> 32 word" where
  "WEXITSTATUS status = drop_bit 8 (status AND 0xff00)"

text \<open>\<^verbatim>\<open>g_spawn_check_exit_status\<close> succeeds for a process that exited with code zero.\<close>

definition spawn_check_exit_status :: "32 word \<Rightarrow> bool" where
  "spawn_check_exit_status status \<longleftrightarrow> WIFEXITED status \<and> WEXITSTATUS status = 0"

definition has_suffix :: "bytes \<Rightarrow> bytes \<Rightarrow> bool" where
  "has_suffix s suffix \<longleftrightarrow> starts_with (rev s) (rev suffix)"

text \<open>The problem reported to the owner of the transport.  \<open>status\<close> is the exit status of the child process, or
  \<^term>\<open>None\<close> for a pipe that has none.\<close>

definition pipe_close_problem :: "bytes \<Rightarrow> 32 word option \<Rightarrow> bytes option \<Rightarrow> bytes option" where
  "pipe_close_problem name child problem =
     (case child of
        None \<Rightarrow> problem
      | Some status \<Rightarrow>
          let is_cockpit = name = asc ''cockpit-bridge'' \<or> has_suffix name (asc ''/cockpit-session'') in
          if problem = None \<or> problem = Some (asc ''internal-error'') then
            (if WIFSIGNALED status \<and> (WTERMSIG status = 15 \<or> WTERMSIG status = 1) then Some (asc ''terminated'')
             else if is_cockpit \<and> WIFEXITED status \<and> WEXITSTATUS status = 127 then Some (asc ''no-cockpit'')
             else if is_cockpit \<and> WIFEXITED status \<and> WEXITSTATUS status = 1 then Some (asc ''access-denied'')
             else if WIFEXITED status \<and> WEXITSTATUS status = 255 then Some (asc ''terminated'')
             else if \<not> spawn_check_exit_status status then Some (asc ''internal-error'')
             else problem)
          else if problem = Some (asc ''not-found'') then
            (if is_cockpit then Some (asc ''no-cockpit'') else problem)
          else problem)"

text \<open>The transport afterwards and the argument of \<^verbatim>\<open>cockpit_transport_emit_closed\<close>.\<close>

definition on_pipe_close ::
    "'a CockpitPipeTransport_scheme \<Rightarrow> 32 word option \<Rightarrow> bytes option \<Rightarrow> 'a CockpitPipeTransport_scheme \<times> bytes option" where
  "on_pipe_close self child problem =
     (self\<lparr>pt_closed := True\<rparr>, pipe_close_problem (pt_name self) child problem)"

section \<open>Messages as frames\<close>

definition valid_channel :: "bytes option \<Rightarrow> bool" where
  "valid_channel channel = (case channel of None \<Rightarrow> True | Some c \<Rightarrow> c \<noteq> [] \<and> 0 \<notin> set c \<and> 10 \<notin> set c)"

definition message_body :: "bytes option \<times> bytes \<Rightarrow> bytes" where
  "message_body m = (case fst m of None \<Rightarrow> [] | Some c \<Rightarrow> c) @ 10 # snd m"

lemma parse_message_body:
  assumes "valid_channel (fst m)"
  shows "cockpit_transport_parse_frame (message_body m) = Some m"
proof -
  define cid where "cid = (case fst m of None \<Rightarrow> [] | Some c \<Rightarrow> c)"
  have cid: "10 \<notin> set cid" "0 \<notin> set cid" "fst m = (if cid = [] then None else Some cid)"
    using assms by (auto simp: cid_def valid_channel_def split: option.splits)
  have "memchr (cid @ 10 # snd m) 10 = Some (length cid)" using cid(1) by (rule memchr_notin)
  moreover have "memchr cid 0 = None" using cid(2) by (simp add: memchr_None_iff)
  ultimately show ?thesis
    using cid(3) by (cases m)
      (simp add: cockpit_transport_parse_frame_def parse_frame_def message_body_def cid_def [symmetric])
qed

lemma send_written:
  "\<not> pt_closed t \<Longrightarrow> concat (pt_written (cockpit_pipe_transport_send t (fst m) (snd m))) =
     concat (pt_written t) @ frame_bytes (message_body m)"
  by (simp add: cockpit_pipe_transport_send_def pipe_write_def frame_bytes_def message_body_def Let_def)

lemma send_open: "pt_closed (cockpit_pipe_transport_send t c p) = pt_closed t"
  by (simp add: cockpit_pipe_transport_send_def pipe_write_def Let_def)

lemma send_all_written:
  "\<not> pt_closed t \<Longrightarrow> concat (pt_written (foldl (\<lambda>t m. cockpit_pipe_transport_send t (fst m) (snd m)) t ms)) =
     concat (pt_written t) @ concat (map (\<lambda>m. frame_bytes (message_body m)) ms)"
proof (induction ms arbitrary: t)
  case (Cons m ms)
  then show ?case using Cons.IH [of "cockpit_pipe_transport_send t (fst m) (snd m)"]
    by (simp add: send_written send_open)
qed simp

section \<open>Receiving as draining\<close>

text \<open>A transport whose owner records the messages it gets.\<close>

record recording_transport = CockpitPipeTransport +
  log :: "(bytes option \<times> bytes) list"

definition record_message :: "recording_transport \<Rightarrow> bytes option \<Rightarrow> bytes \<Rightarrow> recording_transport" where
  "record_message t channel payload = t\<lparr>log := log t @ [(channel, payload)]\<rparr>"

definition decoded :: "bytes list \<Rightarrow> (bytes option \<times> bytes) list" where
  "decoded bodies = concat (map (\<lambda>b. case cockpit_transport_parse_frame b of None \<Rightarrow> [] | Some m \<Rightarrow> [m]) bodies)"

lemma log_log [simp]: "t\<lparr>log := log t @ []\<rparr> = t"
  by simp

lemma read_loop_drain:
  assumes "\<not> pt_closed t" "drain frame_message input = (bodies, rest, False)"
  shows "read_from_pipe_loop record_message t input = (t\<lparr>log := log t @ decoded bodies\<rparr>, rest)"
  using assms
proof (induction "length input" arbitrary: input t bodies rule: less_induct)
  case less
  show ?case
  proof (cases "frame_message input")
    case Want_more
    then have "bodies = []" "rest = input" using less.prems(2) by (simp_all add: drain.simps [of _ input])
    moreover have "read_from_pipe_loop record_message t input = (t, input)"
      using less.prems(1) Want_more
      by (cases rule: frame_spec_cases [of input])
        (auto simp: read_from_pipe_loop.simps [of _ t input] frame_message_def frame_header_def frame_parse_spec split: if_splits)
    ultimately show ?thesis by (simp add: decoded_def)
  next
    case Reject
    then show ?thesis using less.prems(2) by (simp add: drain.simps [of _ input])
  next
    case (Message body n)
    then have n: "0 < n" "n \<le> length input" using frames.message_bound by auto
    obtain bodies' where d: "drain frame_message (drop n input) = (bodies', rest, False)" "bodies = body # bodies'"
      using less.prems(2) frames.drain_Message [OF Message] by (auto split: prod.splits)
    define t' where "t' = (case cockpit_transport_parse_frame body of None \<Rightarrow> t | Some (c, p) \<Rightarrow> record_message t c p)"
    have t': "\<not> pt_closed t'" "log t' = log t @ decoded [body]" "t'\<lparr>log := x\<rparr> = t\<lparr>log := x\<rparr>" for x
      using less.prems(1) by (auto simp: t'_def record_message_def decoded_def split: option.splits)
    have "read_from_pipe_loop record_message t input = read_from_pipe_loop record_message t' (drop n input)"
      using less.prems(1) Message
      by (cases rule: frame_spec_cases [of input])
        (auto simp: read_from_pipe_loop.simps [of _ t input] frame_message_def frame_header_def frame_parse_spec
          t'_def Let_def split: if_splits)
    also have "\<dots> = (t'\<lparr>log := log t' @ decoded bodies'\<rparr>, rest)"
      using less.hyps [of "drop n input" t' bodies'] n t'(1) d(1) by simp
    also have "\<dots> = (t\<lparr>log := log t @ decoded bodies\<rparr>, rest)"
      unfolding t'(3) by (simp add: t'(2) d(2) decoded_def)
    finally show ?thesis .
  qed
qed

definition receive_chunk ::
    "recording_transport \<times> bytes \<Rightarrow> bytes \<Rightarrow> recording_transport \<times> bytes" where
  "receive_chunk st chunk = on_pipe_read record_message (fst st) (snd st @ chunk) False"

lemma receive_chunk_eq: "receive_chunk (t, buf) c = read_from_pipe_loop record_message t (buf @ c)"
  by (simp add: receive_chunk_def on_pipe_read_def cockpit_transport_read_from_pipe_def)

lemma decoded_append: "decoded (xs @ ys) = decoded xs @ decoded ys"
  by (simp add: decoded_def)

lemma receive_chunks:
  "\<not> pt_closed t \<Longrightarrow> drain frame_message (concat chunks) = (bodies, rest, False) \<Longrightarrow>
   foldl receive_chunk (t, []) chunks = (t\<lparr>log := log t @ decoded bodies\<rparr>, rest)"
proof (induction chunks arbitrary: bodies rest rule: rev_induct)
  case Nil
  then show ?case
    using frame_spec_cases [of "[]"]
    by (auto simp: drain.simps [of _ "[]"] frame_message_def frame_header_def frame_parse_spec frame_spec_def decoded_def)
next
  case (snoc c chunks)
  obtain vs buf bad where d: "drain frame_message (concat chunks) = (vs, buf, bad)" by (metis prod_cases3)
  with snoc.prems(2) have "\<not> bad" and
      "\<exists>vs'. drain frame_message (buf @ c) = (vs', rest, False) \<and> bodies = vs @ vs'"
    using frames.drain_append [of "concat chunks" c] by (auto split: if_splits prod.splits)
  then obtain vs' where vs': "drain frame_message (buf @ c) = (vs', rest, False)" "bodies = vs @ vs'" by blast
  have "foldl receive_chunk (t, []) chunks = (t\<lparr>log := log t @ decoded vs\<rparr>, buf)"
    using snoc d \<open>\<not> bad\<close> by simp
  then show ?case
    using read_loop_drain [of "t\<lparr>log := log t @ decoded vs\<rparr>", OF _ vs'(1)] snoc.prems(1) vs'(2)
    by (simp add: receive_chunk_eq decoded_append)
qed

lemma messages_delivered:
  assumes "\<forall>m\<in>set ms. valid_channel (fst m) \<and> length (message_body m) < 100000000"
    and "\<not> pt_closed s" "pt_written s = []"
    and "concat chunks = concat (pt_written (foldl (\<lambda>t m. cockpit_pipe_transport_send t (fst m) (snd m)) s ms))"
    and "\<not> pt_closed r"
  shows "foldl receive_chunk (r, []) chunks = (r\<lparr>log := log r @ ms\<rparr>, [])"
proof -
  have parse: "frame_message (frame_bytes (message_body m) @ x) = Message (message_body m) (length (frame_bytes (message_body m)))"
    if "m \<in> set ms" for m x
    using assms(1) that by (intro frame_message_encoded) (auto simp: message_body_def)
  have "drain frame_message [] = ([], [], False)"
    by (simp add: drain.simps [of _ "[]"] frame_message_def frame_header_def frame_parse_spec frame_spec_def)
  then have "drain frame_message (concat chunks) = (map message_body ms, [], False)"
    using frames.drain_encoded [of ms "\<lambda>m. frame_bytes (message_body m)" message_body "[]", OF parse]
    by (simp add: assms(4) send_all_written [OF assms(2)] assms(3))
  moreover have "decoded (map message_body ms) = ms"
    using assms(1) by (induction ms) (auto simp: decoded_def parse_message_body)
  ultimately show ?thesis using receive_chunks [OF assms(5)] by simp
qed

section \<open>Properties\<close>

text \<open>End to end, whatever is sent on a pipe transport arrives: for any messages with valid channel ids
  and bodies of fewer than 100000000 bytes, and however the byte stream written by the sender is cut into
  chunks, the receiver's read handler delivers exactly those messages, in order, closes nothing and leaves no
  input behind.\<close>

theorem pipe_transport_delivers:
  assumes "\<forall>m\<in>set ms. valid_channel (fst m) \<and> length (message_body m) < 100000000"
    and "\<not> pt_closed s" "pt_written s = []"
    and "concat chunks = concat (pt_written (foldl (\<lambda>t m. cockpit_pipe_transport_send t (fst m) (snd m)) s ms))"
    and "\<not> pt_closed r"
  shows "foldl receive_chunk (r, []) chunks = (r\<lparr>log := log r @ ms\<rparr>, [])"
  using assms by (rule messages_delivered)

theorem pipe_transport_delivers_witness:
  "foldl receive_chunk (\<lparr>pt_name = [], pt_closed = False, pt_written = [], pt_close_calls = [], log = []\<rparr>, [])
      [[51], [10, 99, 10], [104, 50, 10, 10], [105]] =
    (\<lparr>pt_name = [], pt_closed = False, pt_written = [], pt_close_calls = [], log = [(Some [99], [104]), (None, [105])]\<rparr>, [])"
proof -
  let ?r = "\<lparr>pt_name = [], pt_closed = False, pt_written = [], pt_close_calls = [], log = []\<rparr> :: recording_transport"
  let ?ms = "[(Some [99], [104]), (None, [105])] :: (bytes option \<times> bytes) list"
  have "foldl receive_chunk (?r, []) [[51], [10, 99, 10], [104, 50, 10, 10], [105]] = (?r\<lparr>log := log ?r @ ?ms\<rparr>, [])"
    by (rule pipe_transport_delivers [where s = ?r])
      (simp_all add: valid_channel_def message_body_def cockpit_pipe_transport_send_def pipe_write_def
        dec_digits.simps Let_def)
  then show ?thesis by simp
qed

text \<open>A child process that did not exit cleanly never looks like a clean close: \<^verbatim>\<open>on_pipe_close\<close> reports no
  problem only when the pipe itself reported none and its process, if it has one, exited with code zero.\<close>

theorem on_pipe_close_clean:
  "snd (on_pipe_close self child problem) = None \<longleftrightarrow>
     problem = None \<and> (\<forall>status. child = Some status \<longrightarrow> WIFEXITED status \<and> WEXITSTATUS status = 0)"
  by (cases child)
    (auto simp: on_pipe_close_def pipe_close_problem_def spawn_check_exit_status_def Let_def
      WIFSIGNALED_def WIFEXITED_def)

theorem on_pipe_close_clean_witness:
  "snd (on_pipe_close \<lparr>pt_name = [], pt_closed = False, pt_written = [], pt_close_calls = []\<rparr> (Some 0) None) = None"
  by (subst on_pipe_close_clean) (simp add: WIFEXITED_def WTERMSIG_def WEXITSTATUS_def)

end
