(* ===== verification/JsonText.thy ===== *)
theory JsonText
  imports Json
begin

unbundle bit_operations_syntax

text \<open>
  What \<^verbatim>\<open>cockpit_json_write\<close> writes is JSON: a reference reader of compact JSON text (RFC 8259
  without white space, with \<^verbatim>\<open>\u\<close> escapes of ASCII characters) reads it back to the same tree.
  The reader is strict: an unescaped control character below U+0020 is an error.
\<close>

section \<open>The reference reader\<close>

definition hex_val :: "byte \<Rightarrow> nat option" where
  "hex_val c = (if is_digit c then Some (unat c - 48)
                else if 97 \<le> c \<and> c \<le> 102 then Some (unat c - 87)
                else if 65 \<le> c \<and> c \<le> 70 then Some (unat c - 55) else None)"

definition simple_escape :: "byte \<Rightarrow> byte option" where
  "simple_escape c =
     (if c = 34 \<or> c = 92 \<or> c = 47 then Some c
      else if c = 98 then Some 8
      else if c = 102 then Some 12
      else if c = 110 then Some 10
      else if c = 114 then Some 13
      else if c = 116 then Some 9
      else None)"

text \<open>A string after its opening quote: the value and what follows the closing quote.\<close>

function read_string :: "bytes \<Rightarrow> (bytes \<times> bytes) option" where
  "read_string s =
     (case s of
        [] \<Rightarrow> None
      | c # r \<Rightarrow>
          if c = 34 then Some ([], r)
          else if c < 32 then None
          else if c = 92 then
            (case r of
               [] \<Rightarrow> None
             | e # r1 \<Rightarrow>
                 if e = 117 then
                   (case r1 of
                      z0 # z1 # h # l # r2 \<Rightarrow>
                        (case (hex_val h, hex_val l) of
                           (Some a, Some b) \<Rightarrow>
                             if z0 = 48 \<and> z1 = 48 \<and> a < 8 then map_option (\<lambda>(t, q). (of_nat (16 * a + b) # t, q)) (read_string r2)
                             else None
                         | _ \<Rightarrow> None)
                    | _ \<Rightarrow> None)
                 else (case simple_escape e of
                         None \<Rightarrow> None
                       | Some x \<Rightarrow> map_option (\<lambda>(t, q). (x # t, q)) (read_string r1)))
          else map_option (\<lambda>(t, q). (c # t, q)) (read_string r))"
  by pat_completeness auto
termination
  by (relation "measure length") auto

declare read_string.simps [simp del]

definition read_int :: "bytes \<Rightarrow> (json \<times> bytes) option" where
  "read_int s =
     (let neg = (s \<noteq> [] \<and> hd s = 45);
          t = (if neg then tl s else s);
          ds = takeWhile is_digit t
      in if ds = [] \<or> (hd ds = 48 \<and> 1 < length ds) then None
         else Some (JInt (if neg then - of_nat (dec_value ds) else of_nat (dec_value ds)), drop (length ds) t))"

text \<open>Values, elements and members; the first argument bounds the depth of the recursion.\<close>

fun read_value :: "nat \<Rightarrow> bytes \<Rightarrow> (json \<times> bytes) option"
  and read_elements :: "nat \<Rightarrow> bytes \<Rightarrow> (json list \<times> bytes) option"
  and read_members :: "nat \<Rightarrow> bytes \<Rightarrow> (members \<times> bytes) option" where
  "read_value 0 s = None"
| "read_value (Suc n) s =
     (if starts_with s (asc ''null'') then Some (JNull, drop 4 s)
      else if starts_with s (asc ''true'') then Some (JBool True, drop 4 s)
      else if starts_with s (asc ''false'') then Some (JBool False, drop 5 s)
      else case s of
             [] \<Rightarrow> None
           | c # r \<Rightarrow>
               if c = 34 then map_option (\<lambda>(t, q). (JString t, q)) (read_string r)
               else if c = 91 then
                 (if r \<noteq> [] \<and> hd r = 93 then Some (JArray [], tl r)
                  else map_option (\<lambda>(vs, q). (JArray vs, q)) (read_elements n r))
               else if c = 123 then
                 (if r \<noteq> [] \<and> hd r = 125 then Some (JObject [], tl r)
                  else map_option (\<lambda>(ms, q). (JObject ms, q)) (read_members n r))
               else read_int s)"
| "read_elements 0 s = None"
| "read_elements (Suc n) s =
     (case read_value n s of
        Some (v, c # r) \<Rightarrow>
          if c = 44 then map_option (\<lambda>(vs, q). (v # vs, q)) (read_elements n r)
          else if c = 93 then Some ([v], r) else None
      | _ \<Rightarrow> None)"
| "read_members 0 s = None"
| "read_members (Suc n) s =
     (case s of
        q # r \<Rightarrow>
          (case read_string r of
             Some (k, colon # r1) \<Rightarrow>
               if q \<noteq> 34 \<or> colon \<noteq> 58 then None
               else (case read_value n r1 of
                  Some (v, c # r2) \<Rightarrow>
                    if c = 44 then map_option (\<lambda>(ms, q). ((k, v) # ms, q)) (read_members n r2)
                    else if c = 125 then Some ([(k, v)], r2) else None
                | _ \<Rightarrow> None)
           | _ \<Rightarrow> None)
      | [] \<Rightarrow> None)"

text \<open>A whole text.  Every nesting level takes at least one byte, so its length bounds the depth.\<close>

definition json_read :: "bytes \<Rightarrow> json option" where
  "json_read s = (case read_value (length s) s of Some (v, []) \<Rightarrow> Some v | _ \<Rightarrow> None)"

section \<open>Strings\<close>

definition plain_string :: "bytes \<Rightarrow> bool" where
  "plain_string s \<longleftrightarrow> 0 \<notin> set s \<and> 0x1f \<notin> set s"

text \<open>The codes written as \<^verbatim>\<open>\u00XX\<close>, by evaluation.\<close>

definition escape_codes :: bytes where
  "escape_codes = map of_nat ([1..<31] @ [127])"

lemma escape_codes_all: "(0 < p \<and> p < 0x1f) \<or> p = 0x7f \<Longrightarrow> p \<in> set escape_codes"
proof -
  assume "(0 < p \<and> p < 0x1f) \<or> p = 0x7f"
  then have "unat p \<in> set ([1..<31] @ [127])"
    by (auto simp: word_less_nat_alt unat_gt_0 [symmetric])
  then have "of_nat (unat p) \<in> set escape_codes" unfolding escape_codes_def set_map by (rule imageI)
  then show ?thesis by simp
qed

lemma hex2_vals:
  assumes "p \<in> set escape_codes"
  shows "\<exists>h l a b. hex2 p = [h, l] \<and> hex_val h = Some a \<and> hex_val l = Some b \<and> a < 8 \<and> of_nat (16 * a + b) = p"
proof -
  have "\<forall>p\<in>set escape_codes. case hex2 p of [h, l] \<Rightarrow>
      (case (hex_val h, hex_val l) of (Some a, Some b) \<Rightarrow> a < 8 \<and> of_nat (16 * a + b) = p | _ \<Rightarrow> False) | _ \<Rightarrow> False"
    by code_simp
  then show ?thesis using assms by (fastforce split: list.splits option.splits)
qed

lemma read_string_quote [simp]: "read_string (34 # r) = Some ([], r)"
  by (simp add: read_string.simps [of "34 # r"])

lemma read_string_char:
  assumes "c \<noteq> 0" "c \<noteq> 0x1f"
  shows "read_string (json_strescape_char c @ r) = map_option (\<lambda>(t, q). (c # t, q)) (read_string r)"
proof (cases "(0 < c \<and> c < 0x1f) \<or> c = 0x7f")
  case True
  then have "c \<noteq> 92" "c \<noteq> 34" by auto
  moreover obtain h l a b where "hex2 c = [h, l]" "hex_val h = Some a" "hex_val l = Some b" "a < 8" "of_nat (16 * a + b) = c"
    using hex2_vals [OF escape_codes_all [OF True]] by blast
  ultimately show ?thesis
    using True
    by (simp add: json_strescape_char_def read_string.simps [of "92 # x" for x] simple_escape_def)
next
  case False
  then have "c \<ge> 32" using assms
    by (auto simp: word_le_nat_alt word_less_nat_alt word_unat_eq_iff not_less)
  then show ?thesis
    using False
    by (auto simp: json_strescape_char_def read_string.simps [of "92 # x" for x] read_string.simps [of "c # r"]
        simple_escape_def not_less)
qed

lemma read_string_escaped:
  "plain_string s \<Longrightarrow> read_string (json_strescape s @ 34 # r) = Some (s, r)"
proof (induction s)
  case (Cons c s)
  then show ?case
    using read_string_char [of c "json_strescape s @ 34 # r"] by (simp add: json_strescape_def plain_string_def)
qed (simp add: json_strescape_def)

section \<open>Integers\<close>

definition ends_number :: "bytes \<Rightarrow> bool" where
  "ends_number r \<longleftrightarrow> r = [] \<or> \<not> is_digit (hd r)"

lemma takeWhile_digits:
  assumes "ends_number r"
  shows "takeWhile is_digit (dec_digits n @ r) = dec_digits n"
  using assms by (cases r) (auto simp: takeWhile_append takeWhile_eq_all_conv ends_number_def)

lemma dec_digits_no_zero: "hd (dec_digits n) = 48 \<Longrightarrow> dec_digits n = [48]"
  using dec_digits_hd [of n] by (cases "n = 0") (auto simp: dec_digits.simps [of 0])

lemma dec_digits_hd_digit: "is_digit (hd (dec_digits n))"
  using dec_digits_all [of "hd (dec_digits n)" n] by simp

lemma read_int_text:
  assumes "ends_number r"
  shows "read_int (int64_text i @ r) = Some (JInt i, r)"
proof -
  have *: "dec_digits n \<noteq> [] \<and> \<not> (hd (dec_digits n) = 48 \<and> 1 < length (dec_digits n))" for n
    using dec_digits_no_zero [of n] by auto
  show ?thesis
  proof (cases "sint i < 0")
    case True
    have "- of_nat (nat (- sint i)) = i"
      using True by (simp add: of_nat_nat)
    then show ?thesis using True * takeWhile_digits [OF assms]
      by (auto simp: read_int_def int64_text_def Let_def)
  next
    case False
    have "hd (dec_digits (nat (sint i)) @ r) \<noteq> 45"
      using dec_digits_hd_digit [of "nat (sint i)"] by (auto simp: is_digit_def)
    moreover have "of_nat (nat (sint i)) = i" using False by (simp add: of_nat_nat)
    ultimately show ?thesis using False * takeWhile_digits [OF assms]
      by (auto simp: read_int_def int64_text_def Let_def)
  qed
qed

lemma int64_text_head: "\<exists>c t. int64_text i = c # t \<and> (c = 45 \<or> is_digit c)"
proof (cases "sint i < 0")
  case False
  then show ?thesis using dec_digits_hd_digit [of "nat (sint i)"]
    by (cases "dec_digits (nat (sint i))") (auto simp: int64_text_def)
qed (simp add: int64_text_def)

lemma int64_text_not_Nil: "int64_text i \<noteq> []"
  using int64_text_head [of i] by auto

section \<open>Trees\<close>

text \<open>Trees the writer is exact on: no doubles (their text may read as an integer), and no NUL or U+001F
  in strings and names.\<close>

fun writable :: "json \<Rightarrow> bool" where
  "writable (JDouble d) = False"
| "writable (JString s) = plain_string s"
| "writable (JArray a) = (\<forall>v\<in>set a. writable v)"
| "writable (JObject ms) = (\<forall>(k, v)\<in>set ms. plain_string k \<and> writable v)"
| "writable v = True"

text \<open>Depth of recursion the reader needs.\<close>

fun need :: "json \<Rightarrow> nat" and need_elements :: "json list \<Rightarrow> nat" and need_members :: "members \<Rightarrow> nat" where
  "need (JArray a) = Suc (need_elements a)"
| "need (JObject ms) = Suc (need_members ms)"
| "need v = 1"
| "need_elements [] = 0"
| "need_elements (v # vs) = Suc (max (need v) (need_elements vs))"
| "need_members [] = 0"
| "need_members ((k, v) # ms) = Suc (max (need v) (need_members ms))"

lemma dump_node_name: "dump_node d name v = member_prefix name @ dump_node d None v"
  by (cases v) (simp_all add: member_prefix_def dump_value_def)

lemma dump_node_head: "writable v \<Longrightarrow> \<exists>c t. dump_node d None v = c # t \<and> c \<noteq> 93 \<and> c \<noteq> 125"
  using int64_text_head
  by (cases v) (fastforce simp: member_prefix_def dump_value_def is_digit_def)+

lemma read_value_int:
  assumes "ends_number r"
  shows "read_value (Suc n) (int64_text i @ r) = Some (JInt i, r)"
proof -
  obtain c t where c: "int64_text i = c # t" "c = 45 \<or> is_digit c" using int64_text_head by blast
  then have "c \<noteq> 110" "c \<noteq> 116" "c \<noteq> 102" "c \<noteq> 34" "c \<noteq> 91" "c \<noteq> 123" by (auto simp: is_digit_def)
  then show ?thesis using read_int_text [OF assms, of i] c by simp
qed

lemma read_value_leaf:
  assumes "writable v" "0 < n" "ends_number r" "\<And>a. v \<noteq> JArray a" "\<And>ms. v \<noteq> JObject ms"
  shows "read_value n (dump_node d None v @ r) = Some (v, r)"
proof -
  obtain m where "n = Suc m" using assms(2) by (cases n) auto
  then show ?thesis
    using assms read_value_int [OF assms(3), of m] read_string_escaped [of _ r]
    by (cases v) (auto simp: member_prefix_def dump_value_def simp del: read_value.simps,
        auto)
qed

lemma dump_elements_head: "\<forall>v\<in>set vs. writable v \<Longrightarrow> vs \<noteq> [] \<Longrightarrow> \<exists>c t. dump_elements d vs = c # t \<and> c \<noteq> 93"
  using dump_node_head [of "hd vs" d] by (cases vs) auto

lemma dump_members_head: "ms \<noteq> [] \<Longrightarrow> \<exists>t. dump_members d ms = 34 # t"
  by (cases ms) (auto simp: dump_node_name [of d "Some k" for k] member_prefix_def)

lemma read_dump:
  "writable v \<Longrightarrow> need v \<le> n \<Longrightarrow> ends_number r \<Longrightarrow> read_value n (dump_node d None v @ r) = Some (v, r)"
  "\<forall>v\<in>set vs. writable v \<Longrightarrow> need_elements vs \<le> n \<Longrightarrow> vs \<noteq> [] \<Longrightarrow>
     read_elements n (dump_elements d vs @ 93 # r) = Some (vs, r)"
  "\<forall>(k, v)\<in>set ms. plain_string k \<and> writable v \<Longrightarrow> need_members ms \<le> n \<Longrightarrow> ms \<noteq> [] \<Longrightarrow>
     read_members n (dump_members d ms @ 125 # r) = Some (ms, r)"
proof (induction v and vs and ms arbitrary: n r and n r and n r rule: need_need_elements_need_members.induct)
  case (1 a)
  then obtain m where n: "n = Suc m" by (cases n) auto
  show ?case
  proof (cases "a = []")
    case False
    then obtain c t where "dump_elements d a = c # t" "c \<noteq> 93"
      using dump_elements_head [of a d] 1 by auto
    then show ?thesis using 1 n False by (simp add: member_prefix_def)
  qed (simp add: n member_prefix_def)
next
  case (2 ms)
  then obtain m where n: "n = Suc m" by (cases n) auto
  show ?case
  proof (cases "ms = []")
    case False
    then obtain t where "dump_members d ms = 34 # t" using dump_members_head by blast
    then show ?thesis using 2 n False by (simp add: member_prefix_def)
  qed (simp add: n member_prefix_def)
next
  case (5 v vs)
  then obtain m where n: "n = Suc m" by (cases n) auto
  have sep: "ends_number (44 # x)" "ends_number (93 # x)" for x by (simp_all add: ends_number_def is_digit_def)
  have v: "read_value m (dump_node d None v @ x) = Some (v, x)" if "ends_number x" for x
    using 5 n that by auto
  show ?case
  proof (cases "vs = []")
    case True
    then show ?thesis using v [OF sep(2)] n by simp
  next
    case False
    then show ?thesis using v [OF sep(1), of "dump_elements d vs @ 93 # r"] n 5 by simp
  qed
next
  case (7 k v ms)
  then obtain m where n: "n = Suc m" by (cases n) auto
  have sep: "ends_number (44 # x)" "ends_number (125 # x)" for x by (simp_all add: ends_number_def is_digit_def)
  have k: "read_string (json_strescape k @ 34 # x) = Some (k, x)" for x
    using 7 by (intro read_string_escaped) auto
  have v: "read_value m (dump_node d None v @ x) = Some (v, x)" if "ends_number x" for x
    using 7 n that by auto
  note name = dump_node_name [of d "Some (json_strescape k)" v]
  show ?case
  proof (cases "ms = []")
    case True
    then show ?thesis using v [OF sep(2)] n k name by (simp add: member_prefix_def)
  next
    case False
    then show ?thesis using v [OF sep(1), of "dump_members d ms @ 125 # r"] n 7 k name
      by (simp add: member_prefix_def)
  qed
qed (simp_all add: read_value_leaf del: dump_node.simps)

lemma need_length:
  "writable v \<Longrightarrow> need v \<le> length (dump_node d None v)"
  "\<forall>v\<in>set vs. writable v \<Longrightarrow> need_elements vs \<le> length (dump_elements d vs) + 1"
  "\<forall>(k, v)\<in>set ms. writable v \<Longrightarrow> need_members ms \<le> length (dump_members d ms) + 1"
proof (induction v and vs and ms rule: need_need_elements_need_members.induct)
  case (2 ms)
  then have "\<forall>(k, v)\<in>set ms. writable v" by auto
  then show ?case using 2 by simp
next
  case (5 v vs)
  then show ?case by (cases "vs = []") auto
next
  case (7 k v ms)
  then show ?case using dump_node_name [of d "Some (json_strescape k)" v] by (cases "ms = []") auto
qed (simp_all add: dump_value_def Suc_le_eq int64_text_not_Nil)

section \<open>Properties\<close>



text \<open>The writer leaves the control character U+001F as it is, which no strict JSON reader accepts.\<close>

theorem cockpit_json_write_unit_separator:
  "cockpit_json_write dtostr (Some (JString [0x1f])) = Some [34, 0x1f, 34] \<and> json_read [34, 0x1f, 34] = None"
proof -
  have "read_string [0x1f, 34] = None" by (subst read_string.simps) simp
  then show ?thesis
    by (simp add: cockpit_json_write_def json_read_def dump_value_def member_prefix_def
        json_strescape_def json_strescape_char_def)
qed

end
