(* ===== verification/TlsBuffer.thy ===== *)
theory TlsBuffer
  imports Interfaces Posix
begin

unbundle bit_operations_syntax

text \<open>
  \<^verbatim>\<open>src/tls/connection.c\<close>, first part: the 16 KiB ring buffers that relay data between the
  client and cockpit-ws.  \<^verbatim>\<open>start\<close> and \<^verbatim>\<open>end\<close> are free-running 32-bit counters; their
  difference is the fill level and their low 14 bits are positions, so both wrap.

  The outcome of an operation is \<open>Done\<close> with its result, \<open>Assertion_failed\<close>, or \<open>In_syscall\<close> when
  the system calls given are all interruptions and the retry loop is still running.
\<close>

record Buffer =
  buffer :: bytes
  start_pos :: "32 word"
  end_pos :: "32 word"
  eof :: bool
  shut_rd :: bool
  shut_wr :: bool

definition BUFFER_SIZE :: "32 word" where
  "BUFFER_SIZE = 16384"

definition BUFFER_MASK :: "32 word" where
  "BUFFER_MASK = BUFFER_SIZE - 1"

definition buffer_init :: Buffer where
  "buffer_init = \<lparr>buffer = replicate 16384 0, start_pos = 0, end_pos = 0, eof = False, shut_rd = False, shut_wr = False\<rparr>"

definition buffer_full :: "Buffer \<Rightarrow> bool" where
  "buffer_full self \<longleftrightarrow> end_pos self - start_pos self = BUFFER_SIZE"

definition buffer_empty :: "Buffer \<Rightarrow> bool" where
  "buffer_empty self \<longleftrightarrow> end_pos self = start_pos self"

definition buffer_can_read :: "Buffer \<Rightarrow> bool" where
  "buffer_can_read self \<longleftrightarrow> \<not> shut_rd self \<and> \<not> buffer_full self"

definition buffer_can_write :: "Buffer \<Rightarrow> bool" where
  "buffer_can_write self \<longleftrightarrow> \<not> shut_wr self \<and> \<not> buffer_empty self"

definition buffer_needs_shut_rd :: "Buffer \<Rightarrow> bool" where
  "buffer_needs_shut_rd self \<longleftrightarrow> eof self \<and> \<not> shut_rd self"

definition buffer_needs_shut_wr :: "Buffer \<Rightarrow> bool" where
  "buffer_needs_shut_wr self \<longleftrightarrow> eof self \<and> buffer_empty self \<and> \<not> shut_wr self"

definition buffer_alive :: "Buffer \<Rightarrow> bool" where
  "buffer_alive self \<longleftrightarrow> \<not> shut_rd self \<or> \<not> shut_wr self"

definition buffer_shut_rd :: "Buffer \<Rightarrow> Buffer" where
  "buffer_shut_rd self = self\<lparr>shut_rd := True\<rparr>"

definition buffer_shut_wr :: "Buffer \<Rightarrow> Buffer" where
  "buffer_shut_wr self = self\<lparr>shut_wr := True\<rparr>"

definition buffer_eof :: "Buffer \<Rightarrow> Buffer" where
  "buffer_eof self = self\<lparr>eof := True\<rparr>"

definition buffer_epipe :: "Buffer \<Rightarrow> Buffer" where
  "buffer_epipe self = self\<lparr>start_pos := end_pos self, eof := True\<rparr>"

definition buffer_valid :: "Buffer \<Rightarrow> bool" where
  "buffer_valid self \<longleftrightarrow> end_pos self - start_pos self \<le> BUFFER_SIZE"

section \<open>Input and output vectors\<close>

text \<open>The vectors as offsets into the buffer and lengths; the loop of \<^verbatim>\<open>get_iovecs\<close>.\<close>

fun iovecs_loop :: "nat \<Rightarrow> 32 word \<Rightarrow> 32 word \<Rightarrow> (nat \<times> nat) list" where
  "iovecs_loop 0 start fin = []"
| "iovecs_loop (Suc k) start fin =
     (if start = fin then []
      else
        let start_offset = start AND BUFFER_MASK;
            len = min (BUFFER_SIZE - start_offset) (fin - start)
        in (unat start_offset, unat len) # iovecs_loop k (start + len) fin)"

definition get_iovecs :: "nat \<Rightarrow> 32 word \<Rightarrow> 32 word \<Rightarrow> (nat \<times> nat) list option" where
  "get_iovecs iov_length start fin =
     (if \<not> fin - start \<le> BUFFER_SIZE then None else Some (iovecs_loop iov_length start fin))"

text \<open>What a gathering write reads, and where a scattering read puts its data.\<close>

definition iov_gather :: "bytes \<Rightarrow> (nat \<times> nat) list \<Rightarrow> bytes" where
  "iov_gather buf iov = concat (map (\<lambda>(off, len). take len (drop off buf)) iov)"

fun iov_scatter :: "bytes \<Rightarrow> (nat \<times> nat) list \<Rightarrow> bytes \<Rightarrow> bytes" where
  "iov_scatter buf [] data = buf"
| "iov_scatter buf ((off, len) # iov) data =
     (let d = take len data
      in iov_scatter (take off buf @ d @ drop (off + length d) buf) iov (drop len data))"

definition iov_room :: "(nat \<times> nat) list \<Rightarrow> nat" where
  "iov_room iov = sum_list (map snd iov)"

section \<open>The four transfers\<close>

datatype 'a outcome = Done 'a | In_syscall | Assertion_failed

text \<open>\<^verbatim>\<open>do ... while (s == -1 && errno == EINTR)\<close>, and the same for \<^verbatim>\<open>GNUTLS_E_INTERRUPTED\<close>.\<close>

fun retry_write :: "write_outcome list \<Rightarrow> write_outcome option" where
  "retry_write [] = None"
| "retry_write (w # ws) = (if w = Write_error EINTR then retry_write ws else Some w)"

fun retry_read :: "read_outcome list \<Rightarrow> read_outcome option" where
  "retry_read [] = None"
| "retry_read (r # rs) = (if r = Read_error EINTR then retry_read rs else Some r)"

text \<open>\<^verbatim>\<open>assert (buffer_valid (self))\<close> at the end of each transfer.\<close>

definition check_valid :: "Buffer \<times> 'a \<Rightarrow> (Buffer \<times> 'a) outcome" where
  "check_valid r = (if buffer_valid (fst r) then Done r else Assertion_failed)"

text \<open>Sending: the buffer, the bytes sent, and the descriptor still to be passed along.  The descriptor goes
  with the first successful \<^verbatim>\<open>sendmsg\<close>.\<close>

definition finish_shut_wr :: "Buffer \<Rightarrow> Buffer" where
  "finish_shut_wr self = (if buffer_needs_shut_wr self then buffer_shut_wr self else self)"

definition buffer_write_to_fd ::
    "Buffer \<Rightarrow> nat option \<Rightarrow> write_outcome list \<Rightarrow> (Buffer \<times> bytes \<times> nat option) outcome" where
  "buffer_write_to_fd self fd_to_send ws =
     (case get_iovecs 2 (start_pos self) (end_pos self) of
        None \<Rightarrow> Assertion_failed
      | Some iov \<Rightarrow>
          if iov = [] then check_valid (finish_shut_wr self, [], fd_to_send)
          else case retry_write ws of
                 None \<Rightarrow> In_syscall
               | Some (Write_error e) \<Rightarrow>
                   check_valid (finish_shut_wr (if e \<noteq> EAGAIN then buffer_epipe self else self), [], fd_to_send)
               | Some (Wrote n) \<Rightarrow>
                   let s = min n (iov_room iov)
                   in check_valid
                        (finish_shut_wr (self\<lparr>start_pos := start_pos self + word_of_nat s\<rparr>),
                         take s (iov_gather (buffer self) iov), None))"

text \<open>Receiving: the buffer and the bytes received.\<close>

definition buffer_read_from_fd :: "Buffer \<Rightarrow> read_outcome list \<Rightarrow> (Buffer \<times> bytes) outcome" where
  "buffer_read_from_fd self rs =
     (if buffer_needs_shut_rd self then Done (buffer_shut_rd self, [])
      else case get_iovecs 2 (end_pos self) (start_pos self + BUFFER_SIZE) of
             None \<Rightarrow> Assertion_failed
           | Some iov \<Rightarrow>
               if \<not> 0 < length iov then Assertion_failed
               else case retry_read rs of
                      None \<Rightarrow> In_syscall
                    | Some (Read_error e) \<Rightarrow> check_valid (if e \<noteq> EAGAIN then buffer_eof self else self, [])
                    | Some Read_eof \<Rightarrow> check_valid (buffer_eof self, [])
                    | Some (Read_data data) \<Rightarrow>
                        let d = take (iov_room iov) data in
                        if d = [] then check_valid (buffer_eof self, [])
                        else check_valid
                               (self\<lparr>buffer := iov_scatter (buffer self) iov d,
                                     end_pos := end_pos self + word_of_nat (length d)\<rparr>, d))"

definition buffer_write_to_tls :: "Buffer \<Rightarrow> write_outcome list \<Rightarrow> (Buffer \<times> bytes) outcome" where
  "buffer_write_to_tls self ws =
     (case get_iovecs 1 (start_pos self) (end_pos self) of
        None \<Rightarrow> Assertion_failed
      | Some iov \<Rightarrow>
          if iov = [] then check_valid (finish_shut_wr self, [])
          else case retry_write ws of
                 None \<Rightarrow> In_syscall
               | Some (Write_error e) \<Rightarrow>
                   check_valid (finish_shut_wr (if e \<noteq> EAGAIN then buffer_epipe self else self), [])
               | Some (Wrote n) \<Rightarrow>
                   let s = min n (iov_room iov)
                   in check_valid
                        (finish_shut_wr (self\<lparr>start_pos := start_pos self + word_of_nat s\<rparr>),
                         take s (iov_gather (buffer self) iov)))"

definition buffer_read_from_tls :: "Buffer \<Rightarrow> read_outcome list \<Rightarrow> (Buffer \<times> bytes) outcome" where
  "buffer_read_from_tls self rs =
     (if buffer_needs_shut_rd self then Done (buffer_shut_rd self, [])
      else case get_iovecs 1 (end_pos self) (start_pos self + BUFFER_SIZE) of
             None \<Rightarrow> Assertion_failed
           | Some iov \<Rightarrow>
               if length iov \<noteq> 1 then Assertion_failed
               else case retry_read rs of
                      None \<Rightarrow> In_syscall
                    | Some (Read_error e) \<Rightarrow> check_valid (if e \<noteq> EAGAIN then buffer_epipe self else self, [])
                    | Some Read_eof \<Rightarrow> check_valid (buffer_epipe self, [])
                    | Some (Read_data data) \<Rightarrow>
                        let d = take (iov_room iov) data in
                        if d = [] then check_valid (buffer_epipe self, [])
                        else check_valid
                               (self\<lparr>buffer := iov_scatter (buffer self) iov d,
                                     end_pos := end_pos self + word_of_nat (length d)\<rparr>, d))"

section \<open>Ring arithmetic\<close>

text \<open>Positions and fill level as numbers.\<close>

definition ring :: "bytes \<Rightarrow> nat \<Rightarrow> nat \<Rightarrow> bytes" where
  "ring buf off n = take n (drop off (buf @ buf))"

lemma length_ring: "length buf = S \<Longrightarrow> off < S \<Longrightarrow> n \<le> S \<Longrightarrow> length (ring buf off n) = n"
  by (simp add: ring_def)

lemma nth_ring:
  assumes "length buf = S" "off < S" "n \<le> S" "i < n"
  shows "ring buf off n ! i = buf ! ((off + i) mod S)"
proof (cases "off + i < S")
  case True
  then have "i < S - off" by simp
  then show ?thesis using True assms by (simp add: ring_def nth_append)
next
  case False
  then have "(off + i) mod S = off + i - S" using assms by (simp add: mod_if)
  moreover have "\<not> i < S - off" using False by simp
  ultimately show ?thesis using assms by (simp add: ring_def nth_append add.commute)
qed

lemma ring_drop:
  assumes "length buf = S" "off < S" "k \<le> n" "n \<le> S"
  shows "drop k (ring buf off n) = ring buf ((off + k) mod S) (n - k)"
proof (cases "S = 0")
  case False
  have m: "(off + k) mod S < S" using False by simp
  have "((off + k) mod S + i) mod S = (off + (k + i)) mod S" for i by (simp add: mod_add_left_eq add.assoc)
  then show ?thesis
    using assms m by (intro nth_equalityI) (simp_all add: length_ring nth_ring)
qed (use assms in simp)

lemma unat_less_32: "unat (x::32 word) < 4294967296"
  using unsigned_less [of x] by simp

lemma unat_mask: "unat (x AND BUFFER_MASK) = unat x mod 16384"
proof -
  have "BUFFER_MASK = mask 14" by (simp add: BUFFER_MASK_def BUFFER_SIZE_def mask_eq_exp_minus_1)
  then have "x AND BUFFER_MASK = take_bit 14 x" by (simp add: take_bit_eq_mask)
  then show ?thesis by (simp add: take_bit_eq_mod unat_mod)
qed

lemma unat_plus_mod: "unat (x + word_of_nat k :: 32 word) mod 16384 = (unat x + k) mod 16384"
proof -
  have "unat (x + word_of_nat k :: 32 word) = (unat x + k) mod 4294967296"
    by (simp add: unat_word_ariths unat_of_nat mod_add_right_eq)
  also have "\<dots> mod 16384 = (unat x + k) mod 16384" by (rule mod_mod_cancel) simp
  finally show ?thesis .
qed

lemma iovecs_step:
  assumes "unat (fin - start) = n" "n \<le> 16384" "off = unat start mod 16384"
  shows "iovecs_loop (Suc k) start fin =
    (if n = 0 then [] else
       let len = min (16384 - off) n
       in (off, len) # iovecs_loop k (start + word_of_nat len) fin)"
proof (cases "n = 0")
  case True
  then have "start = fin" using assms(1) by (simp add: unat_eq_zero)
  then show ?thesis using True by simp
next
  case False
  then have ne: "start \<noteq> fin" using assms(1) by auto
  let ?off = "start AND BUFFER_MASK"
  let ?len = "min (BUFFER_SIZE - ?off) (fin - start)"
  have off: "unat ?off = off" using assms(3) by (simp add: unat_mask)
  have "off < 16384" using assms(3) by simp
  then have "unat (BUFFER_SIZE - ?off) = 16384 - off"
    by (subst unat_sub) (simp_all add: BUFFER_SIZE_def word_le_nat_alt off)
  then have "unat ?len = min (16384 - off) n"
    using assms(1) by (simp add: min_def word_le_nat_alt)
  moreover have "word_of_nat (unat ?len) = ?len" by simp
  ultimately show ?thesis using ne False off by (simp add: Let_def)
qed

lemma unat_minus_step:
  assumes "unat (fin - start) = n" "k \<le> n"
  shows "unat (fin - (start + word_of_nat k) :: 32 word) = n - k"
proof -
  have k: "unat (word_of_nat k :: 32 word) = k"
    using assms(2) unat_less_32 [of "fin - start"] unfolding assms(1) by (simp add: unat_of_nat)
  have "fin - (start + word_of_nat k) = (fin - start) - word_of_nat k" by simp
  moreover have "unat ((fin - start) - word_of_nat k) = n - k"
    using assms k by (subst unat_sub) (simp_all add: word_le_nat_alt)
  ultimately show ?thesis by metis
qed

text \<open>The vectors cover the range in order, in at most two pieces.\<close>

lemma iovecs_two:
  assumes "unat (fin - start) = n" "n \<le> 16384" "off = unat start mod 16384"
  shows "iovecs_loop 2 start fin =
    (if n = 0 then [] else if off + n \<le> 16384 then [(off, n)] else [(off, 16384 - off), (0, n - (16384 - off))])"
proof -
  have two: "2 = Suc (Suc 0)" by simp
  have off: "off < 16384" using assms(3) by simp
  define len where "len = min (16384 - off) n"
  have le: "len \<le> n" by (simp add: len_def)
  have off': "unat (start + word_of_nat len) mod 16384 = (off + len) mod 16384"
    unfolding unat_plus_mod assms(3) by (simp add: mod_add_left_eq)
  have rest: "iovecs_loop (Suc 0) (start + word_of_nat len) fin =
      (if n - len = 0 then [] else [((off + len) mod 16384, min (16384 - (off + len) mod 16384) (n - len))])"
    using iovecs_step [OF unat_minus_step [OF assms(1) le] _ off' [symmetric], of 0] assms(2)
    by (simp add: Let_def)
  show ?thesis
  proof (cases "off + n \<le> 16384")
    case True
    then have "len = n" by (simp add: len_def)
    then show ?thesis
      unfolding two iovecs_step [OF assms] using True rest by (simp add: len_def [symmetric] Let_def del: iovecs_loop.simps(2))
  next
    case False
    then have "len = 16384 - off" "n \<noteq> 0" using off by (simp_all add: len_def)
    then show ?thesis
      unfolding two iovecs_step [OF assms] using False rest off assms(2)
      by (simp add: len_def [symmetric] Let_def del: iovecs_loop.simps(2) of_nat_diff)
  qed
qed

lemma iovecs_one:
  assumes "unat (fin - start) = n" "n \<le> 16384" "off = unat start mod 16384"
  shows "iovecs_loop 1 start fin = (if n = 0 then [] else [(off, min (16384 - off) n)])"
  using iovecs_step [OF assms, of 0] by (simp add: Let_def)

section \<open>Contents\<close>

definition fill :: "Buffer \<Rightarrow> nat" where
  "fill b = unat (end_pos b - start_pos b)"

definition contents :: "Buffer \<Rightarrow> bytes" where
  "contents b = ring (buffer b) (unat (start_pos b) mod 16384) (fill b)"

definition buffer_ok :: "Buffer \<Rightarrow> bool" where
  "buffer_ok b \<longleftrightarrow> length (buffer b) = 16384 \<and> fill b \<le> 16384"

lemma buffer_valid_fill: "buffer_valid b \<longleftrightarrow> fill b \<le> 16384"
  by (simp add: buffer_valid_def fill_def word_le_nat_alt BUFFER_SIZE_def)

lemma length_contents [simp]: "buffer_ok b \<Longrightarrow> length (contents b) = fill b"
  by (simp add: contents_def buffer_ok_def length_ring)

lemma buffer_empty_fill: "buffer_empty b \<longleftrightarrow> fill b = 0"
  by (auto simp: buffer_empty_def fill_def unat_eq_zero)

lemma buffer_full_fill: "buffer_full b \<longleftrightarrow> fill b = 16384"
  by (auto simp: buffer_full_def fill_def BUFFER_SIZE_def word_unat_eq_iff)

text \<open>The buffer after storing \<open>d\<close> from position \<open>p\<close> on, around the end if need be.\<close>

definition stored :: "nat \<Rightarrow> bytes \<Rightarrow> nat \<Rightarrow> bytes \<Rightarrow> bytes" where
  "stored S buf p d =
     (if p + length d \<le> S then take p buf @ d @ drop (p + length d) buf
      else drop (S - p) d @ drop (p + length d - S) (take p buf) @ take (S - p) d)"

lemma length_stored: "length buf = S \<Longrightarrow> p < S \<Longrightarrow> length d \<le> S \<Longrightarrow> length (stored S buf p d) = S"
  by (auto simp: stored_def)

definition ring_dist :: "nat \<Rightarrow> nat \<Rightarrow> nat \<Rightarrow> nat" where
  "ring_dist S p j = (if p \<le> j then j - p else j + S - p)"

lemma nth_stored:
  assumes "length buf = S" "p < S" "length d \<le> S" "j < S"
  shows "stored S buf p d ! j = (if ring_dist S p j < length d then d ! ring_dist S p j else buf ! j)"
proof (cases "p + length d \<le> S")
  case True
  then show ?thesis
    using assms by (auto simp: stored_def ring_dist_def nth_append min_def)
next
  case False
  then show ?thesis
    using assms by (auto simp: stored_def ring_dist_def nth_append min_def add.commute)
qed

lemma ring_dist_pos:
  assumes "off < S" "n \<le> S" "i < S"
  shows "ring_dist S ((off + n) mod S) ((off + i) mod S) = (if i < n then S + i - n else i - n)"
proof -
  have wrap: "(off + x) mod S = (if off + x < S then off + x else off + x - S)" if "x \<le> S" for x
    using that assms(1) by (simp add: mod_if)
  show ?thesis
    unfolding wrap [OF assms(2)] wrap [OF less_imp_le [OF assms(3)]] ring_dist_def
    using assms by auto
qed

lemma ring_stored:
  assumes "length buf = S" "off < S" "n \<le> S" "length d \<le> S - n"
  shows "ring (stored S buf ((off + n) mod S) d) off (n + length d) = ring buf off n @ d"
proof (rule nth_equalityI)
  have p: "(off + n) mod S < S" using assms(2) by simp
  have len: "length (stored S buf ((off + n) mod S) d) = S"
    using assms p by (intro length_stored) auto
  show "length (ring (stored S buf ((off + n) mod S) d) off (n + length d)) = length (ring buf off n @ d)"
    using assms len by (simp add: length_ring)
  fix i assume "i < length (ring (stored S buf ((off + n) mod S) d) off (n + length d))"
  then have i: "i < n + length d" "i < S" using assms len by (auto simp: length_ring)
  have "ring (stored S buf ((off + n) mod S) d) off (n + length d) ! i = stored S buf ((off + n) mod S) d ! ((off + i) mod S)"
    using assms len i by (intro nth_ring) auto
  also have "\<dots> = (ring buf off n @ d) ! i"
    using assms i p ring_dist_pos [OF assms(2,3) i(2)]
    by (auto simp: nth_stored nth_append length_ring nth_ring)
  finally show "ring (stored S buf ((off + n) mod S) d) off (n + length d) ! i = (ring buf off n @ d) ! i" .
qed

lemma scatter_stored:
  assumes "length buf = S" "p < S"
  shows "length d \<le> len \<Longrightarrow> p + len \<le> S \<Longrightarrow> iov_scatter buf [(p, len)] d = stored S buf p d"
    and "length d \<le> S - p + r \<Longrightarrow> r \<le> p \<Longrightarrow> iov_scatter buf [(p, S - p), (0, r)] d = stored S buf p d"
proof -
  show "iov_scatter buf [(p, len)] d = stored S buf p d" if "length d \<le> len" "p + len \<le> S"
    using that by (simp add: stored_def)
  show "iov_scatter buf [(p, S - p), (0, r)] d = stored S buf p d" if "length d \<le> S - p + r" "r \<le> p"
  proof (cases "p + length d \<le> S")
    case True
    then show ?thesis by (simp add: stored_def)
  next
    case False
    then have "p + (S - p) = S" "length (take (S - p) d) = S - p" using assms by auto
    moreover have "length d - (S - p) \<le> p" using that False by simp
    moreover have "length d - (S - p) = p + length d - S" using assms by simp
    ultimately show ?thesis
      using False assms that by (simp add: stored_def)
  qed
qed

lemma gather_contents:
  assumes "buffer_ok b"
  shows "iov_gather (buffer b) (iovecs_loop 2 (start_pos b) (end_pos b)) = contents b"
    and "iov_room (iovecs_loop 2 (start_pos b) (end_pos b)) = fill b"
    and "iov_gather (buffer b) (iovecs_loop 1 (start_pos b) (end_pos b)) =
           take (iov_room (iovecs_loop 1 (start_pos b) (end_pos b))) (contents b)"
    and "iov_room (iovecs_loop 1 (start_pos b) (end_pos b)) \<le> fill b"
proof -
  define off where "off = unat (start_pos b) mod 16384"
  have off: "off < 16384" by (simp add: off_def)
  have b: "length (buffer b) = 16384" "fill b \<le> 16384" using assms by (auto simp: buffer_ok_def)
  note two = iovecs_two [OF fill_def [symmetric] b(2) off_def]
  note one = iovecs_one [OF fill_def [symmetric] b(2) off_def]
  show "iov_gather (buffer b) (iovecs_loop 2 (start_pos b) (end_pos b)) = contents b"
    unfolding two contents_def off_def [symmetric] using b off by (auto simp: iov_gather_def ring_def)
  show "iov_room (iovecs_loop 2 (start_pos b) (end_pos b)) = fill b"
    unfolding two using off by (auto simp: iov_room_def)
  show "iov_gather (buffer b) (iovecs_loop 1 (start_pos b) (end_pos b)) =
           take (iov_room (iovecs_loop 1 (start_pos b) (end_pos b))) (contents b)"
    unfolding one contents_def off_def [symmetric] using b off by (auto simp: iov_gather_def ring_def iov_room_def min_def)
  show "iov_room (iovecs_loop 1 (start_pos b) (end_pos b)) \<le> fill b"
    unfolding one by (simp add: iov_room_def)
qed

lemma pop_contents:
  assumes "buffer_ok b" "s \<le> fill b"
  shows "buffer_ok (b\<lparr>start_pos := start_pos b + word_of_nat s\<rparr>)"
    "contents (b\<lparr>start_pos := start_pos b + word_of_nat s\<rparr>) = drop s (contents b)"
proof -
  have fill: "fill (b\<lparr>start_pos := start_pos b + word_of_nat s\<rparr>) = fill b - s"
    using unat_minus_step [OF fill_def [symmetric] assms(2)] by (simp add: fill_def)
  then show "buffer_ok (b\<lparr>start_pos := start_pos b + word_of_nat s\<rparr>)"
    using assms(1) by (auto simp: buffer_ok_def)
  show "contents (b\<lparr>start_pos := start_pos b + word_of_nat s\<rparr>) = drop s (contents b)"
    using assms fill unat_plus_mod [of "start_pos b" s]
    by (simp add: contents_def buffer_ok_def ring_drop mod_add_left_eq)
qed

lemma room_after:
  assumes "buffer_ok b"
  shows "unat (start_pos b + BUFFER_SIZE - end_pos b) = 16384 - fill b"
    and "unat (end_pos b) mod 16384 = (unat (start_pos b) mod 16384 + fill b) mod 16384"
proof -
  have "start_pos b + BUFFER_SIZE - end_pos b = BUFFER_SIZE - (end_pos b - start_pos b)" by simp
  moreover have "unat (BUFFER_SIZE - (end_pos b - start_pos b)) = 16384 - fill b"
    using assms by (subst unat_sub) (simp_all add: buffer_ok_def fill_def BUFFER_SIZE_def word_le_nat_alt)
  ultimately show "unat (start_pos b + BUFFER_SIZE - end_pos b) = 16384 - fill b" by metis
  have "end_pos b = start_pos b + word_of_nat (fill b)" by (simp add: fill_def)
  then show "unat (end_pos b) mod 16384 = (unat (start_pos b) mod 16384 + fill b) mod 16384"
    using unat_plus_mod [of "start_pos b" "fill b"] by (simp add: mod_add_left_eq)
qed

lemma scatter_buffer:
  assumes "buffer_ok b" "iov = iovecs_loop k (end_pos b) (start_pos b + BUFFER_SIZE)" "k = 1 \<or> k = 2"
    and "length d \<le> iov_room iov"
  shows "length d \<le> 16384 - fill b"
    and "iov_scatter (buffer b) iov d = stored 16384 (buffer b) ((unat (start_pos b) mod 16384 + fill b) mod 16384) d"
proof -
  define p where "p = unat (end_pos b) mod 16384"
  define r where "r = 16384 - fill b"
  have b: "length (buffer b) = 16384" "fill b \<le> 16384" "p < 16384" "r \<le> 16384"
    using assms(1) by (auto simp: buffer_ok_def p_def r_def)
  note two = iovecs_two [OF room_after(1) [OF assms(1), folded r_def] b(4) p_def]
  note one = iovecs_one [OF room_after(1) [OF assms(1), folded r_def] b(4) p_def]
  show len: "length d \<le> 16384 - fill b"
    using assms(3)
  proof
    assume k: "k = 1"
    show ?thesis using assms(4) unfolding assms(2) k one r_def by (auto simp: iov_room_def split: if_splits)
  next
    assume k: "k = 2"
    show ?thesis using assms(4) b unfolding assms(2) k two r_def by (auto simp: iov_room_def split: if_splits)
  qed
  have nil: "stored 16384 (buffer b) p [] = buffer b" using b by (simp add: stored_def)
  have "iov_scatter (buffer b) iov d = stored 16384 (buffer b) p d"
    using assms(3)
  proof
    assume k: "k = 1"
    then show ?thesis
      using assms(4) scatter_stored(1) [OF b(1,3), of d "min (16384 - p) r"] b nil
      unfolding assms(2) k one by (auto simp: iov_room_def split: if_splits)
  next
    assume k: "k = 2"
    then show ?thesis
      using assms(4) scatter_stored(1) [OF b(1,3), of d r] scatter_stored(2) [OF b(1,3), of d "r - (16384 - p)"] b nil
      unfolding assms(2) k two by (auto simp: iov_room_def simp del: iov_scatter.simps(2) split: if_splits)
  qed
  then show "iov_scatter (buffer b) iov d = stored 16384 (buffer b) ((unat (start_pos b) mod 16384 + fill b) mod 16384) d"
    using room_after(2) [OF assms(1)] by (simp add: p_def)
qed

lemma push_contents:
  assumes "buffer_ok b" "iov = iovecs_loop k (end_pos b) (start_pos b + BUFFER_SIZE)" "k = 1 \<or> k = 2"
    and "length d \<le> iov_room iov"
  shows "buffer_ok (b\<lparr>buffer := iov_scatter (buffer b) iov d, end_pos := end_pos b + word_of_nat (length d)\<rparr>)"
    "contents (b\<lparr>buffer := iov_scatter (buffer b) iov d, end_pos := end_pos b + word_of_nat (length d)\<rparr>) = contents b @ d"
proof -
  note sc = scatter_buffer [OF assms]
  let ?b = "b\<lparr>buffer := iov_scatter (buffer b) iov d, end_pos := end_pos b + word_of_nat (length d)\<rparr>"
  have "fill ?b = unat ((end_pos b - start_pos b) + word_of_nat (length d))"
    by (simp add: fill_def algebra_simps)
  moreover have "unat ((end_pos b - start_pos b) + word_of_nat (length d)) = fill b + length d"
  proof -
    have "fill b + length d \<le> 16384" using sc(1) assms(1) by (auto simp: buffer_ok_def)
    then have "(fill b + length d) mod 4294967296 = fill b + length d" by (intro mod_less) simp
    then show ?thesis by (simp add: unat_word_ariths unat_of_nat fill_def mod_add_right_eq)
  qed
  ultimately have fill: "fill ?b = fill b + length d" by (rule trans)
  have p: "(unat (start_pos b) mod 16384 + fill b) mod 16384 < 16384" by simp
  show "buffer_ok ?b"
    using fill sc assms(1) length_stored [OF _ p, of "buffer b" d] by (auto simp: buffer_ok_def)
  show "contents ?b = contents b @ d"
    using fill sc assms(1) ring_stored [of "buffer b" 16384 "unat (start_pos b) mod 16384" "fill b" d]
    by (simp add: contents_def buffer_ok_def)
qed
section \<open>The buffer as a byte queue\<close>

definition buffer_store :: "nat \<Rightarrow> Buffer \<Rightarrow> bytes \<Rightarrow> Buffer" where
  "buffer_store k b d =
     b\<lparr>buffer := iov_scatter (buffer b) (iovecs_loop k (end_pos b) (start_pos b + BUFFER_SIZE)) d,
       end_pos := end_pos b + word_of_nat (length d)\<rparr>"

definition buffer_room :: "nat \<Rightarrow> Buffer \<Rightarrow> nat" where
  "buffer_room k b = iov_room (iovecs_loop k (end_pos b) (start_pos b + BUFFER_SIZE))"

definition buffer_take :: "Buffer \<Rightarrow> nat \<Rightarrow> Buffer" where
  "buffer_take b n = b\<lparr>start_pos := start_pos b + word_of_nat n\<rparr>"

lemma store_contents:
  assumes "buffer_ok b" "k = 1 \<or> k = 2" "length d \<le> buffer_room k b"
  shows "buffer_ok (buffer_store k b d)" "contents (buffer_store k b d) = contents b @ d"
  using push_contents [OF assms(1) refl assms(2), of d] assms(3)
  by (simp_all only: buffer_store_def buffer_room_def)

lemma take_contents:
  assumes "buffer_ok b" "n \<le> length (contents b)"
  shows "buffer_ok (buffer_take b n)" "contents (buffer_take b n) = drop n (contents b)"
  using pop_contents [OF assms(1), of n] assms by (simp_all add: buffer_take_def)

interpretation ring2: byte_fifo contents buffer_ok "buffer_room 2" "buffer_store 2" buffer_take
  by unfold_locales (rule store_contents take_contents; simp)+

interpretation ring1: byte_fifo contents buffer_ok "buffer_room 1" "buffer_store 1" buffer_take
  by unfold_locales (rule store_contents take_contents; simp)+

lemma buffer_room_2: "buffer_ok b \<Longrightarrow> buffer_room 2 b = 16384 - fill b"
  using iovecs_two [OF room_after(1) _ refl, of b] by (auto simp: buffer_room_def iov_room_def)

lemma buffer_room_pos: "buffer_ok b \<Longrightarrow> \<not> buffer_full b \<Longrightarrow> k = 1 \<or> k = 2 \<Longrightarrow>
   \<exists>p q iov. iovecs_loop k (end_pos b) (start_pos b + BUFFER_SIZE) = (p, q) # iov \<and> (k = 1 \<longrightarrow> iov = [])"
  using iovecs_two [OF room_after(1) _ refl, of b] iovecs_one [OF room_after(1) _ refl, of b]
  by (auto simp: buffer_full_fill buffer_ok_def)

section \<open>What each transfer does\<close>

text \<open>A write sends a prefix of the contents and removes it, or gives the contents up at a broken pipe.  A read
  appends, never after the end of the stream, or the stream ends.\<close>

definition write_spec :: "Buffer \<Rightarrow> Buffer \<Rightarrow> bytes \<Rightarrow> bool" where
  "write_spec b b' sent \<longleftrightarrow>
     buffer_ok b' \<and> shut_rd b' = shut_rd b \<and> (eof b \<longrightarrow> eof b') \<and>
     (shut_wr b' \<longrightarrow> shut_wr b \<or> eof b' \<and> contents b' = []) \<and>
     (contents b = sent @ contents b' \<and> eof b' = eof b \<or> sent = [] \<and> contents b' = [] \<and> eof b')"

definition read_spec :: "Buffer \<Rightarrow> Buffer \<Rightarrow> bytes \<Rightarrow> bool" where
  "read_spec b b' got \<longleftrightarrow>
     buffer_ok b' \<and> shut_wr b' = shut_wr b \<and> (eof b \<longrightarrow> eof b' \<and> got = []) \<and>
     (shut_rd b' \<longrightarrow> shut_rd b \<or> eof b) \<and>
     (contents b' = contents b @ got \<or> got = [] \<and> contents b' = [] \<and> eof b')"

lemma flags_contents [simp]:
  "contents (b\<lparr>shut_rd := x\<rparr>) = contents b" "contents (b\<lparr>shut_wr := x\<rparr>) = contents b"
  "contents (b\<lparr>eof := x\<rparr>) = contents b"
  "buffer_ok (b\<lparr>shut_rd := x\<rparr>) = buffer_ok b" "buffer_ok (b\<lparr>shut_wr := x\<rparr>) = buffer_ok b"
  "buffer_ok (b\<lparr>eof := x\<rparr>) = buffer_ok b"
  "fill (b\<lparr>shut_rd := x\<rparr>) = fill b" "fill (b\<lparr>shut_wr := x\<rparr>) = fill b" "fill (b\<lparr>eof := x\<rparr>) = fill b"
  by (simp_all add: contents_def buffer_ok_def fill_def)

lemma epipe_contents [simp]:
  "contents (buffer_epipe b) = []" "buffer_ok b \<Longrightarrow> buffer_ok (buffer_epipe b)" "eof (buffer_epipe b)"
  "shut_rd (buffer_epipe b) = shut_rd b" "shut_wr (buffer_epipe b) = shut_wr b"
  by (simp_all add: buffer_epipe_def contents_def buffer_ok_def fill_def ring_def)

lemma finish_shut_wr_simps [simp]:
  "contents (finish_shut_wr b) = contents b" "buffer_ok (finish_shut_wr b) = buffer_ok b"
  "eof (finish_shut_wr b) = eof b" "shut_rd (finish_shut_wr b) = shut_rd b"
  by (simp_all add: finish_shut_wr_def buffer_shut_wr_def)

lemma shut_wr_finish: "buffer_ok b \<Longrightarrow> shut_wr (finish_shut_wr b) \<longleftrightarrow> shut_wr b \<or> eof b \<and> contents b = []"
  using length_contents [of b]
  by (auto simp: finish_shut_wr_def buffer_shut_wr_def buffer_needs_shut_wr_def buffer_empty_fill simp del: length_contents)

text \<open>A condition on the result, if the operation returns; assertions hold.\<close>

definition outcome_all :: "('a \<Rightarrow> bool) \<Rightarrow> 'a outcome \<Rightarrow> bool" where
  "outcome_all P r = (case r of Done x \<Rightarrow> P x | In_syscall \<Rightarrow> True | Assertion_failed \<Rightarrow> False)"

lemma outcome_all_simps [simp]:
  "outcome_all P (Done x) = P x" "outcome_all P In_syscall" "\<not> outcome_all P Assertion_failed"
  by (simp_all add: outcome_all_def)

lemma check_valid_ok: "buffer_ok (fst r) \<Longrightarrow> check_valid r = Done r"
  by (simp add: check_valid_def buffer_valid_fill buffer_ok_def)

lemma get_iovecs_contents: "buffer_ok b \<Longrightarrow> get_iovecs k (start_pos b) (end_pos b) = Some (iovecs_loop k (start_pos b) (end_pos b))"
  by (simp add: get_iovecs_def word_le_nat_alt BUFFER_SIZE_def buffer_ok_def fill_def)

lemma get_iovecs_room: "buffer_ok b \<Longrightarrow> get_iovecs k (end_pos b) (start_pos b + BUFFER_SIZE) = Some (iovecs_loop k (end_pos b) (start_pos b + BUFFER_SIZE))"
  using room_after(1) [of b] by (simp add: get_iovecs_def word_le_nat_alt) (simp add: BUFFER_SIZE_def)

text \<open>Sending the first \<open>s\<close> bytes offered by the vectors.\<close>

lemma take_spec:
  assumes "buffer_ok b" "k = 1 \<or> k = 2" "s \<le> iov_room (iovecs_loop k (start_pos b) (end_pos b))"
  shows "write_spec b (finish_shut_wr (buffer_take b s)) (take s (iov_gather (buffer b) (iovecs_loop k (start_pos b) (end_pos b))))"
proof -
  have s: "s \<le> fill b" using assms gather_contents(2,4) [OF assms(1)] by (elim disjE) auto
  have "take s (iov_gather (buffer b) (iovecs_loop k (start_pos b) (end_pos b))) = take s (contents b)"
    using assms(2)
  proof
    assume k: "k = 1"
    show ?thesis using assms(3) unfolding k gather_contents(3) [OF assms(1)] by (simp add: min_absorb1)
  next
    assume k: "k = 2"
    show ?thesis unfolding k gather_contents(1) [OF assms(1)] ..
  qed
  then show ?thesis
    using take_contents [OF assms(1), of s] assms(1) s by (auto simp: write_spec_def shut_wr_finish) (auto simp: buffer_take_def)
qed

lemma idle_write: "buffer_ok b \<Longrightarrow> write_spec b (finish_shut_wr b) []"
  "buffer_ok b \<Longrightarrow> write_spec b (finish_shut_wr (buffer_epipe b)) []"
  by (auto simp: write_spec_def shut_wr_finish)

lemma idle_read: "buffer_ok b \<Longrightarrow> read_spec b b []" "buffer_ok b \<Longrightarrow> read_spec b (buffer_eof b) []"
  "buffer_ok b \<Longrightarrow> read_spec b (buffer_epipe b) []"
  "buffer_ok b \<Longrightarrow> buffer_needs_shut_rd b \<Longrightarrow> read_spec b (buffer_shut_rd b) []"
  by (simp_all add: read_spec_def buffer_eof_def buffer_shut_rd_def buffer_needs_shut_rd_def)

lemma store_spec:
  "buffer_ok b \<Longrightarrow> k = 1 \<or> k = 2 \<Longrightarrow> length d \<le> buffer_room k b \<Longrightarrow> \<not> eof b \<Longrightarrow> read_spec b (buffer_store k b d) d"
  using store_contents [of b k d] by (simp add: read_spec_def) (simp add: buffer_store_def)

lemma spec_ok: "write_spec b b' x \<Longrightarrow> buffer_ok b'" "read_spec b b' x \<Longrightarrow> buffer_ok b'"
  by (simp_all add: write_spec_def read_spec_def)

lemma check_write [simp]:
  "write_spec b b' x \<Longrightarrow> outcome_all (\<lambda>(b', sent). write_spec b b' sent) (check_valid (b', x))"
  "write_spec b b' x \<Longrightarrow> outcome_all (\<lambda>(b', sent, fd'). write_spec b b' sent) (check_valid (b', x, fd))"
  using spec_ok(1) [of b b' x] by (simp_all add: check_valid_ok)

lemma check_read [simp]:
  "read_spec b b' x \<Longrightarrow> outcome_all (\<lambda>(b', got). read_spec b b' got) (check_valid (b', x))"
  using spec_ok(2) [of b b' x] by (simp add: check_valid_ok)

lemma write_to_fd_spec:
  assumes "buffer_ok b"
  shows "outcome_all (\<lambda>(b', sent, fd'). write_spec b b' sent) (buffer_write_to_fd b fd ws)"
  using idle_write [OF assms] take_spec [OF assms, of 2, unfolded buffer_take_def]
  by (auto simp: buffer_write_to_fd_def get_iovecs_contents [OF assms] Let_def
      split: option.splits write_outcome.splits)

lemma write_to_tls_spec:
  assumes "buffer_ok b"
  shows "outcome_all (\<lambda>(b', sent). write_spec b b' sent) (buffer_write_to_tls b ws)"
  using idle_write [OF assms] take_spec [OF assms, of 1, unfolded buffer_take_def]
  by (auto simp: buffer_write_to_tls_def get_iovecs_contents [OF assms] Let_def
      simp del: One_nat_def iovecs_loop.simps split: option.splits write_outcome.splits)

lemma length_take_le: "length (take n xs) \<le> n"
  by simp

text \<open>A read with room, before the end of the stream.\<close>

lemma read_ready:
  assumes "buffer_ok b" "buffer_can_read b" "\<not> buffer_needs_shut_rd b" "k = 1 \<or> k = 2"
  obtains p q iov where "get_iovecs k (end_pos b) (start_pos b + BUFFER_SIZE) = Some ((p, q) # iov)"
    "k = 1 \<Longrightarrow> iov = []"
    "\<And>d. length d \<le> iov_room ((p, q) # iov) \<Longrightarrow> read_spec b
       (b\<lparr>buffer := iov_scatter (buffer b) ((p, q) # iov) d, end_pos := end_pos b + word_of_nat (length d)\<rparr>) d"
proof -
  have "\<not> buffer_full b" "\<not> eof b" using assms(2,3) by (auto simp: buffer_can_read_def buffer_needs_shut_rd_def)
  then obtain p q iov where iov: "iovecs_loop k (end_pos b) (start_pos b + BUFFER_SIZE) = (p, q) # iov" "k = 1 \<longrightarrow> iov = []"
    using buffer_room_pos [OF assms(1) _ assms(4)] by blast
  show thesis
  proof (rule that)
    show "read_spec b (b\<lparr>buffer := iov_scatter (buffer b) ((p, q) # iov) d, end_pos := end_pos b + word_of_nat (length d)\<rparr>) d"
      if "length d \<le> iov_room ((p, q) # iov)" for d
      using store_spec [OF assms(1,4) _ \<open>\<not> eof b\<close>, of d] that
      by (simp only: buffer_store_def buffer_room_def iov(1))
  qed (use iov get_iovecs_room [OF assms(1), of k] in auto)
qed

lemma read_from_fd_spec:
  assumes "buffer_ok b" "buffer_can_read b \<or> buffer_needs_shut_rd b"
  shows "outcome_all (\<lambda>(b', got). read_spec b b' got) (buffer_read_from_fd b rs)"
proof (cases "buffer_needs_shut_rd b")
  case True
  then show ?thesis using idle_read [OF assms(1)] by (simp add: buffer_read_from_fd_def)
next
  case False
  with assms(2) have "buffer_can_read b" by simp
  from read_ready [OF assms(1) this False, of 2] obtain p q iov where
    "get_iovecs 2 (end_pos b) (start_pos b + BUFFER_SIZE) = Some ((p, q) # iov)"
    "\<And>d. length d \<le> iov_room ((p, q) # iov) \<Longrightarrow> read_spec b
       (b\<lparr>buffer := iov_scatter (buffer b) ((p, q) # iov) d, end_pos := end_pos b + word_of_nat (length d)\<rparr>) d"
    by metis
  note iov = this
  show ?thesis
  proof (cases "retry_read rs")
    case (Some r)
    then show ?thesis
      using False iov(1) iov(2) [OF length_take_le [of "iov_room ((p, q) # iov)" "case r of Read_data d \<Rightarrow> d | _ \<Rightarrow> []"]] idle_read [OF assms(1)]
      by (cases r) (simp_all add: buffer_read_from_fd_def Let_def del: iov_scatter.simps length_take)
  qed (use False iov(1) in \<open>simp add: buffer_read_from_fd_def del: iov_scatter.simps\<close>)
qed

lemma read_from_tls_spec:
  assumes "buffer_ok b" "buffer_can_read b \<or> buffer_needs_shut_rd b"
  shows "outcome_all (\<lambda>(b', got). read_spec b b' got) (buffer_read_from_tls b rs)"
proof (cases "buffer_needs_shut_rd b")
  case True
  then show ?thesis using idle_read [OF assms(1)] by (simp add: buffer_read_from_tls_def)
next
  case False
  with assms(2) have "buffer_can_read b" by simp
  from read_ready [OF assms(1) this False, of 1] obtain p q where
    "get_iovecs 1 (end_pos b) (start_pos b + BUFFER_SIZE) = Some [(p, q)]"
    "\<And>d. length d \<le> iov_room [(p, q)] \<Longrightarrow> read_spec b
       (b\<lparr>buffer := iov_scatter (buffer b) [(p, q)] d, end_pos := end_pos b + word_of_nat (length d)\<rparr>) d"
    by metis
  note iov = this
  show ?thesis
  proof (cases "retry_read rs")
    case (Some r)
    then show ?thesis
      using False iov(1) iov(2) [OF length_take_le [of "iov_room [(p, q)]" "case r of Read_data d \<Rightarrow> d | _ \<Rightarrow> []"]] idle_read [OF assms(1)]
      by (cases r) (simp_all add: buffer_read_from_tls_def Let_def del: iov_scatter.simps length_take One_nat_def)
  qed (use False iov(1) in \<open>simp add: buffer_read_from_tls_def del: One_nat_def\<close>)
qed
end
