(* ===== verification/TlsConnection.thy ===== *)
theory TlsConnection
  imports TlsBuffer "HOL-Library.Sublist"
begin

unbundle bit_operations_syntax

text \<open>
  \<^verbatim>\<open>src/tls/connection.c\<close>, second part: the loop that relays a connection between the client and
  cockpit-ws (\<^verbatim>\<open>connection_thread_loop\<close>), the choice of the cockpit-ws instance, and the first byte
  that tells TLS from plain HTTP.  What \<^verbatim>\<open>poll\<close> and the transfers return is the input of an
  iteration; a \<^verbatim>\<open>short\<close> of poll events is a 16-bit word.
\<close>

definition POLLIN :: "16 word" where "POLLIN = 1"
definition POLLOUT :: "16 word" where "POLLOUT = 4"
definition POLLERR :: "16 word" where "POLLERR = 8"
definition POLLHUP :: "16 word" where "POLLHUP = 16"
definition POLLNVAL :: "16 word" where "POLLNVAL = 32"

definition calculate_events :: "Buffer \<Rightarrow> Buffer \<Rightarrow> 16 word" where
  "calculate_events reader writer =
     of_bool (buffer_can_read reader) * POLLIN OR of_bool (buffer_can_write writer) * POLLOUT"

definition calculate_revents :: "Buffer \<Rightarrow> Buffer \<Rightarrow> 16 word" where
  "calculate_revents reader writer =
     of_bool (buffer_needs_shut_rd reader) * POLLIN OR of_bool (buffer_needs_shut_wr writer) * POLLOUT"

record Connection =
  client_to_ws_buffer :: Buffer
  ws_to_client_buffer :: Buffer
  tls :: bool
  metadata_fd :: "nat option"

text \<open>One iteration's input: the bytes pending inside GnuTLS, the events \<^verbatim>\<open>poll\<close> reports on the two
  descriptors, and the outcomes of the system calls of the four transfers.\<close>

record loop_input =
  record_check_pending :: nat
  poll_client :: "16 word"
  poll_ws :: "16 word"
  client_reads :: "read_outcome list"
  client_writes :: "write_outcome list"
  ws_reads :: "read_outcome list"
  ws_writes :: "write_outcome list"

record loop_output =
  got_client :: bytes
  sent_client :: bytes
  got_ws :: bytes
  sent_ws :: bytes

definition obind :: "'a outcome \<Rightarrow> ('a \<Rightarrow> 'b outcome) \<Rightarrow> 'b outcome" where
  "obind r f = (case r of Done x \<Rightarrow> f x | In_syscall \<Rightarrow> In_syscall | Assertion_failed \<Rightarrow> Assertion_failed)"

text \<open>\<^verbatim>\<open>client_revents |= POLLIN * gnutls_record_check_pending (tls)\<close>: the product is cut to a
  \<^verbatim>\<open>short\<close>.\<close>

definition initial_client_revents :: "Connection \<Rightarrow> nat \<Rightarrow> 16 word" where
  "initial_client_revents self pending =
     calculate_revents (client_to_ws_buffer self) (ws_to_client_buffer self) OR
     (if tls self \<and> buffer_can_read (client_to_ws_buffer self) then POLLIN * word_of_nat pending else 0)"

definition initial_ws_revents :: "Connection \<Rightarrow> 16 word" where
  "initial_ws_revents self = calculate_revents (ws_to_client_buffer self) (client_to_ws_buffer self)"

definition client_events :: "Connection \<Rightarrow> 16 word" where
  "client_events self = calculate_events (client_to_ws_buffer self) (ws_to_client_buffer self)"

definition ws_events :: "Connection \<Rightarrow> 16 word" where
  "ws_events self = calculate_events (ws_to_client_buffer self) (client_to_ws_buffer self)"

definition connection_alive :: "Connection \<Rightarrow> bool" where
  "connection_alive self \<longleftrightarrow> buffer_alive (client_to_ws_buffer self) \<or> buffer_alive (ws_to_client_buffer self)"

text \<open>The timeout of \<^verbatim>\<open>poll\<close>: zero or forever.\<close>

definition poll_blocks :: "Connection \<Rightarrow> nat \<Rightarrow> bool" where
  "poll_blocks self pending \<longleftrightarrow> initial_client_revents self pending OR initial_ws_revents self = 0"

text \<open>The transfers of one iteration, in the order of the source.\<close>

definition loop_iteration :: "Connection \<Rightarrow> loop_input \<Rightarrow> (Connection \<times> loop_output) outcome" where
  "loop_iteration self i =
     (let client_revents = initial_client_revents self (record_check_pending i) OR poll_client i;
          ws_revents = initial_ws_revents self OR poll_ws i in
      obind (if client_revents AND POLLIN \<noteq> 0 then
               (if tls self then buffer_read_from_tls (client_to_ws_buffer self) (client_reads i)
                else buffer_read_from_fd (client_to_ws_buffer self) (client_reads i))
             else Done (client_to_ws_buffer self, [])) (\<lambda>(c2w, gc).
      obind (if client_revents AND POLLOUT \<noteq> 0 then
               (if tls self then buffer_write_to_tls (ws_to_client_buffer self) (client_writes i)
                else obind (buffer_write_to_fd (ws_to_client_buffer self) None (client_writes i))
                       (\<lambda>(b, sent, _). Done (b, sent)))
             else Done (ws_to_client_buffer self, [])) (\<lambda>(w2c, sc).
      obind (if ws_revents AND POLLIN \<noteq> 0 then buffer_read_from_fd w2c (ws_reads i) else Done (w2c, [])) (\<lambda>(w2c, gw).
      obind (if ws_revents AND POLLOUT \<noteq> 0 then buffer_write_to_fd c2w (metadata_fd self) (ws_writes i)
             else Done (c2w, [], metadata_fd self)) (\<lambda>(c2w, sw, fd).
        Done (self\<lparr>client_to_ws_buffer := c2w, ws_to_client_buffer := w2c, metadata_fd := fd\<rparr>,
              \<lparr>got_client = gc, sent_client = sc, got_ws = gw, sent_ws = sw\<rparr>))))))"

text \<open>\<^verbatim>\<open>connection_thread_loop\<close> for a list of iterations: it ends when neither buffer is alive, or
  goes on waiting.\<close>

fun connection_thread_loop :: "Connection \<Rightarrow> loop_input list \<Rightarrow> (Connection \<times> loop_output list) outcome" where
  "connection_thread_loop self [] = Done (self, [])"
| "connection_thread_loop self (i # is) =
     (if \<not> connection_alive self then Done (self, [])
      else obind (loop_iteration self i) (\<lambda>(self', out).
             obind (connection_thread_loop self' is) (\<lambda>(self'', outs). Done (self'', out # outs))))"

section \<open>Choice of the instance\<close>

datatype sockaddr = AF_UNIX | AF_INET "32 word" | AF_INET6 bytes | AF_other

definition INADDR_LOOPBACK :: "32 word" where
  "INADDR_LOOPBACK = 0x7f000001"

text \<open>Addresses in host byte order; \<^term>\<open>None\<close> when \<^verbatim>\<open>getsockname\<close> fails.\<close>

definition connection_is_to_localhost :: "sockaddr option \<Rightarrow> bool" where
  "connection_is_to_localhost addr =
     (case addr of
        None \<Rightarrow> False
      | Some AF_UNIX \<Rightarrow> True
      | Some (AF_INET a) \<Rightarrow> a = INADDR_LOOPBACK
      | Some (AF_INET6 a) \<Rightarrow> a = replicate 15 0 @ [1] \<or> a = replicate 10 0 @ [0xff, 0xff, 127, 0, 0, 1]
      | Some AF_other \<Rightarrow> False)"

datatype ws_target = Redirect | Http_sock | Https_instance bytes

text \<open>Where \<^verbatim>\<open>connection_connect_to_wsinstance\<close> connects to; \<open>instance\<close> is the fingerprint set by the
  handshake of a TLS connection.\<close>

definition connection_connect_to_wsinstance :: "bool \<Rightarrow> bytes option \<Rightarrow> sockaddr option \<Rightarrow> ws_target" where
  "connection_connect_to_wsinstance require_https tls_instance addr =
     (case tls_instance of
        None \<Rightarrow> if require_https \<and> \<not> connection_is_to_localhost addr then Redirect else Http_sock
      | Some fingerprint \<Rightarrow> Https_instance fingerprint)"

datatype handshake_result = Handshake_failed | Plain_http | Tls_ready bytes

text \<open>\<^verbatim>\<open>connection_handshake\<close>: the peeked byte (\<^term>\<open>None\<close> for a timeout, an error or the end of
  file), whether a certificate is configured, and the result of the GnuTLS handshake with the client
  certificate check.\<close>

definition connection_handshake :: "byte option \<Rightarrow> bool \<Rightarrow> bytes option \<Rightarrow> handshake_result" where
  "connection_handshake first have_certificate gnutls =
     (case first of
        None \<Rightarrow> Handshake_failed
      | Some b \<Rightarrow>
          if b = 22 then
            (if \<not> have_certificate then Handshake_failed
             else case gnutls of None \<Rightarrow> Handshake_failed | Some fingerprint \<Rightarrow> Tls_ready fingerprint)
          else Plain_http)"

section \<open>Invariant\<close>

definition flags_ok :: "Buffer \<Rightarrow> bool" where
  "flags_ok b \<longleftrightarrow> (shut_rd b \<longrightarrow> eof b) \<and> (shut_wr b \<longrightarrow> eof b \<and> contents b = [])"

definition connection_ok :: "Connection \<Rightarrow> bool" where
  "connection_ok self \<longleftrightarrow>
     buffer_ok (client_to_ws_buffer self) \<and> flags_ok (client_to_ws_buffer self) \<and>
     buffer_ok (ws_to_client_buffer self) \<and> flags_ok (ws_to_client_buffer self)"

text \<open>What \<^verbatim>\<open>poll\<close> promises: it reports what was asked for, or an error condition, and nothing for a
  negative descriptor, which is given when nothing is asked.\<close>

definition poll_contract :: "16 word \<Rightarrow> 16 word \<Rightarrow> bool" where
  "poll_contract events revents \<longleftrightarrow>
     (if events = 0 then revents = 0 else revents AND NOT (events OR POLLERR OR POLLHUP OR POLLNVAL) = 0)"

definition poll_ok :: "Connection \<Rightarrow> loop_input \<Rightarrow> bool" where
  "poll_ok self i \<longleftrightarrow> poll_contract (client_events self) (poll_client i) \<and> poll_contract (ws_events self) (poll_ws i)"

lemma and_POLLIN: "x AND POLLIN \<noteq> 0 \<longleftrightarrow> bit x 0"
  by (simp add: POLLIN_def and_one_eq bit_0 odd_iff_mod_2_eq_one)

lemma events_bit0: "bit (calculate_events r w) 0 \<longleftrightarrow> buffer_can_read r" "bit (calculate_revents r w) 0 \<longleftrightarrow> buffer_needs_shut_rd r"
  by (simp_all add: calculate_events_def calculate_revents_def POLLIN_def POLLOUT_def bit_or_iff bit_0)

lemma poll_contract_bit0: "poll_contract events revents \<Longrightarrow> bit revents 0 \<Longrightarrow> bit events 0"
proof -
  assume c: "poll_contract events revents" and r: "bit revents 0"
  show ?thesis
  proof (rule ccontr)
    assume n: "\<not> bit events 0"
    have "\<not> bit POLLERR 0" "\<not> bit POLLHUP 0" "\<not> bit POLLNVAL 0"
      by (simp_all add: POLLERR_def POLLHUP_def POLLNVAL_def bit_0)
    then have "bit (revents AND NOT (events OR POLLERR OR POLLHUP OR POLLNVAL)) 0"
      unfolding bit_and_iff bit_not_iff bit_or_iff using r n by simp
    then show False using c r by (auto simp: poll_contract_def split: if_splits)
  qed
qed

lemma client_may_read:
  assumes "poll_ok self i" "(initial_client_revents self n OR poll_client i) AND POLLIN \<noteq> 0"
  shows "buffer_can_read (client_to_ws_buffer self) \<or> buffer_needs_shut_rd (client_to_ws_buffer self)"
  using assms poll_contract_bit0 [of "client_events self" "poll_client i"]
  by (auto simp: and_POLLIN poll_ok_def initial_client_revents_def bit_or_iff events_bit0 client_events_def split: if_splits)

lemma ws_may_read:
  assumes "poll_ok self i" "(initial_ws_revents self OR poll_ws i) AND POLLIN \<noteq> 0"
  shows "buffer_can_read (ws_to_client_buffer self) \<or> buffer_needs_shut_rd (ws_to_client_buffer self)"
  using assms poll_contract_bit0 [of "ws_events self" "poll_ws i"]
  by (auto simp: and_POLLIN poll_ok_def initial_ws_revents_def bit_or_iff events_bit0 ws_events_def)

lemma write_keeps_readable:
  assumes "write_spec b b' x" "buffer_ok b" "buffer_can_read b \<or> buffer_needs_shut_rd b"
  shows "buffer_can_read b' \<or> buffer_needs_shut_rd b'"
proof -
  have "buffer_ok b'" using assms(1) by (rule spec_ok)
  have "fill b' \<le> fill b \<or> eof b'"
    using assms(1) length_contents [OF assms(2)] length_contents [OF \<open>buffer_ok b'\<close>]
    by (auto simp: write_spec_def dest: arg_cong [where f = length])
  then show ?thesis
    using assms by (auto simp: write_spec_def buffer_can_read_def buffer_needs_shut_rd_def buffer_full_fill buffer_ok_def)
qed

lemma spec_flags: "write_spec b b' x \<Longrightarrow> flags_ok b \<Longrightarrow> flags_ok b'" "read_spec b b' x \<Longrightarrow> flags_ok b \<Longrightarrow> flags_ok b'"
  by (auto simp: write_spec_def read_spec_def flags_ok_def)

lemma outcome_all_bind: "outcome_all (\<lambda>x. outcome_all Q (f x)) r \<Longrightarrow> outcome_all Q (obind r f)"
  by (cases r) (simp_all add: obind_def)

lemma outcome_all_mono: "outcome_all P r \<Longrightarrow> (\<And>x. P x \<Longrightarrow> Q x) \<Longrightarrow> outcome_all Q r"
  by (cases r) simp_all

section \<open>One iteration\<close>

text \<open>The account of a direction: what was received is what was sent and what the buffer holds, or the rest was
  given up at a broken pipe after the end of the stream.\<close>

definition relayed :: "Buffer \<Rightarrow> bytes \<Rightarrow> bytes \<Rightarrow> bool" where
  "relayed b got sent \<longleftrightarrow> got = sent @ contents b \<or> eof b \<and> contents b = [] \<and> prefix sent got"

lemma relayed_prefix: "relayed b got sent \<Longrightarrow> prefix sent got"
  by (auto simp: relayed_def)

lemma relayed_write: "relayed b got sent \<Longrightarrow> write_spec b b' x \<Longrightarrow> relayed b' got (sent @ x)"
  by (auto simp: relayed_def write_spec_def)

lemma relayed_read: "relayed b got sent \<Longrightarrow> read_spec b b' x \<Longrightarrow> relayed b' (got @ x) sent"
  by (auto simp: relayed_def read_spec_def)

definition iteration_spec :: "Connection \<Rightarrow> Connection \<Rightarrow> loop_output \<Rightarrow> bool" where
  "iteration_spec self self' out \<longleftrightarrow>
     connection_ok self' \<and> tls self' = tls self \<and>
     (\<exists>c2w. read_spec (client_to_ws_buffer self) c2w (got_client out) \<and>
            write_spec c2w (client_to_ws_buffer self') (sent_ws out)) \<and>
     (\<exists>w2c. write_spec (ws_to_client_buffer self) w2c (sent_client out) \<and>
            read_spec w2c (ws_to_client_buffer self') (got_ws out))"

lemma idle_specs: "buffer_ok b \<Longrightarrow> write_spec b b []" "buffer_ok b \<Longrightarrow> read_spec b b []"
  by (auto simp: write_spec_def read_spec_def)

lemma write_to_fd_spec2:
  "buffer_ok b \<Longrightarrow> outcome_all (\<lambda>(b', sent). write_spec b b' sent)
     (obind (buffer_write_to_fd b fd ws) (\<lambda>(b, sent, _). Done (b, sent)))"
  using write_to_fd_spec [of b fd ws]
  by (intro outcome_all_bind) (auto elim!: outcome_all_mono)

lemma iteration_spec_intro:
  assumes "connection_ok self" "read_spec (client_to_ws_buffer self) c2w gc" "write_spec (ws_to_client_buffer self) w2c sc"
    "read_spec w2c w2c' gw" "write_spec c2w c2w' sw"
  shows "iteration_spec self (self\<lparr>client_to_ws_buffer := c2w', ws_to_client_buffer := w2c', metadata_fd := fd\<rparr>)
      \<lparr>got_client = gc, sent_client = sc, got_ws = gw, sent_ws = sw\<rparr>"
proof -
  have "flags_ok c2w'" "flags_ok w2c'"
    using assms spec_flags by (auto simp: connection_ok_def)
  moreover have "buffer_ok c2w'" "buffer_ok w2c'" using assms spec_ok by blast+
  ultimately show ?thesis
    using assms unfolding iteration_spec_def connection_ok_def by auto
qed

lemma loop_iteration_spec:
  assumes "connection_ok self" "poll_ok self i"
  shows "outcome_all (\<lambda>(self', out). iteration_spec self self' out) (loop_iteration self i)"
proof -
  define cr where "cr = initial_client_revents self (record_check_pending i) OR poll_client i"
  define wr where "wr = initial_ws_revents self OR poll_ws i"
  have ok: "buffer_ok (client_to_ws_buffer self)" "buffer_ok (ws_to_client_buffer self)"
    using assms(1) by (auto simp: connection_ok_def)
  have r1: "outcome_all (\<lambda>(c2w, gc). read_spec (client_to_ws_buffer self) c2w gc)
      (if cr AND POLLIN \<noteq> 0 then
         (if tls self then buffer_read_from_tls (client_to_ws_buffer self) (client_reads i)
          else buffer_read_from_fd (client_to_ws_buffer self) (client_reads i))
       else Done (client_to_ws_buffer self, []))"
    using client_may_read [OF assms(2), of "record_check_pending i", folded cr_def] read_from_tls_spec [OF ok(1)] read_from_fd_spec [OF ok(1)] idle_specs [OF ok(1)]
    by simp
  have w1: "outcome_all (\<lambda>(w2c, sc). write_spec (ws_to_client_buffer self) w2c sc)
      (if cr AND POLLOUT \<noteq> 0 then
         (if tls self then buffer_write_to_tls (ws_to_client_buffer self) (client_writes i)
          else obind (buffer_write_to_fd (ws_to_client_buffer self) None (client_writes i)) (\<lambda>(b, sent, _). Done (b, sent)))
       else Done (ws_to_client_buffer self, []))"
    using write_to_tls_spec [OF ok(2)] write_to_fd_spec2 [OF ok(2)] idle_specs [OF ok(2)] by simp
  have r2: "outcome_all (\<lambda>(w2c', gw). read_spec w2c w2c' gw)
      (if wr AND POLLIN \<noteq> 0 then buffer_read_from_fd w2c (ws_reads i) else Done (w2c, []))"
    if "write_spec (ws_to_client_buffer self) w2c x" for w2c x
    using ws_may_read [OF assms(2), folded wr_def] write_keeps_readable [OF that ok(2)]
      read_from_fd_spec [OF spec_ok(1) [OF that]] idle_specs [OF spec_ok(1) [OF that]]
    by simp
  have w2: "outcome_all (\<lambda>(c2w', sw, fd). write_spec c2w c2w' sw)
      (if wr AND POLLOUT \<noteq> 0 then buffer_write_to_fd c2w (metadata_fd self) (ws_writes i) else Done (c2w, [], metadata_fd self))"
    if "read_spec (client_to_ws_buffer self) c2w x" for c2w x
    using write_to_fd_spec [OF spec_ok(2) [OF that]] idle_specs [OF spec_ok(2) [OF that]] by simp
  show ?thesis
    unfolding loop_iteration_def Let_def cr_def [symmetric] wr_def [symmetric]
    apply (rule outcome_all_bind, rule outcome_all_mono [OF r1], clarify)
    apply (rule outcome_all_bind, rule outcome_all_mono [OF w1], clarify)
    apply (rule outcome_all_bind, rule outcome_all_mono [OF r2], assumption, clarify)
    apply (rule outcome_all_bind, rule outcome_all_mono [OF w2], assumption, clarify)
    apply (simp add: iteration_spec_intro [OF assms(1)])
    done
qed

section \<open>The loop\<close>

text \<open>Every iteration of a run sees a \<^verbatim>\<open>poll\<close> that keeps its promise.\<close>

fun polls_ok :: "Connection \<Rightarrow> loop_input list \<Rightarrow> bool" where
  "polls_ok self [] = True"
| "polls_ok self (i # is) =
     (poll_ok self i \<and> (\<forall>self' out. loop_iteration self i = Done (self', out) \<longrightarrow> polls_ok self' is))"

definition total :: "(loop_output \<Rightarrow> bytes) \<Rightarrow> loop_output list \<Rightarrow> bytes" where
  "total f outs = concat (map f outs)"

lemma total_simps [simp]: "total f [] = []" "total f (x # xs) = f x @ total f xs"
  by (simp_all add: total_def)

lemma iteration_relayed:
  assumes "iteration_spec self self' out"
  shows "relayed (client_to_ws_buffer self) got sent \<Longrightarrow>
      relayed (client_to_ws_buffer self') (got @ got_client out) (sent @ sent_ws out)"
    and "relayed (ws_to_client_buffer self) got sent \<Longrightarrow>
      relayed (ws_to_client_buffer self') (got @ got_ws out) (sent @ sent_client out)"
  using assms relayed_read relayed_write unfolding iteration_spec_def by blast+

definition run_spec :: "Connection \<Rightarrow> Connection \<Rightarrow> loop_output list \<Rightarrow> bool" where
  "run_spec self self' outs \<longleftrightarrow>
     connection_ok self' \<and>
     (\<forall>got sent. relayed (client_to_ws_buffer self) got sent \<longrightarrow>
        relayed (client_to_ws_buffer self') (got @ total got_client outs) (sent @ total sent_ws outs)) \<and>
     (\<forall>got sent. relayed (ws_to_client_buffer self) got sent \<longrightarrow>
        relayed (ws_to_client_buffer self') (got @ total got_ws outs) (sent @ total sent_client outs))"

lemma run_spec_Nil: "connection_ok self \<Longrightarrow> run_spec self self []"
  by (simp add: run_spec_def)

lemma run_spec_Cons: "iteration_spec self self' out \<Longrightarrow> run_spec self' self'' outs \<Longrightarrow> run_spec self self'' (out # outs)"
  using iteration_relayed [of self self' out] by (simp add: run_spec_def) (metis append.assoc)

lemma thread_loop_spec:
  "connection_ok self \<Longrightarrow> polls_ok self is \<Longrightarrow>
   outcome_all (\<lambda>(self', outs). run_spec self self' outs) (connection_thread_loop self is)"
proof (induction "is" arbitrary: self)
  case (Cons i "is")
  note iter = loop_iteration_spec [OF Cons.prems(1), of i]
  show ?case
  proof (cases "connection_alive self")
    case True
    show ?thesis
    proof (cases "loop_iteration self i")
      case (Done r)
      then obtain self' out where r: "loop_iteration self i = Done (self', out)" by (cases r) simp
      then have it: "iteration_spec self self' out" using iter Cons.prems(2) by simp
      then have "outcome_all (\<lambda>(self'', outs). run_spec self' self'' outs) (connection_thread_loop self' is)"
        using Cons r by (simp add: iteration_spec_def)
      then show ?thesis
        using True r run_spec_Cons [OF it]
        by (cases "connection_thread_loop self' is") (auto simp: obind_def)
    qed (use True iter Cons.prems(2) in \<open>simp_all add: obind_def\<close>)
  qed (simp add: run_spec_Nil Cons.prems(1))
qed (simp add: run_spec_Nil)

definition connection_init :: "bool \<Rightarrow> nat option \<Rightarrow> Connection" where
  "connection_init with_tls fd =
     \<lparr>client_to_ws_buffer = buffer_init, ws_to_client_buffer = buffer_init, tls = with_tls, metadata_fd = fd\<rparr>"

lemma buffer_init_ok: "buffer_ok buffer_init" "flags_ok buffer_init" "contents buffer_init = []" "fill buffer_init = 0"
  by (simp_all add: buffer_init_def buffer_ok_def flags_ok_def contents_def fill_def ring_def)

lemma connection_init_ok: "connection_ok (connection_init t fd)"
  by (simp add: connection_init_def connection_ok_def buffer_init_ok)

lemma events_zero:
  "calculate_events r w = 0 \<longleftrightarrow> \<not> buffer_can_read r \<and> \<not> buffer_can_write w"
  "calculate_revents r w = 0 \<longleftrightarrow> \<not> buffer_needs_shut_rd r \<and> \<not> buffer_needs_shut_wr w"
  by (simp_all add: calculate_events_def calculate_revents_def POLLIN_def POLLOUT_def)

text \<open>A buffer nothing is asked of is dead.\<close>

definition quiet :: "Buffer \<Rightarrow> bool" where
  "quiet b \<longleftrightarrow> \<not> buffer_can_read b \<and> \<not> buffer_can_write b \<and> \<not> buffer_needs_shut_rd b \<and> \<not> buffer_needs_shut_wr b"

lemma quiet_dead: "buffer_ok b \<Longrightarrow> flags_ok b \<Longrightarrow> quiet b \<Longrightarrow> \<not> buffer_alive b"
  using length_contents [of b]
  by (auto simp: quiet_def flags_ok_def buffer_alive_def buffer_can_read_def buffer_can_write_def
      buffer_needs_shut_rd_def buffer_needs_shut_wr_def buffer_full_fill buffer_empty_fill simp del: length_contents)

text \<open>A concrete first iteration: two bytes arrive from the client.\<close>

definition first_bytes :: loop_input where
  "first_bytes = \<lparr>record_check_pending = 0, poll_client = POLLIN, poll_ws = 0, client_reads = [Read_data [71, 69]],
     client_writes = [], ws_reads = [], ws_writes = []\<rparr>"

lemma init_events:
  "calculate_events buffer_init buffer_init = POLLIN" "calculate_revents buffer_init buffer_init = 0"
  by (simp_all add: calculate_events_def calculate_revents_def buffer_can_read_def buffer_can_write_def
      buffer_needs_shut_rd_def buffer_needs_shut_wr_def buffer_full_fill buffer_empty_fill buffer_init_ok)
    (simp_all add: buffer_init_def)

lemma first_bytes_poll: "polls_ok (connection_init False None) [first_bytes]"
  by (simp add: poll_ok_def poll_contract_def client_events_def ws_events_def connection_init_def init_events
      first_bytes_def POLLIN_def POLLERR_def POLLHUP_def POLLNVAL_def)

lemma first_bytes_run:
  "\<exists>self outs. connection_thread_loop (connection_init False None) [first_bytes] = Done (self, outs) \<and>
     total got_client outs = [71, 69]"
proof -
  have ready: "buffer_can_read buffer_init" "\<not> buffer_needs_shut_rd buffer_init" "buffer_alive buffer_init"
    by (simp_all add: buffer_can_read_def buffer_needs_shut_rd_def buffer_full_fill buffer_init_ok buffer_alive_def)
      (simp_all add: buffer_init_def)
  have "buffer_read_from_fd buffer_init [Read_data [71, 69]] = Done (buffer_store 2 buffer_init [71, 69], [71, 69])"
  proof -
    obtain p q iov where iov: "iovecs_loop 2 (end_pos buffer_init) (start_pos buffer_init + BUFFER_SIZE) = (p, q) # iov"
      using buffer_room_pos [OF buffer_init_ok(1), of 2] ready by (auto simp: buffer_can_read_def)
    have room: "buffer_room 2 buffer_init = 16384" by (simp add: buffer_room_2 buffer_init_ok)
    have "buffer_ok (buffer_store 2 buffer_init [71, 69])"
      by (rule ring2.store_ok) (simp_all add: buffer_init_ok room)
    then have "check_valid (buffer_store 2 buffer_init [71, 69], [71, 69 :: byte]) =
        Done (buffer_store 2 buffer_init [71, 69], [71, 69])"
      by (simp add: check_valid_ok)
    then show ?thesis
      using ready(2) room get_iovecs_room [OF buffer_init_ok(1), of 2]
      by (simp add: buffer_read_from_fd_def buffer_store_def buffer_room_def iov Let_def del: iov_scatter.simps)
  qed
  then show ?thesis
    using ready
    by (simp add: connection_alive_def connection_init_def loop_iteration_def initial_client_revents_def
        initial_ws_revents_def init_events first_bytes_def obind_def POLLIN_def POLLOUT_def)
qed

section \<open>Properties\<close>

text \<open>C3: no assertion of the relay fails: for plain and TLS connections, whatever the clients, cockpit-ws and the
  kernel do within the contract of \<^verbatim>\<open>poll\<close>, no run of \<^verbatim>\<open>connection_thread_loop\<close> reaches a failed
  \<^verbatim>\<open>assert\<close> in \<^verbatim>\<open>get_iovecs\<close> or in a transfer, across the wrap-around of the 32-bit counters.\<close>

theorem connection_loop_never_asserts:
  assumes "polls_ok (connection_init with_tls fd) is"
  shows "connection_thread_loop (connection_init with_tls fd) is \<noteq> Assertion_failed"
  using thread_loop_spec [OF connection_init_ok assms] by auto

theorem connection_loop_never_asserts_witness:
  "connection_thread_loop (connection_init False None) [first_bytes] \<noteq> Assertion_failed"
  by (rule connection_loop_never_asserts [OF first_bytes_poll])

text \<open>C2: the relay is faithful: in each direction the bytes sent so far are a prefix of the bytes received, and
  before the end of the stream nothing is missing, duplicated or reordered: received is sent followed by
  the contents of the ring buffer.\<close>

theorem connection_loop_relays:
  assumes "polls_ok (connection_init with_tls fd) is"
    and "connection_thread_loop (connection_init with_tls fd) is = Done (self, outs)"
  shows "prefix (total sent_ws outs) (total got_client outs) \<and>
     prefix (total sent_client outs) (total got_ws outs) \<and>
     (\<not> eof (client_to_ws_buffer self) \<longrightarrow>
        total got_client outs = total sent_ws outs @ contents (client_to_ws_buffer self)) \<and>
     (\<not> eof (ws_to_client_buffer self) \<longrightarrow>
        total got_ws outs = total sent_client outs @ contents (ws_to_client_buffer self))"
proof -
  have "run_spec (connection_init with_tls fd) self outs"
    using thread_loop_spec [OF connection_init_ok assms(1)] assms(2) by simp
  moreover have "relayed (client_to_ws_buffer (connection_init with_tls fd)) [] []"
      "relayed (ws_to_client_buffer (connection_init with_tls fd)) [] []"
    by (simp_all add: relayed_def connection_init_def buffer_init_ok)
  ultimately have rel: "relayed (client_to_ws_buffer self) (total got_client outs) (total sent_ws outs)"
      "relayed (ws_to_client_buffer self) (total got_ws outs) (total sent_client outs)"
    unfolding run_spec_def by force+
  then show ?thesis using relayed_prefix by (auto simp: relayed_def)
qed

theorem connection_loop_relays_witness:
  "\<exists>self outs. connection_thread_loop (connection_init False None) [first_bytes] = Done (self, outs) \<and>
     total got_client outs = [71, 69] \<and>
     prefix (total sent_ws outs) (total got_client outs) \<and> prefix (total sent_client outs) (total got_ws outs)"
proof -
  obtain self outs where run: "connection_thread_loop (connection_init False None) [first_bytes] = Done (self, outs)"
      "total got_client outs = [71, 69]"
    using first_bytes_run by blast
  then show ?thesis
    using connection_loop_relays [OF first_bytes_poll run(1)] by blast
qed

text \<open>C37: the loop never waits for nothing: while a direction is alive, either \<^verbatim>\<open>poll\<close> is asked for an event
  or it is called with a zero timeout because a shutdown is due.\<close>

theorem connection_loop_never_stuck:
  assumes "connection_ok self" "connection_alive self"
  shows "\<not> (client_events self = 0 \<and> ws_events self = 0 \<and> poll_blocks self pending)"
proof
  assume idle: "client_events self = 0 \<and> ws_events self = 0 \<and> poll_blocks self pending"
  let ?c = "client_to_ws_buffer self" and ?w = "ws_to_client_buffer self"
  have "quiet ?c" "quiet ?w"
    using idle
    by (auto simp: quiet_def client_events_def ws_events_def poll_blocks_def initial_client_revents_def
        initial_ws_revents_def events_zero or_eq_0_iff)
  then have "\<not> buffer_alive ?c" "\<not> buffer_alive ?w"
    using assms(1) quiet_dead by (auto simp: connection_ok_def)
  then show False using assms(2) by (simp add: connection_alive_def)
qed

theorem connection_loop_never_stuck_witness:
  "\<not> (client_events (connection_init True None) = 0 \<and> ws_events (connection_init True None) = 0 \<and>
      poll_blocks (connection_init True None) 0)"
  by (rule connection_loop_never_stuck [OF connection_init_ok])
    (simp add: connection_alive_def connection_init_def buffer_alive_def buffer_init_def)

text \<open>When GnuTLS holds an even number of decrypted bytes and the socket is quiet, an iteration reads none of
  them and changes nothing, while \<^verbatim>\<open>poll\<close> is called with a zero timeout: the pending count is
  multiplied into the event mask, so its lowest bit, not its being non-zero, decides.\<close>

theorem connection_loop_even_pending_spins:
  assumes "connection_ok self" "tls self" "buffer_can_read (client_to_ws_buffer self)" "\<not> eof (client_to_ws_buffer self)"
    and "fill (ws_to_client_buffer self) = 0" "\<not> eof (ws_to_client_buffer self)"
    and "even pending" "0 < pending" "pending < 2 ^ 16"
    and "record_check_pending i = pending" "poll_client i = 0" "poll_ws i = 0"
  shows "\<not> poll_blocks self pending \<and>
     loop_iteration self i =
       Done (self, \<lparr>got_client = [], sent_client = [], got_ws = [], sent_ws = []\<rparr>)"
proof -
  let ?c = "client_to_ws_buffer self" and ?w = "ws_to_client_buffer self"
  have quiet: "calculate_revents ?c ?w = 0" "calculate_revents ?w ?c = 0"
    using assms(4,6) by (simp_all add: events_zero buffer_needs_shut_rd_def buffer_needs_shut_wr_def)
  have rev: "initial_client_revents self pending = word_of_nat pending" "initial_ws_revents self = 0"
    using assms(2,3) quiet by (simp_all add: initial_client_revents_def initial_ws_revents_def POLLIN_def)
  have nz: "(word_of_nat pending :: 16 word) \<noteq> 0"
  proof -
    have "unat (word_of_nat pending :: 16 word) = pending" using assms(9) by (simp add: unat_of_nat)
    then show ?thesis using assms(8) by (metis unat_0 less_irrefl)
  qed
  have even: "(word_of_nat pending :: 16 word) AND POLLIN = 0"
    using assms(7) and_POLLIN [of "word_of_nat pending"] by (simp add: bit_0 even_of_nat_iff)
  have "end_pos ?w = start_pos ?w" using assms(5) buffer_empty_fill [of ?w] by (simp add: buffer_empty_def)
  then have idle_write_tls: "buffer_write_to_tls ?w ws = Done (?w, [])" for ws
    using assms(1,6)
    by (simp add: buffer_write_to_tls_def get_iovecs_def check_valid_ok connection_ok_def finish_shut_wr_def
        buffer_needs_shut_wr_def)
  have "loop_iteration self i = Done (self, \<lparr>got_client = [], sent_client = [], got_ws = [], sent_ws = []\<rparr>)"
    using assms(2,10,11,12) rev even idle_write_tls by (simp add: loop_iteration_def obind_def)
  then show ?thesis using rev nz by (simp add: poll_blocks_def)
qed

theorem connection_loop_even_pending_spins_witness:
  "\<not> poll_blocks (connection_init True None) 2 \<and>
   loop_iteration (connection_init True None)
      \<lparr>record_check_pending = 2, poll_client = 0, poll_ws = 0, client_reads = [], client_writes = [], ws_reads = [], ws_writes = []\<rparr> =
     Done (connection_init True None, \<lparr>got_client = [], sent_client = [], got_ws = [], sent_ws = []\<rparr>)"
  by (rule connection_loop_even_pending_spins [OF connection_init_ok])
    (simp_all add: connection_init_def buffer_init_ok buffer_can_read_def buffer_full_fill,
      simp_all add: buffer_init_def)

end
