(* ===== verification/Unicode.thy ===== *)
theory Unicode
  imports Prelude
begin

unbundle bit_operations_syntax

text \<open>
  \<^verbatim>\<open>src/common/cockpitunicode.c\<close>, and the validation of UTF-8 that it and the web socket code call
  (\<^verbatim>\<open>g_utf8_validate\<close> with a length: a NUL byte is invalid).
\<close>

section \<open>Validation\<close>

definition utf8_cont :: "byte \<Rightarrow> bool" where
  "utf8_cont b \<longleftrightarrow> b AND 0xc0 = 0x80"

definition cont_bits :: "byte \<Rightarrow> nat" where
  "cont_bits b = unat (b AND 0x3f)"

text \<open>The length of the character at the start of a text, if there is one.\<close>

definition utf8_char_len :: "bytes \<Rightarrow> nat option" where
  "utf8_char_len s =
     (case s of
        [] \<Rightarrow> None
      | b # r \<Rightarrow>
          if b = 0 then None
          else if b < 0x80 then Some 1
          else if b AND 0xe0 = 0xc0 then
            (case r of
               c # _ \<Rightarrow> if b AND 0x1e \<noteq> 0 \<and> utf8_cont c then Some 2 else None
             | [] \<Rightarrow> None)
          else if b AND 0xf0 = 0xe0 then
            (case r of
               c # d # _ \<Rightarrow>
                 let v = (unat (b AND 0x0f) * 64 + cont_bits c) * 64 + cont_bits d in
                 if utf8_cont c \<and> utf8_cont d \<and> 0x800 \<le> v \<and> \<not> (0xd800 \<le> v \<and> v < 0xe000) then Some 3 else None
             | _ \<Rightarrow> None)
          else if b AND 0xf8 = 0xf0 then
            (case r of
               c # d # e # _ \<Rightarrow>
                 let v = ((unat (b AND 0x07) * 64 + cont_bits c) * 64 + cont_bits d) * 64 + cont_bits e in
                 if utf8_cont c \<and> utf8_cont d \<and> utf8_cont e \<and> 0x10000 \<le> v \<and> v < 0x110000 then Some 4 else None
             | _ \<Rightarrow> None)
          else None)"

lemma utf8_char_len_bounds: "utf8_char_len s = Some n \<Longrightarrow> 0 < n \<and> n \<le> length s"
  by (auto simp: utf8_char_len_def Let_def split: list.splits if_splits)

text \<open>The offset \<^verbatim>\<open>end\<close> that \<^verbatim>\<open>g_utf8_validate\<close> reports: where the valid part stops.\<close>

function utf8_end :: "bytes \<Rightarrow> nat" where
  "utf8_end s = (case utf8_char_len s of None \<Rightarrow> 0 | Some n \<Rightarrow> n + utf8_end (drop n s))"
  by pat_completeness auto
termination
  by (relation "measure length") (auto dest!: utf8_char_len_bounds)

declare utf8_end.simps [simp del]

definition g_utf8_validate :: "bytes \<Rightarrow> bool" where
  "g_utf8_validate s \<longleftrightarrow> utf8_end s = length s"

section \<open>Replacing what is not text\<close>

definition replacement_char :: bytes where
  "replacement_char = [0xef, 0xbf, 0xbd]"

lemma utf8_end_le: "utf8_end s \<le> length s"
proof (induction s rule: utf8_end.induct)
  case (1 s)
  then show ?case
    by (subst utf8_end.simps) (fastforce dest: utf8_char_len_bounds split: option.splits)
qed

text \<open>The loops of \<^verbatim>\<open>cockpit_unicode_force_utf8\<close> and \<^verbatim>\<open>cockpit_unicode_has_incomplete_ending\<close>: both
  skip the byte after the valid part and try again on the rest.\<close>

function force_loop :: "bytes \<Rightarrow> bytes" where
  "force_loop s =
     (if utf8_end s = length s then s
      else take (utf8_end s) s @ replacement_char @ force_loop (drop (utf8_end s + 1) s))"
  by pat_completeness auto
termination
proof (relation "measure length", goal_cases)
  case (2 s)
  then show ?case using utf8_end_le [of s] by auto
qed simp

declare force_loop.simps [simp del]

definition cockpit_unicode_force_utf8 :: "bytes \<Rightarrow> bytes" where
  "cockpit_unicode_force_utf8 input = (if g_utf8_validate input then input else force_loop input)"

function ending_loop :: "bytes \<Rightarrow> nat" where
  "ending_loop s = (if utf8_end s = length s then length s else ending_loop (drop (utf8_end s + 1) s))"
  by pat_completeness auto
termination
proof (relation "measure length", goal_cases)
  case (2 s)
  then show ?case using utf8_end_le [of s] by auto
qed simp

declare ending_loop.simps [simp del]

definition cockpit_unicode_has_incomplete_ending :: "bytes \<Rightarrow> bool" where
  "cockpit_unicode_has_incomplete_ending input = (if g_utf8_validate input then False else ending_loop input = 0)"

section \<open>Lemmas on validation\<close>

lemma utf8_end_Nil [simp]: "utf8_end [] = 0"
  by (subst utf8_end.simps) (simp add: utf8_char_len_def)

lemma utf8_char_len_append: "utf8_char_len s = Some n \<Longrightarrow> utf8_char_len (s @ t) = Some n"
  by (auto simp: utf8_char_len_def Let_def split: list.split_asm if_split_asm)

lemma utf8_char_len_take_self: "utf8_char_len s = Some n \<Longrightarrow> utf8_char_len (take n s) = Some n"
  by (auto simp: utf8_char_len_def Let_def split: list.split_asm if_split_asm)

lemma utf8_char_len_take:
  assumes "utf8_char_len s = Some n" "n \<le> m"
  shows "utf8_char_len (take m s) = Some n"
proof -
  have "take m s = take n s @ drop n (take m s)"
    using assms(2) append_take_drop_id [of n "take m s"] by (simp add: min_def)
  then show ?thesis using utf8_char_len_append [OF utf8_char_len_take_self [OF assms(1)]] by metis
qed

lemma utf8_end_append: "utf8_end s = length s \<Longrightarrow> utf8_end (s @ t) = length s + utf8_end t"
proof (induction s rule: utf8_end.induct)
  case (1 s)
  show ?case
  proof (cases "utf8_char_len s")
    case None
    then have "s = []" using 1(2) utf8_end.simps [of s] by simp
    then show ?thesis by simp
  next
    case (Some n)
    then have "n \<le> length s" using utf8_char_len_bounds by blast
    moreover have "utf8_end (drop n s) = length (drop n s)"
      using 1(2) Some utf8_end.simps [of s] calculation by simp
    ultimately show ?thesis
      using 1(1) [OF Some] utf8_end.simps [of "s @ t"] utf8_char_len_append [OF Some, of t] by simp
  qed
qed

lemma utf8_end_take: "utf8_end (take (utf8_end s) s) = utf8_end s"
proof (induction s rule: utf8_end.induct)
  case (1 s)
  show ?case
  proof (cases "utf8_char_len s")
    case None
    then show ?thesis using utf8_end.simps [of s] by simp
  next
    case (Some n)
    then have e: "utf8_end s = n + utf8_end (drop n s)" using utf8_end.simps [of s] by simp
    then have "utf8_char_len (take (utf8_end s) s) = Some n"
      using utf8_char_len_take [OF Some, of "utf8_end s"] by simp
    then show ?thesis
      using 1 [OF Some] e utf8_end.simps [of "take (utf8_end s) s"] by (simp add: drop_take)
  qed
qed

lemma validate_append [simp]:
  "g_utf8_validate s \<Longrightarrow> g_utf8_validate (s @ t) \<longleftrightarrow> g_utf8_validate t"
  by (simp add: g_utf8_validate_def utf8_end_append)

lemma validate_Nil [simp]: "g_utf8_validate []"
  by (simp add: g_utf8_validate_def)

lemma validate_take_end: "g_utf8_validate (take (utf8_end s) s)"
  using utf8_end_le [of s] by (simp add: g_utf8_validate_def utf8_end_take)

lemma validate_concat: "\<forall>x\<in>set xs. g_utf8_validate x \<Longrightarrow> g_utf8_validate (concat xs)"
  by (induction xs) auto

lemma validate_replacement: "g_utf8_validate replacement_char"
proof -
  have "utf8_char_len replacement_char = Some 3"
    by (simp add: utf8_char_len_def replacement_char_def utf8_cont_def cont_bits_def)
  then show ?thesis
    by (simp add: g_utf8_validate_def utf8_end.simps [of replacement_char]) (simp add: replacement_char_def)
qed

lemma validate_ascii:
  assumes "\<forall>b\<in>set s. b \<noteq> 0 \<and> b < 0x80"
  shows "g_utf8_validate s"
  using assms
proof (induction s)
  case (Cons b s)
  then have "utf8_end (b # s) = 1 + utf8_end s"
    by (subst utf8_end.simps) (simp add: utf8_char_len_def)
  then show ?case using Cons by (simp add: g_utf8_validate_def)
qed simp

lemma utf8_char_no_nul: "utf8_char_len s = Some n \<Longrightarrow> 0 \<notin> set (take n s)"
  by (auto simp: utf8_char_len_def Let_def utf8_cont_def split: list.split_asm if_split_asm)

lemma validate_no_nul: "g_utf8_validate s \<Longrightarrow> 0 \<notin> set s"
proof (induction s rule: utf8_end.induct)
  case (1 s)
  show ?case
  proof (cases "utf8_char_len s")
    case None
    then show ?thesis using 1(2) utf8_end.simps [of s] by (simp add: g_utf8_validate_def)
  next
    case (Some n)
    then have n: "n \<le> length s" using utf8_char_len_bounds by blast
    moreover have "g_utf8_validate (drop n s)"
      using 1(2) Some n utf8_end.simps [of s] by (simp add: g_utf8_validate_def)
    ultimately show ?thesis
      using 1(1) [OF Some] utf8_char_no_nul [OF Some] by (metis UnE append_take_drop_id set_append)
  qed
qed

section \<open>Properties\<close>

lemma force_loop_valid: "g_utf8_validate (force_loop s)"
proof (induction s rule: force_loop.induct)
  case (1 s)
  show ?case
  proof (cases "utf8_end s = length s")
    case True
    then show ?thesis by (subst force_loop.simps) (simp add: g_utf8_validate_def)
  next
    case False
    then show ?thesis
      using 1 by (subst force_loop.simps) (simp add: validate_take_end validate_replacement)
  qed
qed

text \<open>Each byte that is replaced becomes three.\<close>

lemma force_loop_length: "length (force_loop s) \<le> 3 * length s"
proof (induction s rule: force_loop.induct)
  case (1 s)
  show ?case
  proof (cases "utf8_end s = length s")
    case True
    then show ?thesis by (subst force_loop.simps) simp
  next
    case False
    then have "utf8_end s < length s" using utf8_end_le [of s] by simp
    then show ?thesis
      using 1 [OF False] by (subst force_loop.simps) (simp add: replacement_char_def False)
  qed
qed

text \<open>Whatever bytes come in, what \<^verbatim>\<open>cockpit_unicode_force_utf8\<close> returns is valid UTF-8; valid text is
  returned unchanged, and the result is at most three times as long as the input.\<close>

theorem cockpit_unicode_force_utf8_correct:
  "g_utf8_validate (cockpit_unicode_force_utf8 s) \<and>
   (cockpit_unicode_force_utf8 s = s \<longleftrightarrow> g_utf8_validate s) \<and>
   length (cockpit_unicode_force_utf8 s) \<le> 3 * length s"
  using force_loop_valid [of s] force_loop_length [of s]
  by (auto simp: cockpit_unicode_force_utf8_def)

text \<open>A character that is cut short: its lead byte promises more bytes than there are, and what is there are
  continuation bytes.\<close>

definition lead_len :: "byte \<Rightarrow> nat" where
  "lead_len b = (if b AND 0xe0 = 0xc0 then 2 else if b AND 0xf0 = 0xe0 then 3 else if b AND 0xf8 = 0xf0 then 4 else 1)"

definition cut_short :: "bytes \<Rightarrow> bool" where
  "cut_short t \<longleftrightarrow> (case t of [] \<Rightarrow> False | b # r \<Rightarrow> length t < lead_len b \<and> list_all utf8_cont r)"

lemma ascii_high_bit: "b < 0x80 \<Longrightarrow> b AND 0x80 = (0::byte)"
proof -
  assume "b < 0x80"
  then have "b AND 0x7f = b" using less_mask_eq [of b 7] by (simp add: mask_eq_exp_minus_1)
  then have "b AND 0x80 = b AND (0x7f AND 0x80)" by (metis and.assoc)
  then show ?thesis by simp
qed

lemma high_bits: "b AND 0xe0 = 0xc0 \<Longrightarrow> b AND 0xc0 = (0xc0::byte)" "b AND 0xf0 = 0xe0 \<Longrightarrow> b AND 0xc0 = (0xc0::byte)"
  "b AND 0xf8 = 0xf0 \<Longrightarrow> b AND 0xc0 = (0xc0::byte)" "b AND 0xc0 = 0xc0 \<Longrightarrow> b AND 0x80 = (0x80::byte)"
  "b AND 0xc0 = 0x80 \<Longrightarrow> b AND 0x80 = (0x80::byte)"
  by (drule arg_cong [where f = "\<lambda>x. x AND 0xc0"], simp add: and.assoc; fail
     | drule arg_cong [where f = "\<lambda>x. x AND 0x80"], simp add: and.assoc; fail)+

lemma lead_not_ascii: "1 < lead_len b \<longrightarrow> \<not> b < 0x80"
  using high_bits [of b] ascii_high_bit [of b] by (auto simp: lead_len_def split: if_splits)

lemma cont_not_lead: "utf8_cont b \<longrightarrow> \<not> b < 0x80 \<and> lead_len b = 1"
  using high_bits [of b] ascii_high_bit [of b] by (auto simp: lead_len_def utf8_cont_def split: if_splits)

lemma lead_len_short: "length (b # r) < lead_len b \<Longrightarrow> utf8_char_len (b # r) = None"
  using lead_not_ascii [of b]
  by (cases r) (auto simp: utf8_char_len_def lead_len_def split: list.splits if_splits)

lemma cont_no_char: "utf8_cont b \<Longrightarrow> utf8_char_len (b # r) = None"
  using cont_not_lead [of b] by (auto simp: utf8_char_len_def lead_len_def split: if_splits)

lemma ending_loop_conts: "list_all utf8_cont r \<Longrightarrow> ending_loop r = 0"
proof (induction r)
  case (Cons b r)
  then have "utf8_end (b # r) = 0"
    using cont_no_char [of b r] by (subst utf8_end.simps) simp
  then show ?case using Cons by (subst ending_loop.simps) simp
qed (simp add: ending_loop.simps)

lemma ending_loop_prefix: "g_utf8_validate p \<Longrightarrow> utf8_end t = 0 \<Longrightarrow> t \<noteq> [] \<Longrightarrow> ending_loop (p @ t) = ending_loop (tl t)"
  by (subst ending_loop.simps) (simp add: g_utf8_validate_def utf8_end_append drop_Suc)

lemma incomplete_ending_bad:
  assumes "g_utf8_validate p" "utf8_end t = 0" "t \<noteq> []" "list_all utf8_cont (tl t)"
  shows "cockpit_unicode_has_incomplete_ending (p @ t)"
  using assms ending_loop_prefix [of p t] ending_loop_conts [of "tl t"] utf8_end_append [of p t]
  by (simp add: cockpit_unicode_has_incomplete_ending_def g_utf8_validate_def)

lemma incomplete_cut_short:
  assumes "g_utf8_validate p" "cut_short t"
  shows "cockpit_unicode_has_incomplete_ending (p @ t)"
proof -
  obtain b r where t: "t = b # r" "length t < lead_len b" "list_all utf8_cont r"
    using assms(2) by (cases t) (auto simp: cut_short_def)
  then have "utf8_end t = 0" using lead_len_short [of b r] by (subst utf8_end.simps) simp
  then show ?thesis using assms(1) t incomplete_ending_bad [of p t] by simp
qed

text \<open>Valid text is not reported by \<^verbatim>\<open>cockpit_unicode_has_incomplete_ending\<close>, and valid text followed by the
  first bytes of a character that is cut short is.\<close>

theorem cockpit_unicode_incomplete_detected:
  assumes "g_utf8_validate p" "cut_short t"
  shows "\<not> cockpit_unicode_has_incomplete_ending p \<and> cockpit_unicode_has_incomplete_ending (p @ t)"
  using incomplete_cut_short [OF assms] assms(1) by (simp add: cockpit_unicode_has_incomplete_ending_def)

theorem cockpit_unicode_incomplete_detected_witness:
  "\<not> cockpit_unicode_has_incomplete_ending [0x61] \<and> cockpit_unicode_has_incomplete_ending ([0x61] @ [0xe2, 0x82])"
  by (rule cockpit_unicode_incomplete_detected)
     (simp_all add: validate_ascii cut_short_def lead_len_def utf8_cont_def)

text \<open>A final byte that begins no character at all is reported as an incomplete ending too.\<close>

lemma incomplete_ending_stray_byte:
  assumes "g_utf8_validate p"
  shows "cockpit_unicode_has_incomplete_ending (p @ [0xff])"
proof -
  have "utf8_end [0xff] = 0" by (subst utf8_end.simps) (simp add: utf8_char_len_def)
  then show ?thesis using incomplete_ending_bad [OF assms] by simp
qed

end
