(* ===== verification/HttpParse.thy ===== *)
theory HttpParse
  imports Interfaces Unicode
begin

unbundle bit_operations_syntax

text \<open>
  \<^verbatim>\<open>src/websocket/websocket.c\<close>: request lines, status lines, header blocks and URLs, which the web
  server, the web socket handshakes and the HTTP client channels share.  A parser returns zero for
  truncated input, a negative number for invalid input, and otherwise the number of bytes it used; these are
  \<^const>\<open>Want_more\<close>, \<^const>\<open>Reject\<close> and \<^const>\<open>Message\<close>.
\<close>

section \<open>Request lines\<close>

text \<open>\<^verbatim>\<open>strskip\<close> on the bytes up to the end of the line.\<close>

definition strskip :: "bytes \<Rightarrow> byte \<Rightarrow> bytes" where
  "strskip s c = dropWhile (\<lambda>b. b = c) s"

definition parse_version :: "bytes \<Rightarrow> nat" where
  "parse_version s =
     (if length s < 8 then 0
      else if take 8 s \<noteq> asc ''HTTP/1.0'' \<and> take 8 s \<noteq> asc ''HTTP/1.1'' then 0
      else 8)"

definition is_valid_line :: "bytes \<Rightarrow> bool" where
  "is_valid_line s \<longleftrightarrow> list_all (\<lambda>b. b = 9 \<or> \<not> (b < 32 \<or> b AND 0x80 \<noteq> 0)) s"

text \<open>The request line.  The second check of \<^verbatim>\<open>is_valid_line\<close> starts at the beginning of the line, not of the path, with
  the length of the path.  \<^verbatim>\<open>strchr\<close> finds the terminating NUL of the string of acceptable characters too.\<close>

definition web_socket_util_parse_req_line :: "bytes \<Rightarrow> (bytes \<times> bytes) parse" where
  "web_socket_util_parse_req_line data =
     (case memchr data 10 of
        None \<Rightarrow> Want_more
      | Some e \<Rightarrow>
          if data ! 0 = 32 then Reject
          else
            let line = take e data in
            case memchr line 32 of
              None \<Rightarrow> Reject
            | Some m \<Rightarrow>
                let path_beg = strskip (drop (m + 1) line) 32 in
                (case memchr path_beg 32 of
                   None \<Rightarrow> Reject
                 | Some p \<Rightarrow>
                     let version = strskip (drop (p + 1) path_beg) 32;
                         n = parse_version version
                     in
                     if n = 0 then Reject
                     else if \<not> list_all (\<lambda>b. b \<in> {13, 32, 0}) (drop n version) then Reject
                     else if \<not> is_valid_line (take m line) \<or> \<not> is_valid_line (take p line) then Reject
                     else Message (cstr (take m line), cstr (take p path_beg)) (e + 1)))"

section \<open>Headers\<close>

text \<open>\<^verbatim>\<open>g_ascii_strcasecmp\<close> and the hash table with case insensitive keys.  Inserting under a key that is present
  replaces the value and keeps the key.\<close>

definition str_case_equal :: "bytes \<Rightarrow> bytes \<Rightarrow> bool" where
  "str_case_equal a b \<longleftrightarrow> map to_lower a = map to_lower b"

definition str_case_hash :: "bytes \<Rightarrow> 32 word" where
  "str_case_hash v = foldl (\<lambda>h b. push_bit 5 h + h + scast (to_lower b)) 5381 v"

type_synonym headers = "(bytes \<times> bytes) list"

fun headers_lookup :: "headers \<Rightarrow> bytes \<Rightarrow> bytes option" where
  "headers_lookup [] k = None"
| "headers_lookup ((k', v) # h) k = (if str_case_equal k' k then Some v else headers_lookup h k)"

fun headers_insert :: "headers \<Rightarrow> bytes \<Rightarrow> bytes \<Rightarrow> headers" where
  "headers_insert [] k v = [(k, v)]"
| "headers_insert ((k', v') # h) k v =
     (if str_case_equal k' k then (k', v) # h else (k', v') # headers_insert h k v)"

text \<open>\<^verbatim>\<open>g_strstrip\<close>, with the blanks of \<^verbatim>\<open>g_ascii_isspace\<close>: those of \<^verbatim>\<open>isspace\<close> but the vertical tab.\<close>

definition g_ascii_isspace :: "byte \<Rightarrow> bool" where
  "g_ascii_isspace b \<longleftrightarrow> b = 32 \<or> b = 9 \<or> b = 10 \<or> b = 12 \<or> b = 13"

definition g_strstrip :: "bytes \<Rightarrow> bytes" where
  "g_strstrip s = rev (dropWhile g_ascii_isspace (rev (dropWhile g_ascii_isspace s)))"

text \<open>One header line: its name and value.\<close>

definition parse_header_line :: "bytes \<Rightarrow> (bytes \<times> bytes) option" where
  "parse_header_line line =
     (case memchr line 58 of
        None \<Rightarrow> None
      | Some colon \<Rightarrow>
          let name = g_strstrip (cstr (take colon line));
              value = g_strstrip (cstr (drop (colon + 1) line))
          in if \<not> is_valid_line name \<or> \<not> g_utf8_validate value then None else Some (name, value))"

function parse_headers_loop :: "bytes \<Rightarrow> nat \<Rightarrow> headers \<Rightarrow> headers parse" where
  "parse_headers_loop data consumed parsed =
     (case memchr data 10 of
        None \<Rightarrow> Want_more
      | Some e \<Rightarrow>
          let line_len = e + 1 in
          if (data ! 0 = 13 \<and> data ! 1 = 10) \<or> data ! 0 = 10 then Message parsed (consumed + line_len)
          else
            case parse_header_line (take line_len data) of
              None \<Rightarrow> Reject
            | Some (name, value) \<Rightarrow>
                parse_headers_loop (drop line_len data) (consumed + line_len) (headers_insert parsed name value))"
  by pat_completeness auto
termination
  by (relation "measure (\<lambda>(data, _, _). length data)") (auto simp: memchr_Some_iff)

declare parse_headers_loop.simps [simp del]

definition web_socket_util_parse_headers :: "bytes \<Rightarrow> headers parse" where
  "web_socket_util_parse_headers data = parse_headers_loop data 0 []"

definition web_socket_util_header_equals :: "headers \<Rightarrow> bytes \<Rightarrow> bytes \<Rightarrow> bool" where
  "web_socket_util_header_equals headers name want =
     (case headers_lookup headers name of None \<Rightarrow> False | Some value \<Rightarrow> str_case_equal value want)"

text \<open>The word as it occurs first, not inside another word.\<close>

definition web_socket_util_header_contains :: "headers \<Rightarrow> bytes \<Rightarrow> bytes \<Rightarrow> bool" where
  "web_socket_util_header_contains headers name word =
     (case headers_lookup headers name of
        None \<Rightarrow> False
      | Some value \<Rightarrow>
          (case memmem (map to_lower value) (map to_lower word) of
             None \<Rightarrow> False
           | Some i \<Rightarrow>
               (i = 0 \<or> \<not> is_alnum (value ! (i - 1))) \<and>
               \<not> (i + length word < length value \<and> is_alnum (value ! (i + length word)))))"

definition web_socket_util_header_empty :: "headers \<Rightarrow> bytes \<Rightarrow> bool" where
  "web_socket_util_header_empty headers name =
     (case headers_lookup headers name of None \<Rightarrow> True | Some value \<Rightarrow> value = [])"

section \<open>Status lines\<close>

text \<open>\<^verbatim>\<open>g_ascii_strtoull\<close> in base 10: blanks (newlines among them), a sign, digits.  The result is the value, saturated at the
  largest 64-bit number on overflow and negated modulo \<open>2\<^sup>6\<^sup>4\<close> after a minus sign, and the offset of the first byte that was
  not used; \<^term>\<open>None\<close> when the number runs to the end of the buffer, where the C code would read on behind it.\<close>

definition g_ascii_strtoull :: "bytes \<Rightarrow> (nat \<times> nat) option" where
  "g_ascii_strtoull s =
     (let blanks = length (takeWhile is_space s);
          t = drop blanks s;
          neg = (t \<noteq> [] \<and> hd t = 45);
          sign = (if t \<noteq> [] \<and> (hd t = 45 \<or> hd t = 43) then 1 else 0);
          ds = takeWhile is_digit (drop sign t);
          v = dec_value ds
      in
      if blanks = length s \<or> blanks + sign + length ds = length s then None
      else if ds = [] then Some (0, 0)
      else Some (if v > 2 ^ 64 - 1 then 2 ^ 64 - 1 else if neg then (2 ^ 64 - v) mod 2 ^ 64 else v, blanks + sign + length ds))"

datatype status_line =
    Status_more
  | Status_bad
  | Status_undefined
  | Status_line nat bytes nat

definition web_socket_util_parse_status_line :: "bytes \<Rightarrow> status_line" where
  "web_socket_util_parse_status_line data =
     (case memchr data 10 of
        None \<Rightarrow> Status_more
      | Some e \<Rightarrow>
          let n = parse_version (take e data) in
          if n = 0 \<or> data ! n \<noteq> 32 then Status_bad
          else
            let at0 = n + length (takeWhile (\<lambda>b. b = 32) (take (e - n) (drop n data))) in
            if memchr (take (e - at0) (drop at0 data)) 32 = None then Status_bad
            else
              case g_ascii_strtoull (drop at0 data) of
                None \<Rightarrow> Status_undefined
              | Some (num, used) \<Rightarrow>
                  let ep = at0 + used in
                  if num = 0 \<or> num > 2 ^ 32 - 1 \<or> data ! ep \<noteq> 32 then Status_bad
                  else if ep > e then Status_undefined
                  else
                    let at1 = ep + length (takeWhile (\<lambda>b. b = 32) (take (e - ep) (drop ep data))) in
                    Status_line num (g_strstrip (cstr (take (e - at1) (drop at1 data)))) (e + 1))"

section \<open>URLs\<close>

text \<open>A C string: reading at its length gives the NUL, reading behind it is undefined.\<close>

datatype 'a url_result = Url_undefined | Url_invalid | Url_ok 'a

definition char_at :: "bytes \<Rightarrow> nat \<Rightarrow> byte option" where
  "char_at s i = (if i < length s then Some (s ! i) else if i = length s then Some 0 else None)"

definition web_socket_util_parse_url :: "bytes \<Rightarrow> (bytes \<times> bytes \<times> bytes) url_result" where
  "web_socket_util_parse_url url =
     (case memchr url 58 of
        None \<Rightarrow> Url_invalid
      | Some colon \<Rightarrow>
          (case (char_at url (colon + 1), char_at url (colon + 2)) of
             (Some c1, c2) \<Rightarrow>
               if c1 \<noteq> 47 \<and> c2 = None then Url_undefined
               else if c1 \<noteq> 47 \<and> c2 \<noteq> Some 47 then Url_invalid
               else if colon + 3 > length url then Url_undefined
               else
                 let rest = drop (colon + 3) url;
                     path = memchr rest 47;
                     at_sign = memchr rest 64;
                     host = (case at_sign of
                               Some h \<Rightarrow> if path = None \<or> h < the path then h + 1 else 0
                             | None \<Rightarrow> 0)
                 in
                 if drop host rest = [] \<or> path = Some host then Url_invalid
                 else
                   Url_ok (take colon url,
                           (case path of Some p \<Rightarrow> take (p - host) (drop host rest) | None \<Rightarrow> drop host rest),
                           (case path of Some p \<Rightarrow> drop p rest | None \<Rightarrow> [47]))
           | (None, _) \<Rightarrow> Url_undefined))"

section \<open>Parsing a growing buffer\<close>

lemma memchr_extend: "memchr s c = Some i \<Longrightarrow> memchr (s @ t) c = Some i"
  by (simp add: memchr_append)

lemma memchr_less: "memchr s c = Some i \<Longrightarrow> i < length s"
  by (simp add: memchr_Some_iff)

lemma strskip_length: "length (strskip s c) \<le> length s"
  by (simp add: strskip_def length_dropWhile_le)

lemma req_line_extend:
  assumes "memchr s 10 = Some e"
  shows "web_socket_util_parse_req_line (s @ t) = web_socket_util_parse_req_line s"
proof -
  have e: "e < length s" using memchr_less [OF assms] .
  have first: "(s @ t) ! 0 = s ! 0" and line: "take e (s @ t) = take e s" using e by (auto simp: nth_append)
  show ?thesis
    unfolding web_socket_util_parse_req_line_def memchr_extend [OF assms, of t] assms option.case first line by (rule refl)
qed

lemma req_line_bound: "web_socket_util_parse_req_line s = Message v n \<Longrightarrow> 0 < n \<and> n \<le> length s"
  by (auto simp: web_socket_util_parse_req_line_def Let_def dest!: memchr_less split: option.splits if_splits)

interpretation req_line: stream_parser web_socket_util_parse_req_line
proof
  fix s t v n
  show "web_socket_util_parse_req_line s = Message v n \<Longrightarrow> 0 < n \<and> n \<le> length s"
    by (rule req_line_bound)
  assume "web_socket_util_parse_req_line s = Message v n"
  then show "web_socket_util_parse_req_line (s @ t) = Message v n"
    using req_line_extend [of s _ t] by (cases "memchr s 10") (auto simp: web_socket_util_parse_req_line_def)
next
  fix s t
  assume "web_socket_util_parse_req_line s = Reject"
  then show "web_socket_util_parse_req_line (s @ t) = Reject"
    using req_line_extend [of s _ t] by (cases "memchr s 10") (auto simp: web_socket_util_parse_req_line_def)
qed

lemma headers_loop_bound:
  "parse_headers_loop data consumed parsed = Message v n \<Longrightarrow> consumed < n \<and> n \<le> consumed + length data"
proof (induction data consumed parsed rule: parse_headers_loop.induct)
  case (1 data consumed parsed)
  from 1(2) obtain e where e: "memchr data 10 = Some e"
    by (cases "memchr data 10") (auto simp: parse_headers_loop.simps [of data])
  show ?case
  proof (cases "(data ! 0 = 13 \<and> data ! 1 = 10) \<or> data ! 0 = 10")
    case True
    then show ?thesis using 1(2) e memchr_less [OF e] by (auto simp: parse_headers_loop.simps [of data])
  next
    case False
    then obtain name "value" where nv: "parse_header_line (take (e + 1) data) = Some (name, value)"
      "parse_headers_loop (drop (e + 1) data) (consumed + (e + 1)) (headers_insert parsed name value) = Message v n"
      using 1(2) e by (auto simp: parse_headers_loop.simps [of data] split: option.splits)
    then have "consumed + (e + 1) < n \<and> n \<le> consumed + (e + 1) + length (drop (e + 1) data)"
      using 1(1) [OF e refl False nv(1) refl] by simp
    then show ?thesis using memchr_less [OF e] by (simp only: length_drop) linarith
  qed
qed

lemma headers_loop_extend:
  "parse_headers_loop data consumed parsed \<noteq> Want_more \<Longrightarrow>
   parse_headers_loop (data @ t) consumed parsed = parse_headers_loop data consumed parsed"
proof (induction data consumed parsed rule: parse_headers_loop.induct)
  case (1 data consumed parsed)
  then obtain e where e: "memchr data 10 = Some e"
    by (cases "memchr data 10") (auto simp: parse_headers_loop.simps [of data])
  have len: "e < length data" using memchr_less [OF e] .
  have last: "data ! 0 = 10 \<or> 1 < length data"
    using e len by (cases e) (auto simp: memchr_Some_iff)
  have first: "(data @ t) ! 0 = data ! 0" "data ! 0 \<noteq> 10 \<Longrightarrow> (data @ t) ! 1 = data ! 1"
    using last len by (auto simp: nth_append)
  show ?case
  proof (cases "(data ! 0 = 13 \<and> data ! 1 = 10) \<or> data ! 0 = 10")
    case True
    then show ?thesis
      using e first memchr_extend [OF e, of t] by (auto simp: parse_headers_loop.simps [of data] parse_headers_loop.simps [of "data @ t"])
  next
    case False
    then have "parse_headers_loop (data @ t) consumed parsed =
      (case parse_header_line (take (e + 1) data) of None \<Rightarrow> Reject
       | Some (name, value) \<Rightarrow> parse_headers_loop (drop (e + 1) data @ t) (consumed + (e + 1)) (headers_insert parsed name value))"
      using first len memchr_extend [OF e, of t] by (subst parse_headers_loop.simps) (auto split: option.splits)
    moreover have "parse_headers_loop data consumed parsed =
      (case parse_header_line (take (e + 1) data) of None \<Rightarrow> Reject
       | Some (name, value) \<Rightarrow> parse_headers_loop (drop (e + 1) data) (consumed + (e + 1)) (headers_insert parsed name value))"
      using False e by (subst parse_headers_loop.simps) (auto split: option.splits)
    ultimately show ?thesis
      using 1(1) [OF e refl False] 1(2) by (auto split: option.splits)
  qed
qed

interpretation header_block: stream_parser web_socket_util_parse_headers
proof
  fix s t v n
  show "web_socket_util_parse_headers s = Message v n \<Longrightarrow> 0 < n \<and> n \<le> length s"
    using headers_loop_bound [of s 0 "[]" v n] by (simp add: web_socket_util_parse_headers_def)
  show "web_socket_util_parse_headers s = Message v n \<Longrightarrow> web_socket_util_parse_headers (s @ t) = Message v n"
    using headers_loop_extend [of s 0 "[]" t] by (simp add: web_socket_util_parse_headers_def)
next
  fix s t
  show "web_socket_util_parse_headers s = Reject \<Longrightarrow> web_socket_util_parse_headers (s @ t) = Reject"
    using headers_loop_extend [of s 0 "[]" t] by (simp add: web_socket_util_parse_headers_def)
qed

section \<open>The table of headers\<close>

lemma headers_lookup_insert:
  "headers_lookup (headers_insert h k v) k' = (if str_case_equal k k' then Some v else headers_lookup h k')"
  by (induction h k v rule: headers_insert.induct) (auto simp: str_case_equal_def)

lemma str_case_hash_equal: "str_case_equal a b \<Longrightarrow> str_case_hash a = str_case_hash b"
proof -
  have "foldl (\<lambda>h b. push_bit 5 h + h + scast (to_lower b)) h v =
    foldl (\<lambda>h b. push_bit 5 h + h + scast b) h (map to_lower v)" for v and h :: "32 word"
    by (induction v arbitrary: h) auto
  then show "str_case_equal a b \<Longrightarrow> str_case_hash a = str_case_hash b"
    by (simp add: str_case_hash_def str_case_equal_def)
qed

section \<open>Headers are read as they are printed\<close>

definition print_header :: "bytes \<times> bytes \<Rightarrow> bytes" where
  "print_header = (\<lambda>(name, value). name @ [58, 32] @ value @ [13, 10])"

definition header_ok :: "bytes \<times> bytes \<Rightarrow> bool" where
  "header_ok = (\<lambda>(name, value).
     list_all (\<lambda>b. 32 < b \<and> b < 127 \<and> b \<noteq> 58) name \<and> g_utf8_validate value \<and> 10 \<notin> set value \<and> g_strstrip value = value)"

lemma strstrip_pad: "g_strstrip (32 # v @ [13, 10]) = g_strstrip v"
proof (cases "\<forall>b\<in>set v. g_ascii_isspace b")
  case True
  moreover have blanks: "g_ascii_isspace 32" "g_ascii_isspace 13" "g_ascii_isspace 10" by (simp_all add: g_ascii_isspace_def)
  ultimately have "dropWhile g_ascii_isspace v = []" "dropWhile g_ascii_isspace (32 # v @ [13, 10]) = []"
    by (simp_all add: dropWhile_eq_Nil_conv)
  then show ?thesis unfolding g_strstrip_def by (simp only: rev.simps dropWhile.simps)
next
  case False
  then have "dropWhile g_ascii_isspace (v @ [13, 10]) = dropWhile g_ascii_isspace v @ [13, 10]"
    by (auto simp: dropWhile_append)
  then show ?thesis by (simp add: g_strstrip_def) (simp add: g_ascii_isspace_def)
qed

lemma strstrip_plain: "\<forall>b\<in>set s. \<not> g_ascii_isspace b \<Longrightarrow> g_strstrip s = s"
proof -
  assume s: "\<forall>b\<in>set s. \<not> g_ascii_isspace b"
  have "dropWhile g_ascii_isspace t = t" if "\<forall>b\<in>set t. \<not> g_ascii_isspace b" for t
    using that by (cases t) auto
  from this [of s] this [of "rev s"] show ?thesis using s by (simp add: g_strstrip_def)
qed

lemma name_chars:
  assumes "list_all (\<lambda>b. 32 < b \<and> b < 127 \<and> b \<noteq> 58) name" "b \<in> set name"
  shows "b \<noteq> 58" "b \<noteq> 10" "b \<noteq> 0" "b \<noteq> 13" "\<not> g_ascii_isspace b" "\<not> b < 32" "b AND 0x80 = 0"
proof -
  have b: "32 < b" "b < 127" "b \<noteq> 58" using assms by (auto simp: list_all_iff)
  then have "b < 0x80" by (simp add: word_less_nat_alt)
  then show "b AND 0x80 = 0" by (rule ascii_high_bit)
  show "b \<noteq> 58" "b \<noteq> 10" "b \<noteq> 0" "b \<noteq> 13" "\<not> g_ascii_isspace b" "\<not> b < 32"
    using b by (auto simp: g_ascii_isspace_def word_less_nat_alt)
qed

lemma parse_header_line_print:
  assumes "header_ok h"
  shows "parse_header_line (print_header h) = Some h"
proof -
  obtain name "value" where h: "h = (name, value)" by fastforce
  have name: "list_all (\<lambda>b. 32 < b \<and> b < 127 \<and> b \<noteq> 58) name" and v: "g_utf8_validate value" "g_strstrip value = value"
    using assms by (auto simp: h header_ok_def)
  have colon: "memchr (print_header h) 58 = Some (length name)"
    using name_chars(1) [OF name] by (auto simp: print_header_def h intro!: memchr_notin)
  have "0 \<notin> set name" using name_chars(3) [OF name] by blast
  then have "cstr name = name" "g_strstrip name = name" "is_valid_line name"
    using name_chars [OF name] by (auto simp: strstrip_plain is_valid_line_def list_all_iff)
  moreover have "cstr (32 # value @ [13, 10]) = 32 # value @ [13, 10]"
    using validate_no_nul [OF v(1)] by simp
  ultimately show ?thesis
    using colon v strstrip_pad [of "value"] by (simp add: parse_header_line_def) (simp add: print_header_def h)
qed

lemma print_header_newline:
  assumes "header_ok h"
  shows "memchr (print_header h @ r) 10 = Some (length (print_header h) - 1)"
    and "(print_header h @ r) ! 0 \<noteq> 10" "(print_header h @ r) ! 0 \<noteq> 13"
proof -
  obtain name "value" where h: "h = (name, value)" by fastforce
  have name: "list_all (\<lambda>b. 32 < b \<and> b < 127 \<and> b \<noteq> 58) name" and v: "10 \<notin> set value"
    using assms by (auto simp: h header_ok_def)
  have "10 \<notin> set (name @ [58, 32] @ value @ [13])" using v name_chars(2) [OF name] by auto
  then show "memchr (print_header h @ r) 10 = Some (length (print_header h) - 1)"
    using memchr_notin [of 10 "name @ [58, 32] @ value @ [13]" r] by (simp add: print_header_def h)
  show "(print_header h @ r) ! 0 \<noteq> 10" "(print_header h @ r) ! 0 \<noteq> 13"
    using name_chars [OF name] by (cases name; auto simp: print_header_def h)+
qed

lemma headers_insert_new:
  "map to_lower k \<notin> set (map (map to_lower \<circ> fst) h) \<Longrightarrow> headers_insert h k v = h @ [(k, v)]"
  by (induction h k v rule: headers_insert.induct) (auto simp: str_case_equal_def)

lemma headers_loop_print:
  assumes "list_all header_ok hs" "distinct (map (map to_lower \<circ> fst) (parsed @ hs))"
  shows "parse_headers_loop (concat (map print_header hs) @ [13, 10] @ r) consumed parsed =
    Message (parsed @ hs) (consumed + length (concat (map print_header hs)) + 2)"
  using assms
proof (induction hs arbitrary: consumed parsed)
  case Nil
  then show ?case by (subst parse_headers_loop.simps) simp
next
  case (Cons h hs)
  obtain name "value" where h: "h = (name, value)" by fastforce
  have ok: "header_ok h" using Cons.prems(1) by simp
  have pos: "0 < length (print_header h)" by (simp add: h print_header_def)
  have "map to_lower name \<notin> set (map (map to_lower \<circ> fst) parsed)" using Cons.prems(2) by (simp add: h)
  then have ins: "headers_insert parsed name value = parsed @ [h]" by (simp add: headers_insert_new h)
  have "parse_headers_loop (print_header h @ concat (map print_header hs) @ [13, 10] @ r) consumed parsed =
    parse_headers_loop (concat (map print_header hs) @ [13, 10] @ r) (consumed + length (print_header h)) (parsed @ [h])"
    using print_header_newline [OF ok] parse_header_line_print [OF ok] pos ins
    by (subst parse_headers_loop.simps) (simp add: h)
  then show ?case
    using Cons.IH [of "parsed @ [h]" "consumed + length (print_header h)"] Cons.prems by simp
qed

lemma headers_printed:
  assumes "list_all header_ok hs" "distinct (map (map to_lower \<circ> fst) hs)"
  shows "web_socket_util_parse_headers (concat (map print_header hs) @ [13, 10] @ r) =
    Message hs (length (concat (map print_header hs)) + 2)"
  using headers_loop_print [of hs "[]" r 0] assms by (simp add: web_socket_util_parse_headers_def)

text \<open>A block of headers with distinct names, printed one per line and ended by an empty line, is read as the
  table of exactly these headers, and exactly these bytes are used, whatever follows.\<close>

theorem parse_headers_printed:
  assumes "list_all header_ok hs" "distinct (map (map to_lower \<circ> fst) hs)"
  shows "web_socket_util_parse_headers (concat (map print_header hs) @ [13, 10] @ r) =
    Message hs (length (concat (map print_header hs)) + 2)"
  using assms by (rule headers_printed)

theorem parse_headers_printed_witness:
  "web_socket_util_parse_headers (concat (map print_header [(asc ''Host'', asc ''a:1''), (asc ''X'', [])]) @ [13, 10] @ [7]) =
    Message [(asc ''Host'', asc ''a:1''), (asc ''X'', [])] 18"
proof -
  have "g_utf8_validate [97, 58, 49]" by (rule validate_ascii) simp
  then have "list_all header_ok [(asc ''Host'', asc ''a:1''), (asc ''X'', [])]"
    by (simp add: header_ok_def g_strstrip_def g_ascii_isspace_def)
  then show ?thesis
    using parse_headers_printed [of "[(asc ''Host'', asc ''a:1''), (asc ''X'', [])]" "[7]"]
    by (simp add: print_header_def to_lower_def is_upper_def)
qed

section \<open>Request lines are read as they are printed\<close>

abbreviation visible :: "bytes \<Rightarrow> bool" where
  "visible s \<equiv> list_all (\<lambda>b. 32 < b \<and> b < 127) s"

lemma visible_chars: "visible s \<Longrightarrow> b \<in> set s \<Longrightarrow> b \<noteq> 0 \<and> b \<noteq> 10 \<and> b \<noteq> 32 \<and> \<not> b < 32 \<and> b AND 0x80 = 0"
proof -
  assume "visible s" "b \<in> set s"
  then have b: "32 < b" "b < 127" by (auto simp: list_all_iff)
  then have "b < 0x80" by (simp add: word_less_nat_alt)
  then show ?thesis using b ascii_high_bit [of b] by (auto simp: word_less_nat_alt)
qed

lemma visible_valid: "visible s \<Longrightarrow> is_valid_line s" "visible s \<Longrightarrow> cstr s = s"
proof -
  assume s: "visible s"
  then have "0 \<notin> set s" using visible_chars by blast
  then show "cstr s = s" by simp
  show "is_valid_line s" using visible_chars [OF s] by (auto simp: is_valid_line_def list_all_iff)
qed

lemma valid_line_take: "is_valid_line s \<Longrightarrow> is_valid_line (take n s)"
  by (auto simp: is_valid_line_def list_all_iff dest: in_set_takeD)

lemma req_line_printed:
  assumes "visible meth" "meth \<noteq> []" "visible path" "path \<noteq> []"
    and "version = asc ''HTTP/1.0'' \<or> version = asc ''HTTP/1.1''"
  shows "web_socket_util_parse_req_line (meth @ [32] @ path @ [32] @ version @ [13, 10] @ r) =
    Message (meth, path) (length meth + length path + 12)"
proof -
  define line where "line = meth @ [32] @ path @ [32] @ version @ [13]"
  have ver: "length version = 8" "10 \<notin> set version" "parse_version (version @ [13]) = 8" "strskip (version @ [13]) 32 = version @ [13]"
    using assms(5) by (auto simp: parse_version_def strskip_def)
  have "10 \<notin> set line"
    using visible_chars [OF assms(1)] visible_chars [OF assms(3)] ver(2) by (auto simp: line_def)
  then have nl: "memchr (line @ 10 # r) 10 = Some (length line)" by (rule memchr_notin)
  have m: "memchr line 32 = Some (length meth)" and p: "memchr (path @ [32] @ version @ [13]) 32 = Some (length path)"
    using visible_chars [OF assms(1)] visible_chars [OF assms(3)] by (auto simp: line_def intro!: memchr_notin)
  have skip: "strskip (path @ [32] @ version @ [13]) 32 = path @ [32] @ version @ [13]"
    using visible_chars [OF assms(3)] assms(4) by (cases path) (auto simp: strskip_def)
  have first: "(line @ 10 # r) ! 0 \<noteq> 32"
    using visible_chars [OF assms(1)] assms(2) by (cases meth) (auto simp: line_def)
  have "is_valid_line (meth @ [32] @ path)"
    using visible_valid(1) [OF assms(1)] visible_valid(1) [OF assms(3)] by (simp add: is_valid_line_def)
  then have "is_valid_line (take (length path) (meth @ [32] @ path))" by (rule valid_line_take)
  moreover have "take (length path) line = take (length path) (meth @ [32] @ path)" by (simp add: line_def take_Cons')
  ultimately have valid: "is_valid_line (take (length path) line)" by simp
  have "web_socket_util_parse_req_line (line @ 10 # r) = Message (meth, path) (length line + 1)"
    using nl first m p skip ver valid visible_valid [OF assms(1)] visible_valid [OF assms(3)]
    by (simp add: web_socket_util_parse_req_line_def) (simp add: line_def)
  then show ?thesis by (simp add: line_def ver)
qed

text \<open>The request line made of a method, a path and a version is read as this method and path, and exactly the line is
  used.\<close>

theorem parse_req_line_printed:
  assumes "visible meth" "meth \<noteq> []" "visible path" "path \<noteq> []"
    and "version = asc ''HTTP/1.0'' \<or> version = asc ''HTTP/1.1''"
  shows "web_socket_util_parse_req_line (meth @ [32] @ path @ [32] @ version @ [13, 10] @ r) =
    Message (meth, path) (length meth + length path + 12)"
  using assms by (rule req_line_printed)

theorem parse_req_line_printed_witness:
  "web_socket_util_parse_req_line (asc ''GET'' @ [32] @ asc ''/x'' @ [32] @ asc ''HTTP/1.1'' @ [13, 10] @ [7]) =
    Message (asc ''GET'', asc ''/x'') 17"
  using parse_req_line_printed [of "asc ''GET''" "asc ''/x''" "asc ''HTTP/1.1''" "[7]"] by simp

section \<open>URLs\<close>

text \<open>The parts of a URL: scheme, an optional user part that is left out, host and path; without a path, the path is the
  root.\<close>

theorem parse_url_parts:
  assumes "58 \<notin> set scheme" "47 \<notin> set user" "64 \<notin> set user" "host \<noteq> []" "47 \<notin> set host" "64 \<notin> set host"
    and "path = [] \<or> hd path = 47"
    and "userinfo = [] \<or> userinfo = user @ [64]"
  shows "web_socket_util_parse_url (scheme @ [58, 47, 47] @ userinfo @ host @ path) =
    Url_ok (scheme, host, if path = [] then [47] else path)"
proof -
  have colon: "memchr (scheme @ [58, 47, 47] @ userinfo @ host @ path) 58 = Some (length scheme)"
    using assms(1) by (simp add: memchr_notin)
  have c12: "char_at (scheme @ [58, 47, 47] @ x) (length scheme + 1) = Some 47" "char_at (scheme @ [58, 47, 47] @ x) (length scheme + 2) = Some 47" for x
    by (simp_all add: char_at_def nth_append)
  have front: "47 \<notin> set (userinfo @ host)" using assms by auto
  have slash: "memchr (userinfo @ host @ path) 47 = (if path = [] then None else Some (length userinfo + length host))"
    using memchr_notin [OF front, of "tl path"] memchr_None_iff [of "userinfo @ host" 47] front assms(7) by (cases path) auto
  have at_sign: "case memchr (userinfo @ host @ path) 64 of
      Some h \<Rightarrow> if userinfo = [] then length host \<le> h \<and> path \<noteq> [] else h + 1 = length userinfo
    | None \<Rightarrow> userinfo = []"
  proof (cases "userinfo = []")
    case True
    then show ?thesis
      using assms(6) by (auto simp: memchr_append memchr_None_iff [THEN iffD2] split: option.splits)
  next
    case False
    then show ?thesis using assms(3,8) memchr_notin [of 64 user "host @ path"] by simp
  qed
  show ?thesis
    using colon c12 slash at_sign assms(4)
    by (cases "userinfo = []") (auto simp: web_socket_util_parse_url_def Let_def split: option.splits if_splits)
qed

theorem parse_url_parts_witness:
  "web_socket_util_parse_url (asc ''ws'' @ [58, 47, 47] @ (asc ''me'' @ [64]) @ asc ''host'' @ asc ''/a@b'') =
    Url_ok (asc ''ws'', asc ''host'', asc ''/a@b'')"
  using parse_url_parts [of "asc ''ws''" "asc ''me''" "asc ''host''" "asc ''/a@b''" "asc ''me'' @ [64]"] by simp

section \<open>Where the parsers differ from their intention\<close>

text \<open>A URL without two slashes is accepted when one of the two characters is a slash; a URL that ends at or right after the colon is read
  behind its end; a status line whose number is missing is completed from the next line, behind the end of the line;
  a control character near the end of the path is not noticed, because the check looks at the beginning of the
  line.\<close>

theorem http_parse_flaws:
  "web_socket_util_parse_url (asc ''ws:x/host'') = Url_ok (asc ''ws'', asc ''host'', asc ''/'') \<and>
   web_socket_util_parse_url (asc ''ws:'') = Url_undefined \<and>
   web_socket_util_parse_url (asc ''ws:/'') = Url_undefined \<and>
   web_socket_util_parse_status_line (asc ''HTTP/1.1 '' @ [9, 32, 10] @ asc ''200 OK'') = Status_undefined \<and>
   web_socket_util_parse_req_line (asc ''GET /ab'' @ [1] @ asc '' HTTP/1.1'' @ [10]) = Message (asc ''GET'', asc ''/ab'' @ [1]) 18"
  by (simp add: web_socket_util_parse_url_def char_at_def web_socket_util_parse_status_line_def parse_version_def
      g_ascii_strtoull_def is_space_def is_digit_def dec_value_def web_socket_util_parse_req_line_def strskip_def is_valid_line_def
      cstr_def)

end
