(* ===== verification/WebSocketFrame.thy ===== *)
theory WebSocketFrame
  imports Interfaces Unicode
begin

unbundle bit_operations_syntax

text \<open>
  The wire format of \<^verbatim>\<open>src/websocket/websocketconnection.c\<close>: masking, the frame that
  \<^verbatim>\<open>send_prefixed_message_rfc6455\<close> builds and the header that \<^verbatim>\<open>process_frame_rfc6455\<close> reads, with
  64-bit lengths.  The connection that sends and receives these frames is in \<open>WebSocketConnection\<close>.
\<close>

section \<open>Masking\<close>

definition xor_with_mask_rfc6455 :: "bytes \<Rightarrow> bytes \<Rightarrow> bytes" where
  "xor_with_mask_rfc6455 key data = map (\<lambda>(n, b). b XOR key ! (n AND 3)) (enumerate 0 data)"

section \<open>Building a frame\<close>

text \<open>The header before a mask is added: final bit and opcode, then the length in 7, 16 or 64 bits.\<close>

definition header_rfc6455 :: "byte \<Rightarrow> 64 word \<Rightarrow> bytes" where
  "header_rfc6455 opcode sz =
     (0x80 OR opcode) #
     (if sz < 126 then [ucast (0xff AND sz)]
      else if sz < 65536 then [126, ucast (drop_bit 8 sz AND 0xff), ucast (drop_bit 0 sz AND 0xff)]
      else [127,
            ucast (drop_bit 56 sz AND 0xff), ucast (drop_bit 48 sz AND 0xff),
            ucast (drop_bit 40 sz AND 0xff), ucast (drop_bit 32 sz AND 0xff),
            ucast (drop_bit 24 sz AND 0xff), ucast (drop_bit 16 sz AND 0xff),
            ucast (drop_bit 8 sz AND 0xff), ucast (drop_bit 0 sz AND 0xff)])"

text \<open>What is left of prefix and payload in a control frame, and the buffered amount to account for.\<close>

definition control_truncate :: "byte \<Rightarrow> bytes \<Rightarrow> bytes \<Rightarrow> bytes \<times> bytes \<times> nat" where
  "control_truncate opcode prefix payload =
     (let len = length payload + length prefix in
      if opcode AND 0x08 \<noteq> 0 then
        (if len > 125 then
           let prefix_len = (if length prefix > 125 then 125 else length prefix);
               payload_len = 125 - prefix_len
           in (take prefix_len prefix, take payload_len payload, 0)
         else (prefix, payload, 0))
      else (prefix, payload, len))"

text \<open>The frame: \<open>key\<close> is \<^term>\<open>None\<close> on the server side and the four random bytes on the client side.\<close>

definition build_frame_rfc6455 :: "bytes option \<Rightarrow> byte \<Rightarrow> bytes \<Rightarrow> bytes \<Rightarrow> bytes" where
  "build_frame_rfc6455 key opcode prefix payload =
     (case control_truncate opcode prefix payload of (prefix', payload', _) \<Rightarrow>
        let outer = header_rfc6455 opcode (of_nat (length prefix' + length payload')) in
        case key of
          None \<Rightarrow> outer @ prefix' @ payload'
        | Some m \<Rightarrow> outer[1 := outer ! 1 OR 0x80] @ m @ xor_with_mask_rfc6455 m (prefix' @ payload'))"

section \<open>Reading a frame\<close>

definition MAX_PAYLOAD :: "64 word" where
  "MAX_PAYLOAD = 128 * 1024"

text \<open>The offset of the byte after the length field, and the length; \<^term>\<open>None\<close> when the field is not complete.\<close>

definition payload_len_rfc6455 :: "bytes \<Rightarrow> (nat \<times> 64 word) option" where
  "payload_len_rfc6455 header =
     (let b = (\<lambda>i. ucast (header ! i) :: 64 word); l7 = header ! 1 AND 0x7f in
      if l7 = 126 then
        (if length header < 4 then None
         else Some (4, push_bit 8 (b 2) OR push_bit 0 (b 3)))
      else if l7 = 127 then
        (if length header < 10 then None
         else Some (10, push_bit 56 (b 2) OR push_bit 48 (b 3) OR push_bit 40 (b 4) OR push_bit 32 (b 5) OR
                        push_bit 24 (b 6) OR push_bit 16 (b 7) OR push_bit 8 (b 8) OR push_bit 0 (b 9)))
      else Some (2, ucast l7))"

text \<open>The part of \<^verbatim>\<open>process_frame_rfc6455\<close> before the contents are looked at: final bit, control bit,
  opcode and unmasked payload of the first frame of the input, with the number of bytes it takes.
  \<^const>\<open>Reject\<close> is the safety valve on large frames.\<close>

definition parse_frame_rfc6455 :: "bytes \<Rightarrow> (bool \<times> bool \<times> byte \<times> bytes) parse" where
  "parse_frame_rfc6455 incoming =
     (let len = length incoming in
      if len < 2 then Want_more
      else
        let fin = (incoming ! 0 AND 0x80 \<noteq> 0);
            control = (incoming ! 0 AND 0x08 \<noteq> 0);
            opcode = incoming ! 0 AND 0x0f;
            masked = (incoming ! 1 AND 0x80 \<noteq> 0)
        in
        case payload_len_rfc6455 incoming of
          None \<Rightarrow> Want_more
        | Some (at_, payload_len) \<Rightarrow>
            if payload_len \<ge> MAX_PAYLOAD then Reject
            else if len < at_ + unat payload_len then Want_more
            else if masked then
              (if len < at_ + 4 + unat payload_len then Want_more
               else Message (fin, control, opcode,
                       xor_with_mask_rfc6455 (take 4 (drop at_ incoming)) (take (unat payload_len) (drop (at_ + 4) incoming)))
                      (at_ + 4 + unat payload_len))
            else Message (fin, control, opcode, take (unat payload_len) (drop at_ incoming)) (at_ + unat payload_len))"

section \<open>Masking is an involution\<close>

lemma and_3_less: "(n::nat) AND 3 < 4"
proof -
  have "n AND 3 = n mod 4"
    using take_bit_eq_mask [of 2 n] by (simp add: take_bit_eq_mod mask_eq_exp_minus_1)
  then show ?thesis by simp
qed

lemma length_xor_with_mask [simp]: "length (xor_with_mask_rfc6455 m d) = length d"
  by (simp add: xor_with_mask_rfc6455_def)

lemma nth_xor_with_mask: "i < length d \<Longrightarrow> xor_with_mask_rfc6455 m d ! i = d ! i XOR m ! (i AND 3)"
  by (simp add: xor_with_mask_rfc6455_def nth_enumerate_eq)

lemma xor_with_mask_self [simp]: "xor_with_mask_rfc6455 m (xor_with_mask_rfc6455 m d) = d"
  by (rule nth_equalityI) (simp_all add: nth_xor_with_mask xor.assoc)

section \<open>Length fields\<close>

lemma and_ff: "x AND 0xff = take_bit 8 x" for x :: "64 word"
  using take_bit_eq_mask [of 8 x] by (simp add: mask_eq_exp_minus_1)

lemma byte_at: "ucast (ucast (drop_bit k sz AND 0xff) :: byte) = take_bit 8 (drop_bit k sz)" for sz :: "64 word"
  unfolding and_ff by (rule bit_word_eqI) (auto simp: bit_simps)

lemma join_bits: "push_bit k (take_bit 8 (drop_bit k sz)) OR take_bit k sz = take_bit (k + 8) sz" for sz :: "64 word"
  by (rule bit_word_eqI) (auto simp: bit_simps)

text \<open>The big-endian bytes of a length, put together again.\<close>

lemma be16:
  "push_bit 8 (ucast (ucast (drop_bit 8 sz AND 0xff) :: byte)) OR push_bit 0 (ucast (ucast (drop_bit 0 sz AND 0xff) :: byte)) =
   take_bit 16 (sz :: 64 word)"
  unfolding byte_at using join_bits [of 8 sz] by simp

lemma be64:
  "push_bit 56 (ucast (ucast (drop_bit 56 sz AND 0xff) :: byte)) OR push_bit 48 (ucast (ucast (drop_bit 48 sz AND 0xff) :: byte)) OR
   push_bit 40 (ucast (ucast (drop_bit 40 sz AND 0xff) :: byte)) OR push_bit 32 (ucast (ucast (drop_bit 32 sz AND 0xff) :: byte)) OR
   push_bit 24 (ucast (ucast (drop_bit 24 sz AND 0xff) :: byte)) OR push_bit 16 (ucast (ucast (drop_bit 16 sz AND 0xff) :: byte)) OR
   push_bit 8 (ucast (ucast (drop_bit 8 sz AND 0xff) :: byte)) OR push_bit 0 (ucast (ucast (drop_bit 0 sz AND 0xff) :: byte)) = (sz :: 64 word)"
  unfolding byte_at
  using join_bits [of 8 sz] join_bits [of 16 sz] join_bits [of 24 sz] join_bits [of 32 sz] join_bits [of 40 sz] join_bits [of 48 sz] join_bits [of 56 sz]
  by (simp add: take_bit_word_eq_self)

lemma nibble: "op < 16 \<Longrightarrow> (0x80 OR op) AND 0x0f = op" for op :: byte
  using less_mask_eq [of op 4] by (simp add: mask_eq_exp_minus_1 bit.conj_disj_distrib2)

lemma fin_bit: "(0x80 OR op) AND 0x80 \<noteq> 0" for op :: byte
  by (simp add: bit.conj_disj_distrib2)

lemma control_bit: "(0x80 OR op) AND 0x08 = op AND 0x08" for op :: byte
  by (simp add: bit.conj_disj_distrib2)

lemma len7: "(0x80 OR b) AND 0x7f = b" "b AND 0x7f = b" "b AND 0x80 = 0" if "b < 0x80" for b :: byte
  using less_mask_eq [of b 7] that ascii_high_bit [of b] by (simp_all add: mask_eq_exp_minus_1 bit.conj_disj_distrib2)

section \<open>Laws of the parser\<close>

lemma payload_len_extend:
  "2 \<le> length s \<Longrightarrow> payload_len_rfc6455 s = Some x \<Longrightarrow> payload_len_rfc6455 (s @ t) = Some x"
  by (auto simp: payload_len_rfc6455_def Let_def nth_append split: if_splits)

lemma payload_len_at: "payload_len_rfc6455 s = Some (k, n) \<Longrightarrow> 2 \<le> k \<and> k \<le> 10"
  by (auto simp: payload_len_rfc6455_def Let_def split: if_splits)

lemma parse_frame_bound: "parse_frame_rfc6455 s = Message v n \<Longrightarrow> 0 < n \<and> n \<le> length s"
  by (auto simp: parse_frame_rfc6455_def Let_def dest!: payload_len_at split: if_splits option.splits prod.splits)

lemma parse_frame_extend:
  assumes "parse_frame_rfc6455 s = Message v n"
  shows "parse_frame_rfc6455 (s @ t) = Message v n"
proof -
  have l: "2 \<le> length s" using assms by (auto simp: parse_frame_rfc6455_def Let_def split: if_splits)
  then obtain k p where kp: "payload_len_rfc6455 s = Some (k, p)"
    using assms by (auto simp: parse_frame_rfc6455_def Let_def split: if_splits option.splits)
  then show ?thesis
    using assms l payload_len_extend [OF l kp, of t]
    by (auto simp: parse_frame_rfc6455_def Let_def nth_append split: if_splits)
qed

lemma parse_frame_reject_extend:
  assumes "parse_frame_rfc6455 s = Reject"
  shows "parse_frame_rfc6455 (s @ t) = Reject"
proof -
  have l: "2 \<le> length s" using assms by (auto simp: parse_frame_rfc6455_def Let_def split: if_splits)
  then obtain k p where kp: "payload_len_rfc6455 s = Some (k, p)"
    using assms by (auto simp: parse_frame_rfc6455_def Let_def split: if_splits option.splits)
  then show ?thesis
    using assms l payload_len_extend [OF l kp, of t]
    by (auto simp: parse_frame_rfc6455_def Let_def split: if_splits)
qed

interpretation ws_frames: stream_parser parse_frame_rfc6455
  using parse_frame_bound parse_frame_extend parse_frame_reject_extend by unfold_locales blast+

text \<open>No frame that is accepted has a payload of 128 KiB or more.\<close>

lemma nibble_less: "b AND 0x0f < 16" for b :: byte
  using word_and_le1 [of b "0x0f"] by (simp add: word_le_nat_alt word_less_nat_alt)

lemma nibble_control: "(b AND 0x0f) AND 0x08 = b AND 0x08" for b :: byte
  by (simp add: and.assoc)

lemma parse_frame_payload:
  "parse_frame_rfc6455 s = Message (fin, control, opcode, payload) n \<Longrightarrow>
   length payload < 131072 \<and> opcode < 16 \<and> (control \<longleftrightarrow> opcode AND 0x08 \<noteq> 0)"
  by (auto simp: parse_frame_rfc6455_def Let_def nibble_less [unfolded word_less_nat_alt, simplified] nibble_control MAX_PAYLOAD_def not_le word_less_nat_alt
      split: if_splits option.splits prod.splits)

section \<open>Frames are read as they were built\<close>

text \<open>The payload a frame carries: all of it, except that a control frame has at most 125 bytes.\<close>

definition frame_contents :: "byte \<Rightarrow> bytes \<Rightarrow> bytes" where
  "frame_contents opcode data = (if opcode AND 0x08 \<noteq> 0 then take 125 data else data)"

lemma control_truncate_contents:
  "control_truncate opcode prefix payload = (p, q, a) \<Longrightarrow> p @ q = frame_contents opcode (prefix @ payload)"
  by (auto simp: control_truncate_def frame_contents_def Let_def split: if_splits)

lemma frame_contents_length: "length (frame_contents opcode d) \<le> length d"
  by (simp add: frame_contents_def)

lemma ucast_len7:
  fixes sz :: "64 word"
  assumes "sz < 126"
  shows "ucast (0xff AND sz) = (ucast sz :: byte)" "ucast (ucast sz :: byte) = sz" "(ucast sz :: byte) < 126"
proof -
  have u: "unat (ucast sz :: byte) = unat sz" using assms by (simp add: unsigned_ucast_eq take_bit_eq_mod word_less_nat_alt)
  have "take_bit 8 sz = sz"
    using less_mask_eq [of sz 8] assms unfolding and_ff [symmetric] by (simp add: word_less_nat_alt mask_eq_exp_minus_1)
  then show "ucast (0xff AND sz) = (ucast sz :: byte)"
    using and_ff [of sz] by (simp add: and.commute)
  show "(ucast sz :: byte) < 126" using assms u by (simp add: word_less_nat_alt)
  have "ucast (ucast sz :: byte) = (of_nat (unat (ucast sz :: byte)) :: 64 word)" by simp
  also have "\<dots> = sz" unfolding u by simp
  finally show "ucast (ucast sz :: byte) = sz" .
qed

lemma byte_126: "b < 126 \<Longrightarrow> b < 0x80 \<and> b \<noteq> 126 \<and> b \<noteq> 127" for b :: byte
  by (auto simp: word_less_nat_alt)

lemma header_shape:
  assumes "h = header_rfc6455 opcode sz"
  shows "2 \<le> length h" "h ! 0 = 0x80 OR opcode" "h ! 1 < 0x80"
  using assms ucast_len7 [of sz] byte_126 [of "ucast sz"] by (auto simp: header_rfc6455_def split: if_splits)

lemma take_bit_16: "sz < 65536 \<Longrightarrow> take_bit 16 sz = sz" for sz :: "64 word"
  using less_mask_eq [of sz 16] take_bit_eq_mask [of 16 sz] by simp

lemma header_payload_len:
  assumes "h = header_rfc6455 opcode sz" "b = h ! 1 \<or> b = h ! 1 OR 0x80"
  shows "payload_len_rfc6455 (h[1 := b] @ r) = Some (length h, sz)"
proof -
  have b7: "b AND 0x7f = h ! 1"
    using assms(2) len7 [OF header_shape(3) [OF assms(1)]] by (auto simp: or.commute)
  consider "sz < 126" | "\<not> sz < 126" "sz < 65536" | "\<not> sz < 126" "\<not> sz < 65536" by blast
  then show ?thesis
  proof cases
    case 1
    then show ?thesis using assms(1) b7 ucast_len7 [of sz] byte_126 [of "ucast sz"]
      by (simp add: header_rfc6455_def payload_len_rfc6455_def)
  next
    case 2
    then show ?thesis using assms(1) b7 be16 [of sz] take_bit_16 [of sz]
      by (simp add: header_rfc6455_def payload_len_rfc6455_def)
  next
    case 3
    then show ?thesis using assms(1) b7 be64 [of sz]
      by (simp add: header_rfc6455_def payload_len_rfc6455_def)
  qed
qed

lemma parse_build_frame:
  assumes "opcode < 16" "length (frame_contents opcode (prefix @ payload)) < 131072" "case key of None \<Rightarrow> True | Some k \<Rightarrow> length k = 4"
  defines "f \<equiv> build_frame_rfc6455 key opcode prefix payload"
  shows "parse_frame_rfc6455 (f @ r) =
     Message (True, opcode AND 0x08 \<noteq> 0, opcode, frame_contents opcode (prefix @ payload)) (length f)"
proof -
  obtain p q a where t: "control_truncate opcode prefix payload = (p, q, a)" by (metis prod_cases3)
  define d where "d = p @ q"
  have d: "d = frame_contents opcode (prefix @ payload)" using control_truncate_contents [OF t] d_def by simp
  define h where "h = header_rfc6455 opcode (of_nat (length d))"
  have ne: "h \<noteq> []" using header_shape(1) [OF h_def] by auto
  note sh = header_shape [OF h_def] len7 [OF header_shape(3) [OF h_def]]
  have n: "unat (of_nat (length d) :: 64 word) = length d" using assms(2) d by (simp add: unat_of_nat)
  then have small: "\<not> MAX_PAYLOAD \<le> of_nat (length d)"
    using assms(2) d by (simp add: MAX_PAYLOAD_def word_le_nat_alt)
  show ?thesis
  proof (cases key)
    case None
    then have f: "f = h[1 := h ! 1] @ d" using t by (simp add: f_def build_frame_rfc6455_def h_def d_def)
    show ?thesis
      using header_payload_len [OF h_def, of "h ! 1" "d @ r"] ne sh n small nibble [OF assms(1)] fin_bit [of opcode] control_bit [of opcode]
      unfolding f by (simp add: parse_frame_rfc6455_def nth_append d)
  next
    case (Some k)
    then have k: "length k = 4" using assms(3) by simp
    have f: "f = h[1 := h ! 1 OR 0x80] @ k @ xor_with_mask_rfc6455 k d"
      using t Some by (simp add: f_def build_frame_rfc6455_def h_def d_def Let_def)
    show ?thesis
      using header_payload_len [OF h_def, of "h ! 1 OR 0x80" "k @ xor_with_mask_rfc6455 k d @ r"]
        ne sh n small nibble [OF assms(1)] fin_bit [of opcode] control_bit [of opcode] k
      unfolding f by (simp add: parse_frame_rfc6455_def nth_append d bit.conj_disj_distrib2)
  qed
qed

text \<open>A message as the caller gives it, with the mask of its frame: mask, opcode, prefix and payload.\<close>

type_synonym ws_message = "bytes option \<times> byte \<times> bytes \<times> bytes"

definition frame_of :: "ws_message \<Rightarrow> bytes" where
  "frame_of = (\<lambda>(key, opcode, prefix, payload). build_frame_rfc6455 key opcode prefix payload)"

definition contents_of :: "ws_message \<Rightarrow> bool \<times> bool \<times> byte \<times> bytes" where
  "contents_of = (\<lambda>(key, opcode, prefix, payload). (True, opcode AND 0x08 \<noteq> 0, opcode, frame_contents opcode (prefix @ payload)))"

definition sendable :: "ws_message \<Rightarrow> bool" where
  "sendable = (\<lambda>(key, opcode, prefix, payload).
     (case key of None \<Rightarrow> True | Some k \<Rightarrow> length k = 4) \<and> opcode < 16 \<and> length (frame_contents opcode (prefix @ payload)) < 131072)"

lemma parse_frame_of: "sendable m \<Longrightarrow> parse_frame_rfc6455 (frame_of m @ r) = Message (contents_of m) (length (frame_of m))"
  by (auto simp: sendable_def frame_of_def contents_of_def intro!: parse_build_frame split: prod.splits)

text \<open>C25: the frames of any messages below 128 KiB, masked or not, text, binary and control frames mixed, are read back
  as exactly these messages in their order, with nothing left over, however the byte stream is cut into chunks on
  its way.\<close>

theorem web_socket_frames_delivered:
  assumes "\<forall>m\<in>set ms. sendable m"
    and "concat chunks = concat (map frame_of ms)"
  shows "foldl (feed parse_frame_rfc6455) ([], [], False) chunks = (map contents_of ms, [], False)"
proof -
  have empty: "parse_frame_rfc6455 [] = Want_more" by (simp add: parse_frame_rfc6455_def)
  then have "drain parse_frame_rfc6455 [] = ([], [], False)" by (subst drain.simps) simp
  then have "drain parse_frame_rfc6455 (concat (map frame_of ms)) = (map contents_of ms, [], False)"
    using ws_frames.drain_encoded [of ms frame_of contents_of "[]"] parse_frame_of assms(1) by simp
  then show ?thesis using ws_frames.feed_all [OF empty, of chunks] assms(2) by simp
qed

theorem web_socket_frames_delivered_witness:
  "foldl (feed parse_frame_rfc6455) ([], [], False) [[0x81, 0x82, 1], [2, 3, 4, 0x69, 0x6b, 0x89], [0]] =
     (map contents_of [(Some [1, 2, 3, 4], 1, [0x68], [0x69]), (None, 9, [], [])], [], False)"
  by (rule web_socket_frames_delivered)
     (simp_all add: sendable_def frame_of_def frame_contents_def build_frame_rfc6455_def control_truncate_def
       header_rfc6455_def xor_with_mask_rfc6455_def)

text \<open>No frame with a payload of 128 KiB or more is ever accepted, whatever length field it is announced with:
  payloads are bounded, the opcode is a nibble and its high bit is the control bit.\<close>

theorem web_socket_frame_bounds:
  assumes "parse_frame_rfc6455 s = Message (fin, control, opcode, payload) n"
  shows "length payload < 131072 \<and> opcode < 16 \<and> (control \<longleftrightarrow> opcode AND 0x08 \<noteq> 0) \<and> n \<le> length s \<and> length payload + 2 \<le> n"
proof -
  have "length payload + 2 \<le> n"
    using assms
    by (auto simp: parse_frame_rfc6455_def Let_def dest!: payload_len_at split: if_splits option.splits prod.splits)
  then show ?thesis using parse_frame_payload [OF assms] parse_frame_bound [OF assms] by simp
qed

theorem web_socket_frame_bounds_witness:
  "parse_frame_rfc6455 [0x81, 1, 0x69, 7] = Message (True, False, 1, [0x69]) 3 \<and> (3::nat) \<le> length [0x81 :: byte, 1, 0x69, 7]"
proof -
  have "parse_frame_rfc6455 [0x81, 1, 0x69, 7] = Message (True, False, 1, [0x69]) 3"
    by (simp add: parse_frame_rfc6455_def payload_len_rfc6455_def MAX_PAYLOAD_def word_le_nat_alt)
  then show ?thesis using web_socket_frame_bounds [of "[0x81, 1, 0x69, 7]" True False 1 "[0x69]" 3] by simp
qed

end
