(* ===== verification/WebSocketConnection.thy ===== *)
theory WebSocketConnection
  imports WebSocketFrame
begin

unbundle bit_operations_syntax

text \<open>
  \<^verbatim>\<open>src/websocket/websocketconnection.c\<close>: the web socket connection as a state machine.  Its state is
  the private structure; a callback of the main loop or a call of the public interface is a function on
  it.  Signals that are emitted are recorded in the order of their emission, what handlers do in
  response are later steps.  \<open>class_headers\<close> is the field in which the server class keeps the request headers it was
  given, and the client class the response headers.  Two fields are not in the source: the frames that went out
  completely, and the bytes given to the output stream.
\<close>

section \<open>State\<close>

datatype WebSocketState = CONNECTING | OPEN | CLOSING | CLOSED

text \<open>The states in the order in which a connection goes through them.\<close>

fun state_rank :: "WebSocketState \<Rightarrow> nat" where
  "state_rank CONNECTING = 0"
| "state_rank OPEN = 1"
| "state_rank CLOSING = 2"
| "state_rank CLOSED = 3"

instantiation WebSocketState :: linorder
begin

definition less_eq_WebSocketState :: "WebSocketState \<Rightarrow> WebSocketState \<Rightarrow> bool" where
  "a \<le> b \<longleftrightarrow> state_rank a \<le> state_rank b"

definition less_WebSocketState :: "WebSocketState \<Rightarrow> WebSocketState \<Rightarrow> bool" where
  "a < b \<longleftrightarrow> state_rank a < state_rank b"

instance
proof
  fix a b :: WebSocketState
  show "a \<le> b \<Longrightarrow> b \<le> a \<Longrightarrow> a = b"
    by (cases a; cases b) (simp_all add: less_eq_WebSocketState_def)
qed (auto simp: less_eq_WebSocketState_def less_WebSocketState_def)

end

datatype tls_error = TLS_NOT_TLS | TLS_MISC | TLS_BAD_CERTIFICATE | TLS_OTHER

text \<open>Errors by domain: \<^verbatim>\<open>WEB_SOCKET_ERROR\<close> with its code, \<^verbatim>\<open>G_TLS_ERROR\<close>, any other.\<close>

datatype ws_error = Web_socket_error "16 word" | Tls_error tls_error | Other_error

datatype ws_signal =
    Sig_open
  | Sig_message byte bytes
  | Sig_error ws_error
  | Sig_closing
  | Sig_close
  | Sig_pressure bool

record WsFrame =
  fr_data :: bytes
  fr_last :: bool
  fr_sent :: nat
  fr_amount :: nat

record WebSocketConnectionPrivate =
  server_side :: bool
  handshake_done :: bool
  peer_close_code :: "16 word"
  peer_close_data :: "bytes option"
  close_sent :: bool
  close_received :: bool
  dirty_close :: bool
  close_timeout :: bool
  start_idle :: bool
  io_stream :: bool
  io_open :: bool
  io_closed :: bool
  input_source :: bool
  incoming :: bytes
  output_source :: bool
  output_queued :: nat
  outgoing :: "WsFrame list"
  message_opcode :: byte
  message_data :: "bytes option"
  chosen_protocol :: "bytes option"
  class_headers :: "(bytes \<times> bytes) list option"
  g_random_int :: "nat \<Rightarrow> 32 word"
  random_count :: nat
  closing_handled :: bool
  signals :: "ws_signal list"
  sent_frames :: "bytes list"
  wire :: bytes

definition emit :: "ws_signal \<Rightarrow> WebSocketConnectionPrivate \<Rightarrow> WebSocketConnectionPrivate" where
  "emit s c = c\<lparr>signals := signals c @ [s]\<rparr>"

lemma emit_sel [simp]:
  "signals (emit s c) = signals c @ [s]"
  "server_side (emit s c) = server_side c"
  "handshake_done (emit s c) = handshake_done c"
  "peer_close_code (emit s c) = peer_close_code c"
  "peer_close_data (emit s c) = peer_close_data c"
  "close_sent (emit s c) = close_sent c"
  "close_received (emit s c) = close_received c"
  "dirty_close (emit s c) = dirty_close c"
  "close_timeout (emit s c) = close_timeout c"
  "start_idle (emit s c) = start_idle c"
  "io_stream (emit s c) = io_stream c"
  "io_open (emit s c) = io_open c"
  "io_closed (emit s c) = io_closed c"
  "input_source (emit s c) = input_source c"
  "incoming (emit s c) = incoming c"
  "output_source (emit s c) = output_source c"
  "output_queued (emit s c) = output_queued c"
  "outgoing (emit s c) = outgoing c"
  "message_opcode (emit s c) = message_opcode c"
  "message_data (emit s c) = message_data c"
  "chosen_protocol (emit s c) = chosen_protocol c"
  "class_headers (emit s c) = class_headers c"
  "g_random_int (emit s c) = g_random_int c"
  "random_count (emit s c) = random_count c"
  "closing_handled (emit s c) = closing_handled c"
  "sent_frames (emit s c) = sent_frames c"
  "wire (emit s c) = wire c"
  by (simp_all add: emit_def)

definition QUEUE_PRESSURE :: nat where
  "QUEUE_PRESSURE = 1024 * 1024"

definition G_MAXSIZE :: nat where
  "G_MAXSIZE = 2 ^ 64 - 1"

definition WEB_SOCKET_CLOSE_GOING_AWAY :: "16 word" where "WEB_SOCKET_CLOSE_GOING_AWAY = 1001"
definition WEB_SOCKET_CLOSE_PROTOCOL :: "16 word" where "WEB_SOCKET_CLOSE_PROTOCOL = 1002"
definition WEB_SOCKET_CLOSE_BAD_DATA :: "16 word" where "WEB_SOCKET_CLOSE_BAD_DATA = 1007"
definition WEB_SOCKET_CLOSE_TOO_BIG :: "16 word" where "WEB_SOCKET_CLOSE_TOO_BIG = 1009"
definition WEB_SOCKET_CLOSE_TLS_HANDSHAKE :: "16 word" where "WEB_SOCKET_CLOSE_TLS_HANDSHAKE = 1015"

definition web_socket_connection_get_ready_state :: "WebSocketConnectionPrivate \<Rightarrow> WebSocketState" where
  "web_socket_connection_get_ready_state c =
     (if io_closed c then CLOSED
      else if (io_stream c \<and> \<not> io_open c) \<or> close_sent c then CLOSING
      else if handshake_done c then OPEN
      else CONNECTING)"

definition web_socket_connection_get_buffered_amount :: "WebSocketConnectionPrivate \<Rightarrow> nat" where
  "web_socket_connection_get_buffered_amount c = sum_list (map fr_amount (outgoing c))"

section \<open>Stopping and closing\<close>

definition stop_input :: "WebSocketConnectionPrivate \<Rightarrow> WebSocketConnectionPrivate" where
  "stop_input c = c\<lparr>input_source := False\<rparr>"

definition stop_output :: "WebSocketConnectionPrivate \<Rightarrow> WebSocketConnectionPrivate" where
  "stop_output c = c\<lparr>output_source := False\<rparr>"

definition start_input :: "WebSocketConnectionPrivate \<Rightarrow> WebSocketConnectionPrivate" where
  "start_input c = c\<lparr>input_source := True\<rparr>"

definition start_output :: "WebSocketConnectionPrivate \<Rightarrow> WebSocketConnectionPrivate" where
  "start_output c = c\<lparr>output_source := True\<rparr>"

definition close_io_stop_timeout :: "WebSocketConnectionPrivate \<Rightarrow> WebSocketConnectionPrivate" where
  "close_io_stop_timeout c = c\<lparr>close_timeout := False, start_idle := False\<rparr>"

definition close_io_stream :: "WebSocketConnectionPrivate \<Rightarrow> WebSocketConnectionPrivate" where
  "close_io_stream c =
     (let c = close_io_stop_timeout c in
      if \<not> io_stream c \<and> \<not> io_closed c then emit Sig_close (c\<lparr>io_closed := True\<rparr>)
      else if io_open c then (stop_output (stop_input c))\<lparr>io_open := False\<rparr>
      else c)"

text \<open>The completion of \<^verbatim>\<open>g_io_stream_close_async\<close>, with the error it reports.\<close>

definition on_iostream_closed :: "ws_error option \<Rightarrow> WebSocketConnectionPrivate \<Rightarrow> WebSocketConnectionPrivate" where
  "on_iostream_closed error c =
     (let c = c\<lparr>io_closed := True\<rparr>;
          c = (case error of
                 None \<Rightarrow> c
               | Some e \<Rightarrow> (if dirty_close c then c else emit (Sig_error e) c)\<lparr>dirty_close := True\<rparr>)
      in emit Sig_close c)"

text \<open>The shutdown of the socket itself is not visible to the rest of the code.\<close>

definition shutdown_wr_io_stream :: "WebSocketConnectionPrivate \<Rightarrow> WebSocketConnectionPrivate" where
  "shutdown_wr_io_stream c = stop_output c"

definition on_timeout_close_io :: "WebSocketConnectionPrivate \<Rightarrow> WebSocketConnectionPrivate" where
  "on_timeout_close_io c = close_io_stream (c\<lparr>close_timeout := False\<rparr>)"

definition close_io_after_timeout :: "WebSocketConnectionPrivate \<Rightarrow> WebSocketConnectionPrivate" where
  "close_io_after_timeout c = (if close_timeout c then c else c\<lparr>close_timeout := True\<rparr>)"

section \<open>The output queue\<close>

record queue_flags =
  urgent :: bool
  last_frame :: bool

definition QUEUE_NORMAL :: queue_flags where
  "QUEUE_NORMAL = \<lparr>urgent = False, last_frame = False\<rparr>"

text \<open>An urgent frame goes to the front, but not before a frame that is partially sent.\<close>

definition enqueue :: "bool \<Rightarrow> WsFrame \<Rightarrow> WsFrame list \<Rightarrow> WsFrame list" where
  "enqueue urg frame out =
     (if urg then
        (case out of
           [] \<Rightarrow> [frame]
         | prev # rest \<Rightarrow> if fr_sent prev > 0 then prev # frame # rest else frame # prev # rest)
      else out @ [frame])"

definition web_socket_connection_queue ::
    "queue_flags \<Rightarrow> bytes \<Rightarrow> nat \<Rightarrow> WebSocketConnectionPrivate \<Rightarrow> WebSocketConnectionPrivate" where
  "web_socket_connection_queue flags data amount c =
     (let len = length data in
      if close_sent c then c
      else if \<not> len > 0 then c
      else
        let frame = \<lparr>fr_data = data, fr_last = last_frame flags, fr_sent = 0, fr_amount = amount\<rparr>;
            c = c\<lparr>outgoing := enqueue (urgent flags) frame (outgoing c)\<rparr>;
            before = output_queued c
        in
        if \<not> int G_MAXSIZE - int len > int (output_queued c) then c
        else
          let c = c\<lparr>output_queued := output_queued c + len\<rparr>;
              c = (if before < QUEUE_PRESSURE \<and> output_queued c \<ge> QUEUE_PRESSURE then emit (Sig_pressure True) c else c)
          in start_output c)"

section \<open>Sending\<close>

text \<open>The bytes of a random number in memory, least significant first.\<close>

definition rand_bytes :: "32 word \<Rightarrow> bytes" where
  "rand_bytes r = [ucast r, ucast (drop_bit 8 r), ucast (drop_bit 16 r), ucast (drop_bit 24 r)]"

definition send_prefixed_message_rfc6455 ::
    "queue_flags \<Rightarrow> byte \<Rightarrow> bytes \<Rightarrow> bytes \<Rightarrow> WebSocketConnectionPrivate \<Rightarrow> WebSocketConnectionPrivate" where
  "send_prefixed_message_rfc6455 flags opcode prefix payload c =
     (let amount = snd (snd (control_truncate opcode prefix payload)) in
      if server_side c then
        web_socket_connection_queue flags (build_frame_rfc6455 None opcode prefix payload) amount c
      else
        web_socket_connection_queue flags
          (build_frame_rfc6455 (Some (rand_bytes (g_random_int c (random_count c)))) opcode prefix payload) amount
          (c\<lparr>random_count := random_count c + 1\<rparr>))"

definition send_message_rfc6455 ::
    "queue_flags \<Rightarrow> byte \<Rightarrow> bytes \<Rightarrow> WebSocketConnectionPrivate \<Rightarrow> WebSocketConnectionPrivate" where
  "send_message_rfc6455 flags opcode payload = send_prefixed_message_rfc6455 flags opcode [] payload"

text \<open>The close frame.  \<^verbatim>\<open>g_strlcpy\<close> copies what fits into the 128 byte buffer and returns the length of
  the whole reason; the frame takes at most 125 bytes, so nothing outside the buffer is read.\<close>

definition close_payload :: "16 word \<Rightarrow> bytes option \<Rightarrow> bytes" where
  "close_payload code reason =
     (if code \<noteq> 0 then
        [ucast (drop_bit 8 code), ucast (code AND 0xff)] @ (case reason of None \<Rightarrow> [] | Some r \<Rightarrow> r)
      else [])"

definition send_close_rfc6455 ::
    "queue_flags \<Rightarrow> 16 word \<Rightarrow> bytes option \<Rightarrow> WebSocketConnectionPrivate \<Rightarrow> WebSocketConnectionPrivate" where
  "send_close_rfc6455 flags code reason c =
     (send_message_rfc6455 flags 0x08 (close_payload code reason) c)\<lparr>close_sent := True\<rparr>"

datatype WebSocketDataType = DATA_TEXT | DATA_BINARY

definition web_socket_connection_send ::
    "WebSocketDataType \<Rightarrow> bytes option \<Rightarrow> bytes \<Rightarrow> WebSocketConnectionPrivate \<Rightarrow> WebSocketConnectionPrivate" where
  "web_socket_connection_send ty prefix message c =
     (if web_socket_connection_get_ready_state c \<noteq> OPEN then c
      else
        let pref = (case prefix of None \<Rightarrow> [] | Some p \<Rightarrow> p) in
        case ty of
          DATA_TEXT \<Rightarrow>
            if \<not> g_utf8_validate pref \<or> \<not> g_utf8_validate message then c
            else send_prefixed_message_rfc6455 QUEUE_NORMAL 0x01 pref message c
        | DATA_BINARY \<Rightarrow> send_prefixed_message_rfc6455 QUEUE_NORMAL 0x02 pref message c)"

definition web_socket_connection_close ::
    "16 word \<Rightarrow> bytes option \<Rightarrow> WebSocketConnectionPrivate \<Rightarrow> WebSocketConnectionPrivate" where
  "web_socket_connection_close code data c =
     (if close_sent c then c
      else
        let c = emit Sig_closing c in
        if \<not> closing_handled c then c
        else if handshake_done c then
          close_io_after_timeout
            (send_close_rfc6455 \<lparr>urgent = False, last_frame = server_side c \<and> close_received c\<rparr> code data c)
        else close_io_stream c)"

section \<open>Errors\<close>

text \<open>Whether the connection was not yet closed, so that the error counts.\<close>

definition web_socket_connection_error :: "ws_error \<Rightarrow> WebSocketConnectionPrivate \<Rightarrow> bool \<times> WebSocketConnectionPrivate" where
  "web_socket_connection_error error c =
     (if web_socket_connection_get_ready_state c \<noteq> CLOSED then (True, emit (Sig_error error) (c\<lparr>dirty_close := True\<rparr>))
      else (False, c))"

definition tls_close_reason :: "ws_error \<Rightarrow> WebSocketConnectionPrivate \<Rightarrow> WebSocketConnectionPrivate" where
  "tls_close_reason error c =
     (case error of
        Tls_error k \<Rightarrow>
          if server_side c then c
          else
            let c = c\<lparr>peer_close_code := WEB_SOCKET_CLOSE_TLS_HANDSHAKE\<rparr> in
            (case k of
               TLS_NOT_TLS \<Rightarrow> c\<lparr>peer_close_data := Some (asc ''protocol-error'')\<rparr>
             | TLS_MISC \<Rightarrow> c\<lparr>peer_close_data := Some (asc ''protocol-error'')\<rparr>
             | TLS_BAD_CERTIFICATE \<Rightarrow> c\<lparr>peer_close_data := Some (asc ''unknown-hostkey'')\<rparr>
             | TLS_OTHER \<Rightarrow> c)
      | _ \<Rightarrow> c)"

definition web_socket_connection_error_and_close ::
    "ws_error \<Rightarrow> bool \<Rightarrow> WebSocketConnectionPrivate \<Rightarrow> WebSocketConnectionPrivate" where
  "web_socket_connection_error_and_close error prejudice c =
     (let code = (case error of Web_socket_error k \<Rightarrow> k | _ \<Rightarrow> WEB_SOCKET_CLOSE_GOING_AWAY);
          c = tls_close_reason error c
      in
      case web_socket_connection_error error c of
        (False, c) \<Rightarrow> c
      | (True, c) \<Rightarrow>
          let prejudice = (prejudice \<or> \<not> handshake_done c);
              ignore = (case web_socket_connection_get_ready_state c of
                          CLOSED \<Rightarrow> True
                        | CLOSING \<Rightarrow> \<not> prejudice
                        | _ \<Rightarrow> False)
          in
          if ignore then c
          else if prejudice then close_io_stream c
          else send_close_rfc6455 \<lparr>urgent = True, last_frame = True\<rparr> code None c)"

definition protocol_error_and_close :: "WebSocketConnectionPrivate \<Rightarrow> WebSocketConnectionPrivate" where
  "protocol_error_and_close = web_socket_connection_error_and_close (Web_socket_error WEB_SOCKET_CLOSE_PROTOCOL) False"

definition bad_data_error_and_close :: "WebSocketConnectionPrivate \<Rightarrow> WebSocketConnectionPrivate" where
  "bad_data_error_and_close = web_socket_connection_error_and_close (Web_socket_error WEB_SOCKET_CLOSE_BAD_DATA) False"

definition too_big_error_and_close :: "WebSocketConnectionPrivate \<Rightarrow> WebSocketConnectionPrivate" where
  "too_big_error_and_close c =
     stop_input (web_socket_connection_error_and_close (Web_socket_error WEB_SOCKET_CLOSE_TOO_BIG) True c)"

section \<open>Receiving\<close>

definition receive_close_rfc6455 :: "bytes \<Rightarrow> WebSocketConnectionPrivate \<Rightarrow> WebSocketConnectionPrivate" where
  "receive_close_rfc6455 data c =
     (let c = c\<lparr>peer_close_code := 0, peer_close_data := None, close_received := True\<rparr>;
          c = (if length data \<ge> 2 then c\<lparr>peer_close_code := push_bit 8 (ucast (data ! 0)) OR ucast (data ! 1)\<rparr> else c);
          c = (if length data > 2 \<and> g_utf8_validate (drop 2 data) then c\<lparr>peer_close_data := Some (drop 2 data)\<rparr> else c)
      in
      if close_sent c then
        let c = shutdown_wr_io_stream c in
        if server_side c then close_io_stream c else c
      else web_socket_connection_close (peer_close_code c) None c)"

definition receive_ping_rfc6455 :: "bytes \<Rightarrow> WebSocketConnectionPrivate \<Rightarrow> WebSocketConnectionPrivate" where
  "receive_ping_rfc6455 data = send_message_rfc6455 \<lparr>urgent = True, last_frame = False\<rparr> 0x0A data"

text \<open>The frame is acceptable at this point of the message: a first or only fragment when none is pending,
  a continuation when one is.\<close>

definition fragment_in_order :: "bool \<Rightarrow> byte \<Rightarrow> WebSocketConnectionPrivate \<Rightarrow> bool" where
  "fragment_in_order fin opcode c \<longleftrightarrow>
     (if \<not> fin \<and> opcode \<noteq> 0 then message_data c = None
      else if \<not> fin \<and> opcode = 0 then message_data c \<noteq> None
      else if fin \<and> opcode = 0 then message_data c \<noteq> None
      else message_data c = None)"

text \<open>Adding a fragment to the message; \<^term>\<open>None\<close> when it is text that is not valid.\<close>

definition append_fragment :: "byte \<Rightarrow> bytes \<Rightarrow> bytes \<Rightarrow> bytes option" where
  "append_fragment message_op data payload =
     (if message_op = 0x01 then (if g_utf8_validate payload then Some (data @ payload) else None)
      else if message_op = 0x02 then Some (data @ payload)
      else Some data)"

definition process_contents_rfc6455 ::
    "bool \<Rightarrow> bool \<Rightarrow> byte \<Rightarrow> bytes \<Rightarrow> WebSocketConnectionPrivate \<Rightarrow> WebSocketConnectionPrivate" where
  "process_contents_rfc6455 control fin opcode payload c =
     (if control then
        (if \<not> fin then protocol_error_and_close c
         else if opcode = 0x08 then receive_close_rfc6455 payload c
         else if opcode = 0x09 then receive_ping_rfc6455 payload c
         else c)
      else if close_received c then c
      else if \<not> fragment_in_order fin opcode c then protocol_error_and_close c
      else
        let c = (if opcode \<noteq> 0 then c\<lparr>message_opcode := opcode, message_data := Some []\<rparr> else c) in
        case append_fragment (message_opcode c) (the (message_data c)) payload of
          None \<Rightarrow> bad_data_error_and_close (c\<lparr>message_data := None, message_opcode := 0\<rparr>)
        | Some data \<Rightarrow>
            if fin then emit (Sig_message (message_opcode c) data) (c\<lparr>message_data := None, message_opcode := 0\<rparr>)
            else c\<lparr>message_data := Some data\<rparr>)"

definition process_frame_rfc6455 :: "WebSocketConnectionPrivate \<Rightarrow> bool \<times> WebSocketConnectionPrivate" where
  "process_frame_rfc6455 c =
     (case parse_frame_rfc6455 (incoming c) of
        Want_more \<Rightarrow> (False, c)
      | Reject \<Rightarrow> (False, too_big_error_and_close c)
      | Message (fin, control, opcode, payload) n \<Rightarrow>
          let c = process_contents_rfc6455 control fin opcode payload c in
          (True, c\<lparr>incoming := drop n (incoming c)\<rparr>))"

text \<open>Nothing but the removal of the frame itself touches the input buffer.\<close>

lemma incoming_close_io [simp]: "incoming (close_io_stream c) = incoming c"
  by (simp add: close_io_stream_def close_io_stop_timeout_def stop_output_def stop_input_def Let_def)

lemma incoming_queue [simp]: "incoming (web_socket_connection_queue flags data amount c) = incoming c"
  by (simp add: web_socket_connection_queue_def start_output_def Let_def)

lemma incoming_send [simp]: "incoming (send_prefixed_message_rfc6455 flags opcode prefix payload c) = incoming c"
  by (simp add: send_prefixed_message_rfc6455_def Let_def)

lemma incoming_send_close [simp]: "incoming (send_close_rfc6455 flags code reason c) = incoming c"
  by (simp add: send_close_rfc6455_def send_message_rfc6455_def)

lemma incoming_close [simp]: "incoming (web_socket_connection_close code data c) = incoming c"
  by (simp add: web_socket_connection_close_def close_io_after_timeout_def Let_def)

lemma incoming_tls [simp]: "incoming (tls_close_reason error c) = incoming c"
  by (simp add: tls_close_reason_def Let_def split: ws_error.splits tls_error.splits)

lemma incoming_error_and_close [simp]: "incoming (web_socket_connection_error_and_close error prejudice c) = incoming c"
  by (simp add: web_socket_connection_error_and_close_def web_socket_connection_error_def Let_def
      split: WebSocketState.splits)

lemma incoming_process_contents [simp]: "incoming (process_contents_rfc6455 control fin opcode payload c) = incoming c"
  by (simp add: process_contents_rfc6455_def protocol_error_and_close_def bad_data_error_and_close_def
      receive_close_rfc6455_def receive_ping_rfc6455_def send_message_rfc6455_def shutdown_wr_io_stream_def
      stop_output_def Let_def split: option.splits)

lemma process_frame_shrinks:
  "process_frame_rfc6455 c = (True, c') \<Longrightarrow> length (incoming c') < length (incoming c)"
  using parse_frame_bound [of "incoming c"]
  by (auto simp: process_frame_rfc6455_def Let_def split: parse.splits)

function process_frames :: "WebSocketConnectionPrivate \<Rightarrow> WebSocketConnectionPrivate" where
  "process_frames c = (case process_frame_rfc6455 c of (again, c') \<Rightarrow> if again then process_frames c' else c')"
  by pat_completeness auto
termination
  by (relation "measure (\<lambda>c. length (incoming c))") (auto dest!: process_frame_shrinks [OF sym])

declare process_frames.simps [simp del]

text \<open>The handshake is a virtual function of the server and the client class.\<close>

type_synonym ws_handshake = "WebSocketConnectionPrivate \<Rightarrow> bool \<times> WebSocketConnectionPrivate"

definition process_incoming :: "ws_handshake \<Rightarrow> WebSocketConnectionPrivate \<Rightarrow> WebSocketConnectionPrivate" where
  "process_incoming handshake c =
     (let c = (if \<not> handshake_done c then
                 (case handshake c of
                    (True, c) \<Rightarrow> emit Sig_open (c\<lparr>handshake_done := True\<rparr>)
                  | (False, c) \<Rightarrow> c)
               else c)
      in if handshake_done c then process_frames c else c)"

text \<open>What the non-blocking reads return: data, at most 1024 bytes of it, nothing for now, end of
  stream, or an error.\<close>

datatype io_read = Io_data bytes | Io_read_blocked | Io_eof | Io_read_failed ws_error

datatype read_result = Read_done bool | Read_broken ws_error

text \<open>The reading loop.  When a read fails the buffer stays enlarged by the 1024 bytes that were to be
  filled, whose contents are not defined; they are never looked at.\<close>

fun read_loop :: "bytes \<Rightarrow> io_read list \<Rightarrow> bytes \<times> read_result" where
  "read_loop buf [] = (buf, Read_done False)"
| "read_loop buf (Io_data d # outcomes) =
     (if d = [] then (buf, Read_done True) else read_loop (buf @ take 1024 d) outcomes)"
| "read_loop buf (Io_read_blocked # outcomes) = (buf, Read_done False)"
| "read_loop buf (Io_eof # outcomes) = (buf, Read_done True)"
| "read_loop buf (Io_read_failed e # outcomes) = (buf @ replicate 1024 0, Read_broken e)"

definition on_web_socket_input ::
    "ws_handshake \<Rightarrow> io_read list \<Rightarrow> WebSocketConnectionPrivate \<Rightarrow> WebSocketConnectionPrivate" where
  "on_web_socket_input handshake outcomes c =
     (case read_loop (incoming c) outcomes of
        (buf, Read_broken e) \<Rightarrow> web_socket_connection_error_and_close e True (c\<lparr>incoming := buf\<rparr>)
      | (buf, Read_done at_end) \<Rightarrow>
          let c = process_incoming handshake (c\<lparr>incoming := buf\<rparr>) in
          if at_end then
            close_io_stream (if \<not> close_sent c \<or> \<not> close_received c then c\<lparr>dirty_close := True\<rparr> else c)
          else c)"

datatype io_write = Io_wrote nat | Io_write_blocked | Io_write_failed ws_error

text \<open>Writing the frame at the head of the queue.  \<^term>\<open>None\<close> is the failure of an assertion.\<close>

definition on_web_socket_output :: "io_write \<Rightarrow> WebSocketConnectionPrivate \<Rightarrow> WebSocketConnectionPrivate option" where
  "on_web_socket_output outcome c =
     (case outgoing c of
        [] \<Rightarrow> Some (stop_output c)
      | frame # rest \<Rightarrow>
          let len = length (fr_data frame) in
          if \<not> len > 0 \<or> \<not> len > fr_sent frame then None
          else
            case outcome of
              Io_write_failed e \<Rightarrow> Some (web_socket_connection_error_and_close e True c)
            | _ \<Rightarrow>
                let count = (case outcome of Io_wrote n \<Rightarrow> min n (len - fr_sent frame) | _ \<Rightarrow> 0);
                    before = output_queued c;
                    c = c\<lparr>wire := wire c @ take count (drop (fr_sent frame) (fr_data frame))\<rparr>;
                    frame = frame\<lparr>fr_sent := fr_sent frame + count\<rparr>
                in
                if fr_sent frame \<ge> len then
                  (if \<not> len \<le> output_queued c then None
                   else
                     let c = c\<lparr>outgoing := rest, output_queued := output_queued c - len, sent_frames := sent_frames c @ [fr_data frame]\<rparr>;
                         c = (if fr_last frame then
                                (if server_side c then close_io_stream c
                                 else close_io_after_timeout (shutdown_wr_io_stream c))
                              else c)
                     in Some (if before \<ge> QUEUE_PRESSURE \<and> output_queued c < QUEUE_PRESSURE then emit (Sig_pressure False) c else c))
                else Some (c\<lparr>outgoing := frame # rest\<rparr>))"

definition on_throttle_pressure :: "bool \<Rightarrow> WebSocketConnectionPrivate \<Rightarrow> WebSocketConnectionPrivate" where
  "on_throttle_pressure throttle c =
     (if throttle then
        (if io_open c \<and> input_source c then stop_input c else c)
      else
        (if io_open c \<and> \<not> input_source c then start_input c else c))"

section \<open>Opening\<close>

definition web_socket_connection_take_io_stream :: "WebSocketConnectionPrivate \<Rightarrow> WebSocketConnectionPrivate" where
  "web_socket_connection_take_io_stream c =
     (if io_stream c then c else c\<lparr>io_stream := True, io_open := True, start_idle := True\<rparr>)"

text \<open>\<open>streams_ok\<close> is the result of \<^verbatim>\<open>check_streams\<close>, whether both directions can be polled.\<close>

definition on_idle_start_input ::
    "ws_handshake \<Rightarrow> bool \<Rightarrow> WebSocketConnectionPrivate \<Rightarrow> WebSocketConnectionPrivate" where
  "on_idle_start_input handshake streams_ok c =
     (let c = c\<lparr>start_idle := False\<rparr> in
      if streams_ok then process_incoming handshake (start_input c) else c)"

text \<open>A connection that has just been constructed.\<close>

definition web_socket_connection_init ::
    "bool \<Rightarrow> bytes \<Rightarrow> (bytes \<times> bytes) list option \<Rightarrow> (nat \<Rightarrow> 32 word) \<Rightarrow> bool \<Rightarrow> WebSocketConnectionPrivate" where
  "web_socket_connection_init server input_buffer headers random handled =
     \<lparr>server_side = server, handshake_done = False, peer_close_code = 0, peer_close_data = None,
      close_sent = False, close_received = False, dirty_close = False, close_timeout = False, start_idle = False,
      io_stream = False, io_open = False, io_closed = False, input_source = False, incoming = input_buffer,
      output_source = False, output_queued = 0, outgoing = [], message_opcode = 0, message_data = None,
      chosen_protocol = None, class_headers = headers,
      g_random_int = random, random_count = 0, closing_handled = handled, signals = [], sent_frames = [], wire = []\<rparr>"

end
