(* ===== verification/WebSocketSafety.thy ===== *)
theory WebSocketSafety
  imports WebSocketConnection
begin

unbundle bit_operations_syntax

text \<open>
  What holds of a web socket connection in every state it can reach.  The functions of the connection
  are compositions of a few elementary actions; an invariant is proved for these actions once and
  then for the steps of the main loop.
\<close>

section \<open>Elementary actions\<close>

fun is_pressure :: "ws_signal \<Rightarrow> bool" where
  "is_pressure (Sig_pressure b) = True"
| "is_pressure _ = False"

fun is_message :: "ws_signal \<Rightarrow> bool" where
  "is_message (Sig_message opc d) = True"
| "is_message _ = False"

text \<open>The first byte of a frame tells a close frame, and the frames that carry data.\<close>

definition is_close_frame :: "bytes \<Rightarrow> bool" where
  "is_close_frame d \<longleftrightarrow> d \<noteq> [] \<and> hd d = 0x88"

definition is_data_frame :: "bytes \<Rightarrow> bool" where
  "is_data_frame d \<longleftrightarrow> d \<noteq> [] \<and> (hd d = 0x81 \<or> hd d = 0x82)"

inductive ws_act :: "WebSocketConnectionPrivate \<Rightarrow> WebSocketConnectionPrivate \<Rightarrow> bool" where
  act_peer_code: "ws_act c (c\<lparr>peer_close_code := k\<rparr>)"
| act_peer_data: "ws_act c (c\<lparr>peer_close_data := d\<rparr>)"
| act_received: "ws_act c (c\<lparr>close_received := True\<rparr>)"
| act_dirty: "ws_act c (c\<lparr>dirty_close := True\<rparr>)"
| act_timeout: "ws_act c (c\<lparr>close_timeout := b\<rparr>)"
| act_idle: "ws_act c (c\<lparr>start_idle := False\<rparr>)"
| act_incoming: "ws_act c (c\<lparr>incoming := i\<rparr>)"
| act_first_fragment: "ws_act c (c\<lparr>message_opcode := opc, message_data := Some []\<rparr>)"
| act_fragment:
    "message_data c = Some m \<Longrightarrow> append_fragment (message_opcode c) m p = Some d \<Longrightarrow> ws_act c (c\<lparr>message_data := Some d\<rparr>)"
| act_deliver:
    "message_data c = Some m \<Longrightarrow> append_fragment (message_opcode c) m p = Some d \<Longrightarrow>
     ws_act c (emit (Sig_message (message_opcode c) d) (c\<lparr>message_data := None, message_opcode := 0\<rparr>))"
| act_discard: "ws_act c (c\<lparr>message_data := None, message_opcode := 0\<rparr>)"
| act_protocol: "ws_act c (c\<lparr>chosen_protocol := p\<rparr>)"
| act_headers: "ws_act c (c\<lparr>class_headers := h\<rparr>)"
| act_random: "ws_act c (c\<lparr>random_count := n\<rparr>)"
| act_signal: "\<not> is_pressure s \<Longrightarrow> \<not> is_message s \<Longrightarrow> ws_act c (emit s c)"
| act_input: "ws_act c (c\<lparr>input_source := b\<rparr>)"
| act_stop_output: "ws_act c (stop_output c)"
| act_close_io: "ws_act c (close_io_stream c)"
| act_handshake: "ws_act c (c\<lparr>handshake_done := True\<rparr>)"
| act_queue: "\<not> is_close_frame d \<Longrightarrow> \<not> is_data_frame d \<Longrightarrow> ws_act c (web_socket_connection_queue flags d a c)"
| act_send_close:
    "\<not> close_sent c \<Longrightarrow> is_close_frame d \<Longrightarrow> urgent flags \<le> last_frame flags \<Longrightarrow>
     ws_act c ((web_socket_connection_queue flags d a c)\<lparr>close_sent := True\<rparr>)"

abbreviation ws_acts :: "WebSocketConnectionPrivate \<Rightarrow> WebSocketConnectionPrivate \<Rightarrow> bool" where
  "ws_acts \<equiv> ws_act\<^sup>*\<^sup>*"

named_theorems ws_acts \<open>functions of the connection as compositions of actions\<close>

lemma acts_refl [ws_acts]: "ws_acts c c" by simp

lemma acts_into: "ws_acts a c \<Longrightarrow> ws_act c c' \<Longrightarrow> ws_acts a c'"
  by (rule rtranclp.rtrancl_into_rtrancl)

lemmas acts_intros [ws_acts] =
  acts_into [OF _ act_peer_code] acts_into [OF _ act_peer_data] acts_into [OF _ act_received]
  acts_into [OF _ act_dirty] acts_into [OF _ act_timeout] acts_into [OF _ act_idle]
  acts_into [OF _ act_incoming] acts_into [OF _ act_first_fragment] acts_into [OF _ act_discard]
  acts_into [OF _ act_random] acts_into [OF _ act_protocol] acts_into [OF _ act_headers] acts_into [OF _ act_signal] acts_into [OF _ act_input]
  acts_into [OF _ act_stop_output] acts_into [OF _ act_close_io] acts_into [OF _ act_handshake]
  acts_into [OF _ act_queue]

section \<open>The functions of the connection as actions\<close>

lemma build_frame_head: "build_frame_rfc6455 key opcode prefix payload \<noteq> []" "hd (build_frame_rfc6455 key opcode prefix payload) = 0x80 OR opcode"
  by (auto simp: build_frame_rfc6455_def header_rfc6455_def Let_def list_update_code split: prod.splits option.splits)

lemma acts_send_close:
  assumes "ws_acts a c" "\<not> close_sent c" "urgent flags \<le> last_frame flags"
  shows "ws_acts a (send_close_rfc6455 flags code reason c)"
proof (cases "server_side c")
  case True
  then show ?thesis
    using assms build_frame_head
    by (auto simp: send_close_rfc6455_def send_message_rfc6455_def send_prefixed_message_rfc6455_def is_close_frame_def
        intro!: acts_into [OF _ act_send_close])
next
  case False
  then show ?thesis
    using assms build_frame_head
    by (auto simp: send_close_rfc6455_def send_message_rfc6455_def send_prefixed_message_rfc6455_def is_close_frame_def
        intro!: acts_into [OF _ act_send_close] acts_into [OF _ act_random])
qed

lemma acts_receive_ping [ws_acts]:
  assumes "ws_acts a c"
  shows "ws_acts a (receive_ping_rfc6455 payload c)"
  using assms build_frame_head
  by (auto simp: receive_ping_rfc6455_def send_message_rfc6455_def send_prefixed_message_rfc6455_def Let_def is_close_frame_def is_data_frame_def intro!: ws_acts)

lemma acts_close [ws_acts]:
  assumes "ws_acts a c"
  shows "ws_acts a (web_socket_connection_close code data c)"
  using assms
  by (auto simp: web_socket_connection_close_def close_io_after_timeout_def Let_def intro!: ws_acts acts_send_close)

lemma acts_tls [ws_acts]: "ws_acts a c \<Longrightarrow> ws_acts a (tls_close_reason error c)"
  by (auto simp: tls_close_reason_def Let_def intro!: ws_acts split: ws_error.splits tls_error.splits)

lemma acts_error [ws_acts]: "ws_acts a c \<Longrightarrow> ws_acts a (snd (web_socket_connection_error error c))"
  by (auto simp: web_socket_connection_error_def intro!: ws_acts)

lemma acts_error_and_close [ws_acts]:
  assumes "ws_acts a c"
  shows "ws_acts a (web_socket_connection_error_and_close error prejudice c)"
proof -
  obtain ok c1 where e: "web_socket_connection_error error (tls_close_reason error c) = (ok, c1)" by fastforce
  have c1: "ws_acts a c1" using acts_error [OF acts_tls [OF assms], of error error] e by simp
  have "\<not> close_sent c1" if "web_socket_connection_get_ready_state c1 \<noteq> CLOSED" "web_socket_connection_get_ready_state c1 \<noteq> CLOSING"
    using that by (auto simp: web_socket_connection_get_ready_state_def split: if_splits)
  then show ?thesis
    using e c1
    by (cases ok; cases "web_socket_connection_get_ready_state c1")
       (auto simp: web_socket_connection_error_and_close_def Let_def intro!: ws_acts acts_send_close)
qed

lemma acts_receive_close [ws_acts]: "ws_acts a c \<Longrightarrow> ws_acts a (receive_close_rfc6455 data c)"
  by (auto simp: receive_close_rfc6455_def shutdown_wr_io_stream_def Let_def intro!: ws_acts)

lemma acts_fragment:
  "ws_acts a c \<Longrightarrow> ws_acts a (if opc \<noteq> 0 then c\<lparr>message_opcode := opc, message_data := Some []\<rparr> else c)"
  by (auto intro!: ws_acts)

lemma acts_process_contents [ws_acts]:
  assumes "ws_acts a c"
  shows "ws_acts a (process_contents_rfc6455 control fin opcode payload c)"
proof (cases control)
  case True
  then show ?thesis
    using assms by (auto simp: process_contents_rfc6455_def protocol_error_and_close_def intro!: ws_acts)
next
  case False
  define c1 where "c1 = (if opcode \<noteq> 0 then c\<lparr>message_opcode := opcode, message_data := Some []\<rparr> else c)"
  have c1: "ws_acts a c1" unfolding c1_def by (rule acts_fragment) (rule assms)
  show ?thesis
  proof (cases "close_received c \<or> \<not> fragment_in_order fin opcode c")
    case True
    then show ?thesis
      using assms False by (auto simp: process_contents_rfc6455_def protocol_error_and_close_def intro!: ws_acts)
  next
    case ok: False
    then have "process_contents_rfc6455 control fin opcode payload c =
      (case append_fragment (message_opcode c1) (the (message_data c1)) payload of
          None \<Rightarrow> bad_data_error_and_close (c1\<lparr>message_data := None, message_opcode := 0\<rparr>)
        | Some data \<Rightarrow>
            if fin then emit (Sig_message (message_opcode c1) data) (c1\<lparr>message_data := None, message_opcode := 0\<rparr>)
            else c1\<lparr>message_data := Some data\<rparr>)"
      using False unfolding process_contents_rfc6455_def c1_def Let_def by simp
    moreover obtain m where "message_data c1 = Some m"
      using ok by (cases "message_data c") (auto simp: c1_def fragment_in_order_def split: if_splits)
    ultimately show ?thesis
      using c1
      by (auto simp: bad_data_error_and_close_def intro!: ws_acts acts_into [OF _ act_deliver] acts_into [OF _ act_fragment]
          split: option.splits)
  qed
qed

lemma acts_process_frame:
  assumes "ws_acts a c" "process_frame_rfc6455 c = (b, c')"
  shows "ws_acts a c'"
  using assms
  by (auto simp: process_frame_rfc6455_def too_big_error_and_close_def stop_input_def Let_def
      intro!: ws_acts split: parse.splits)

lemma acts_process_frames [ws_acts]: "ws_acts a c \<Longrightarrow> ws_acts a (process_frames c)"
proof (induction c rule: process_frames.induct)
  case (1 c)
  obtain b c' where p: "process_frame_rfc6455 c = (b, c')" by fastforce
  then show ?case
    using 1 acts_process_frame [OF 1(2) p] by (subst process_frames.simps) (simp add: p)
qed

section \<open>Steps of the main loop\<close>

text \<open>The bytes in the output queue.  They are all in memory at once, so there are fewer than the address
  space can hold; this is the condition of a state to be reachable.\<close>

definition queued_total :: "WebSocketConnectionPrivate \<Rightarrow> nat" where
  "queued_total c = sum_list (map (length \<circ> fr_data) (outgoing c))"

text \<open>The server and the client class: the handshake function, and what a class does when its stream is there (the client
  sends its request).  The law is that both work on the connection through the same actions.\<close>

locale handshake_class =
  fixes handshake :: ws_handshake
    and start :: "WebSocketConnectionPrivate \<Rightarrow> WebSocketConnectionPrivate"
  assumes handshake_acts: "ws_acts c (snd (handshake c))"
    and start_acts: "ws_acts c (start c)"
begin

lemma acts_process_incoming: "ws_acts a c \<Longrightarrow> ws_acts a (process_incoming handshake c)"
proof -
  assume c: "ws_acts a c"
  obtain ok c1 where h: "handshake c = (ok, c1)" by fastforce
  then have c1: "ws_acts a c1" using c handshake_acts [of c] by (simp add: rtranclp_trans)
  show ?thesis
    using c c1 by (cases ok) (auto simp: process_incoming_def h Let_def intro!: ws_acts)
qed

lemma acts_on_input: "ws_acts a c \<Longrightarrow> ws_acts a (on_web_socket_input handshake outcomes c)"
  by (auto simp: on_web_socket_input_def Let_def
      intro!: ws_acts acts_process_incoming split: prod.splits read_result.splits)

lemma acts_on_idle: "ws_acts a c \<Longrightarrow> ws_acts a (on_idle_start_input handshake ok c)"
  by (auto simp: on_idle_start_input_def start_input_def Let_def intro!: ws_acts acts_process_incoming)

end

text \<open>A step is one callback of the main loop or one call from outside.  A stream that is being closed takes no
  more data, so a write succeeds only while the stream is open.\<close>

inductive ws_step ::
    "ws_handshake \<Rightarrow> (WebSocketConnectionPrivate \<Rightarrow> WebSocketConnectionPrivate) \<Rightarrow> WebSocketConnectionPrivate \<Rightarrow> WebSocketConnectionPrivate \<Rightarrow> bool"
  for handshake :: ws_handshake and start :: "WebSocketConnectionPrivate \<Rightarrow> WebSocketConnectionPrivate" where
  step_stream: "ws_step handshake start c (web_socket_connection_take_io_stream c)"
| step_start: "io_stream c \<Longrightarrow> ws_step handshake start c (start c)"
| step_failed: "\<not> io_stream c \<Longrightarrow> ws_step handshake start c (web_socket_connection_error_and_close e True c)"
| step_idle: "start_idle c \<Longrightarrow> ws_step handshake start c (on_idle_start_input handshake ok c)"
| step_input: "input_source c \<Longrightarrow> ws_step handshake start c (on_web_socket_input handshake outcomes c)"
| step_output:
    "output_source c \<Longrightarrow> io_open c \<or> (\<exists>e. outcome = Io_write_failed e) \<Longrightarrow>
     on_web_socket_output outcome c = Some c' \<Longrightarrow> ws_step handshake start c c'"
| step_timeout: "close_timeout c \<Longrightarrow> ws_step handshake start c (on_timeout_close_io c)"
| step_closed: "io_stream c \<Longrightarrow> \<not> io_open c \<Longrightarrow> \<not> io_closed c \<Longrightarrow> ws_step handshake start c (on_iostream_closed e c)"
| step_throttle: "ws_step handshake start c (on_throttle_pressure b c)"
| step_send: "ws_step handshake start c (web_socket_connection_send ty prefix message c)"
| step_close: "ws_step handshake start c (web_socket_connection_close code data c)"

inductive ws_reachable ::
    "ws_handshake \<Rightarrow> (WebSocketConnectionPrivate \<Rightarrow> WebSocketConnectionPrivate) \<Rightarrow> WebSocketConnectionPrivate \<Rightarrow> bool"
  for handshake :: ws_handshake and start :: "WebSocketConnectionPrivate \<Rightarrow> WebSocketConnectionPrivate" where
  reach_init: "ws_reachable handshake start (web_socket_connection_init server input headers random handled)"
| reach_step: "ws_reachable handshake start c \<Longrightarrow> ws_step handshake start c c' \<Longrightarrow> queued_total c' < G_MAXSIZE \<Longrightarrow>
               ws_reachable handshake start c'"

section \<open>The invariant of the output queue\<close>

fun toggles :: "bool \<Rightarrow> bool list \<Rightarrow> bool option" where
  "toggles b [] = Some b"
| "toggles b (p # ps) = (if p = b then None else toggles p ps)"

lemma toggles_append [simp]: "toggles b (ps @ [p]) = (case toggles b ps of None \<Rightarrow> None | Some q \<Rightarrow> if p = q then None else Some p)"
  by (induction ps arbitrary: b) auto

fun pressure_of :: "ws_signal \<Rightarrow> bool list" where
  "pressure_of (Sig_pressure b) = [b]"
| "pressure_of _ = []"

definition pressures :: "WebSocketConnectionPrivate \<Rightarrow> bool list" where
  "pressures c = concat (map pressure_of (signals c))"

definition partial_head :: "WsFrame list \<Rightarrow> bytes" where
  "partial_head fs = (case fs of [] \<Rightarrow> [] | f # _ \<Rightarrow> take (fr_sent f) (fr_data f))"

definition frames_ok :: "WsFrame list \<Rightarrow> bool" where
  "frames_ok fs \<longleftrightarrow> list_all (\<lambda>f. fr_sent f < length (fr_data f)) fs \<and> list_all (\<lambda>f. fr_sent f = 0) (tl fs)"

definition queue_inv :: "WebSocketConnectionPrivate \<Rightarrow> bool" where
  "queue_inv c \<longleftrightarrow>
     (queued_total c < G_MAXSIZE \<longrightarrow> output_queued c = queued_total c) \<and>
     frames_ok (outgoing c) \<and>
     wire c = concat (sent_frames c) @ partial_head (outgoing c) \<and>
     toggles False (pressures c) = Some (output_queued c \<ge> QUEUE_PRESSURE) \<and>
     (io_open c \<longrightarrow> io_stream c)"

lemma enqueue_frames_ok: "frames_ok fs \<Longrightarrow> fr_sent f = 0 \<Longrightarrow> fr_data f \<noteq> [] \<Longrightarrow> frames_ok (enqueue u f fs)"
  by (cases fs) (auto simp: frames_ok_def enqueue_def)

lemma enqueue_partial_head: "fr_sent f = 0 \<Longrightarrow> partial_head (enqueue u f fs) = partial_head fs"
  by (cases fs) (auto simp: partial_head_def enqueue_def)

lemma enqueue_total: "sum_list (map h (enqueue u f fs)) = sum_list (map h fs) + (h f :: nat)"
  by (cases fs) (auto simp: enqueue_def)

lemma enqueue_set: "set (enqueue u f fs) = insert f (set fs)"
  by (cases fs) (auto simp: enqueue_def)

lemma pressures_emit [simp]: "pressures (emit s c) = pressures c @ pressure_of s"
  by (simp add: pressures_def)

lemma pressure_of_other: "\<not> is_pressure s \<Longrightarrow> pressure_of s = []"
  by (cases s) auto

lemma close_io_sel [simp]:
  "outgoing (close_io_stream c) = outgoing c"
  "output_queued (close_io_stream c) = output_queued c"
  "wire (close_io_stream c) = wire c"
  "sent_frames (close_io_stream c) = sent_frames c"
  "pressures (close_io_stream c) = pressures c"
  "io_stream (close_io_stream c) = io_stream c"
  "close_sent (close_io_stream c) = close_sent c"
  "handshake_done (close_io_stream c) = handshake_done c"
  "server_side (close_io_stream c) = server_side c"
  by (simp_all add: close_io_stream_def close_io_stop_timeout_def stop_output_def stop_input_def Let_def pressures_def)

lemma close_io_streams:
  "io_open (close_io_stream c) \<Longrightarrow> io_open c \<and> \<not> io_stream c"
  "io_closed c \<Longrightarrow> io_closed (close_io_stream c)"
  "output_source (close_io_stream c) \<Longrightarrow> output_source c \<and> (io_open c \<longrightarrow> \<not> io_stream c)"
  by (auto simp: close_io_stream_def close_io_stop_timeout_def stop_output_def stop_input_def Let_def split: if_splits)

lemmas queue_inv_defs = queue_inv_def queued_total_def

lemma queue_inv_queue:
  assumes "queue_inv c"
  shows "queue_inv (web_socket_connection_queue flags d a c)"
proof (cases "close_sent c \<or> d = []")
  case True
  then show ?thesis using assms by (auto simp: web_socket_connection_queue_def)
next
  case False
  define f where "f = \<lparr>fr_data = d, fr_last = last_frame flags, fr_sent = 0, fr_amount = a\<rparr>"
  have f: "fr_sent f = 0" "fr_data f = d" "d \<noteq> []" using False by (simp_all add: f_def)
  note e = enqueue_frames_ok [of "outgoing c" f "urgent flags"] enqueue_partial_head [of f "urgent flags" "outgoing c"]
     enqueue_total [of "length \<circ> fr_data" "urgent flags" f "outgoing c"]
  show ?thesis
    using assms False f e
    unfolding web_socket_connection_queue_def f_def [symmetric] Let_def
    by (auto simp: queue_inv_def queued_total_def start_output_def pressures_def QUEUE_PRESSURE_def)
qed

lemma queue_inv_act: "ws_act c c' \<Longrightarrow> queue_inv c \<Longrightarrow> queue_inv c'"
proof (induction rule: ws_act.induct)
  case (act_close_io c)
  then show ?case using close_io_streams(1) [of c] by (auto simp: queue_inv_defs)
next
  case (act_send_close c d flags a)
  then show ?case using queue_inv_queue [of c flags d a] by (simp add: queue_inv_defs pressures_def)
next
  case (act_signal s c)
  then show ?case by (simp add: queue_inv_defs pressure_of_other)
qed (simp_all add: queue_inv_queue, simp_all add: queue_inv_defs pressures_def stop_output_def)

lemma queue_inv_acts: "ws_acts c c' \<Longrightarrow> queue_inv c \<Longrightarrow> queue_inv c'"
  by (induction rule: rtranclp_induct) (auto intro: queue_inv_act)

text \<open>Writing takes the head of the queue forward.\<close>

lemma on_output_defined:
  assumes "queue_inv c" "queued_total c < G_MAXSIZE"
  shows "on_web_socket_output outcome c \<noteq> None"
proof (cases "outgoing c")
  case (Cons f rest)
  then have "fr_sent f < length (fr_data f)" "length (fr_data f) \<le> output_queued c"
    using assms by (auto simp: queue_inv_defs frames_ok_def)
  then show ?thesis
    by (cases outcome) (auto simp: on_web_socket_output_def Cons Let_def)
qed (simp add: on_web_socket_output_def)

text \<open>The effect of a write: nothing to send, an error, part of the frame, or the whole frame.\<close>

definition frame_sent :: "WsFrame \<Rightarrow> WsFrame list \<Rightarrow> WebSocketConnectionPrivate \<Rightarrow> WebSocketConnectionPrivate" where
  "frame_sent f rest c =
     c\<lparr>wire := wire c @ drop (fr_sent f) (fr_data f), outgoing := rest,
       output_queued := output_queued c - length (fr_data f), sent_frames := sent_frames c @ [fr_data f]\<rparr>"

definition last_sent :: "WsFrame \<Rightarrow> WebSocketConnectionPrivate \<Rightarrow> WebSocketConnectionPrivate" where
  "last_sent f c =
     (if fr_last f then (if server_side c then close_io_stream c else close_io_after_timeout (shutdown_wr_io_stream c)) else c)"

definition relieve :: "nat \<Rightarrow> WebSocketConnectionPrivate \<Rightarrow> WebSocketConnectionPrivate" where
  "relieve before c = (if before \<ge> QUEUE_PRESSURE \<and> output_queued c < QUEUE_PRESSURE then emit (Sig_pressure False) c else c)"

lemma on_output_cases:
  assumes "on_web_socket_output outcome c = Some c'"
  obtains (idle) "outgoing c = []" "c' = stop_output c"
  | (failed) e f rest where "outgoing c = f # rest" "outcome = Io_write_failed e" "c' = web_socket_connection_error_and_close e True c"
  | (part) f rest n where "outgoing c = f # rest" "fr_sent f + n < length (fr_data f)"
      "c' = c\<lparr>wire := wire c @ take n (drop (fr_sent f) (fr_data f)), outgoing := f\<lparr>fr_sent := fr_sent f + n\<rparr> # rest\<rparr>"
  | (complete) f rest n where "outgoing c = f # rest" "fr_sent f < length (fr_data f)" "outcome = Io_wrote n" "length (fr_data f) \<le> output_queued c"
      "c' = relieve (output_queued c) (last_sent f (frame_sent f rest c))"
proof (cases "outgoing c")
  case Nil
  then show ?thesis using assms idle by (simp add: on_web_socket_output_def)
next
  case (Cons f rest)
  show ?thesis
  proof (cases outcome)
    case (Io_write_failed e)
    then show ?thesis using assms Cons failed by (auto simp: on_web_socket_output_def Let_def split: if_splits)
  next
    case Io_write_blocked
    then show ?thesis using assms Cons part [of f rest 0] by (auto simp: on_web_socket_output_def Let_def split: if_splits)
  next
    case (Io_wrote n)
    define m where "m = min n (length (fr_data f) - fr_sent f)"
    have lt: "fr_sent f < length (fr_data f)"
      using assms Cons by (auto simp: on_web_socket_output_def Let_def split: if_splits)
    show ?thesis
    proof (cases "fr_sent f + m < length (fr_data f)")
      case True
      then show ?thesis
        using assms Cons Io_wrote lt part [of f rest m]
        by (auto simp: on_web_socket_output_def Let_def m_def [symmetric] split: if_splits)
    next
      case False
      then have m: "m = length (fr_data f) - fr_sent f" by (auto simp: m_def)
      then show ?thesis
        using assms Cons Io_wrote lt complete [of f rest n]
        by (auto simp: on_web_socket_output_def Let_def m_def [symmetric] relieve_def last_sent_def frame_sent_def
            split: if_splits)
    qed
  qed
qed

lemma last_sent_sel [simp]:
  "outgoing (last_sent f c) = outgoing c" "output_queued (last_sent f c) = output_queued c" "wire (last_sent f c) = wire c"
  "sent_frames (last_sent f c) = sent_frames c" "pressures (last_sent f c) = pressures c" "io_stream (last_sent f c) = io_stream c"
  "close_sent (last_sent f c) = close_sent c" "handshake_done (last_sent f c) = handshake_done c"
  using close_io_sel(5) [of c]
  by (simp_all add: last_sent_def close_io_after_timeout_def shutdown_wr_io_stream_def stop_output_def pressures_def)

lemma last_sent_streams:
  "io_open (last_sent f c) \<Longrightarrow> io_open c"
  "io_closed c \<Longrightarrow> io_closed (last_sent f c)"
  "output_source (last_sent f c) \<Longrightarrow> output_source c"
  "io_open c \<Longrightarrow> io_stream c \<Longrightarrow> fr_last f \<Longrightarrow> \<not> output_source (last_sent f c)"
  using close_io_streams [of c]
  by (auto simp: last_sent_def close_io_after_timeout_def shutdown_wr_io_stream_def stop_output_def split: if_splits)

lemma frame_sent_sel [simp]:
  "outgoing (frame_sent f rest c) = rest" "output_queued (frame_sent f rest c) = output_queued c - length (fr_data f)"
  "wire (frame_sent f rest c) = wire c @ drop (fr_sent f) (fr_data f)"
  "sent_frames (frame_sent f rest c) = sent_frames c @ [fr_data f]" "pressures (frame_sent f rest c) = pressures c"
  "io_stream (frame_sent f rest c) = io_stream c" "io_open (frame_sent f rest c) = io_open c" "io_closed (frame_sent f rest c) = io_closed c"
  "close_sent (frame_sent f rest c) = close_sent c" "handshake_done (frame_sent f rest c) = handshake_done c"
  "output_source (frame_sent f rest c) = output_source c"
  by (simp_all add: frame_sent_def pressures_def)

lemma relieve_sel [simp]:
  "outgoing (relieve n c) = outgoing c" "output_queued (relieve n c) = output_queued c" "wire (relieve n c) = wire c"
  "sent_frames (relieve n c) = sent_frames c" "io_stream (relieve n c) = io_stream c" "io_open (relieve n c) = io_open c"
  "io_closed (relieve n c) = io_closed c" "close_sent (relieve n c) = close_sent c" "handshake_done (relieve n c) = handshake_done c"
  "output_source (relieve n c) = output_source c"
  by (simp_all add: relieve_def)

lemma queue_inv_output:
  assumes "queue_inv c" "queued_total c < G_MAXSIZE" "on_web_socket_output outcome c = Some c'"
  shows "queue_inv c'"
  using assms(3)
proof (cases rule: on_output_cases)
  case idle
  then show ?thesis using assms(1) by (simp add: queue_inv_defs pressures_def stop_output_def)
next
  case (failed e f rest)
  then show ?thesis using queue_inv_acts [OF acts_error_and_close [OF acts_refl] assms(1)] by simp
next
  case (part f rest n)
  then show ?thesis using assms(1,2)
    by (auto simp: queue_inv_defs frames_ok_def partial_head_def pressures_def take_add)
next
  case (complete f rest n)
  have "partial_head rest = []" using assms(1) complete(1)
    by (cases rest) (auto simp: queue_inv_def frames_ok_def partial_head_def)
  moreover have "frames_ok rest" using assms(1) complete(1) by (cases rest) (auto simp: queue_inv_def frames_ok_def)
  moreover have "output_queued c = length (fr_data f) + sum_list (map (length \<circ> fr_data) rest)"
    using assms(1,2) complete(1) by (simp add: queue_inv_defs)
  moreover have "wire c @ drop (fr_sent f) (fr_data f) = concat (sent_frames c) @ fr_data f"
    using assms(1) complete(1) by (simp add: queue_inv_def partial_head_def)
  ultimately show ?thesis
    using assms(1) complete last_sent_streams(1) [of f "frame_sent f rest c"]
    by (auto simp: queue_inv_defs relieve_def)
qed

context handshake_class
begin

lemma step_acts:
  assumes "ws_step handshake start c c'"
  shows "ws_acts c c' \<or> c' = web_socket_connection_take_io_stream c \<or> (\<exists>e. c' = on_iostream_closed e c \<and> \<not> io_open c) \<or>
    (\<exists>ty prefix message. c' = web_socket_connection_send ty prefix message c) \<or>
    (\<exists>outcome. output_source c \<and> (io_open c \<or> (\<exists>e. outcome = Io_write_failed e)) \<and> on_web_socket_output outcome c = Some c')"
  using assms
proof cases
  case step_start
  then show ?thesis using start_acts by blast
next
  case (step_failed e)
  then show ?thesis using acts_error_and_close [OF acts_refl] by blast
next
  case (step_idle ok)
  then show ?thesis using acts_on_idle [OF acts_refl] by blast
next
  case (step_input outcomes)
  then show ?thesis using acts_on_input [OF acts_refl] by blast
next
  case step_timeout
  then show ?thesis by (auto simp: on_timeout_close_io_def intro!: ws_acts)
next
  case (step_throttle b)
  then have "ws_acts c c'" by (auto simp: on_throttle_pressure_def stop_input_def start_input_def intro!: ws_acts)
  then show ?thesis by blast
next
  case (step_close code data)
  then show ?thesis using acts_close [OF acts_refl] by blast
qed auto

end

lemma queue_inv_send: "queue_inv c \<Longrightarrow> queue_inv (web_socket_connection_send ty prefix message c)"
  by (auto simp: web_socket_connection_send_def send_prefixed_message_rfc6455_def Let_def
      intro!: queue_inv_queue split: WebSocketDataType.splits)
     (auto simp: queue_inv_defs pressures_def)

section \<open>The invariant of the close frame\<close>

abbreviation no_close :: "bytes list \<Rightarrow> bool" where
  "no_close ds \<equiv> list_all (\<lambda>d. \<not> is_close_frame d) ds"

text \<open>One close frame is waiting, and nothing will be sent behind it: it is the last one, or marked as the last.\<close>

fun close_pending :: "WsFrame list \<Rightarrow> bool" where
  "close_pending [] = False"
| "close_pending (f # fs) =
     (if is_close_frame (fr_data f) then no_close (map fr_data fs) \<and> (fs = [] \<or> fr_last f) else close_pending fs)"

definition close_inv :: "WebSocketConnectionPrivate \<Rightarrow> bool" where
  "close_inv c \<longleftrightarrow>
     (if close_sent c then
        (no_close (sent_frames c) \<and> close_pending (outgoing c)) \<or>
        (no_close (butlast (sent_frames c)) \<and> no_close (map fr_data (outgoing c)) \<and> (outgoing c = [] \<or> \<not> output_source c))
      else no_close (sent_frames c) \<and> no_close (map fr_data (outgoing c)))"

lemma close_pending_snoc: "no_close (map fr_data fs) \<Longrightarrow> is_close_frame (fr_data f) \<Longrightarrow> close_pending (fs @ [f])"
  by (induction fs) auto

lemma close_pending_enqueue:
  assumes "no_close (map fr_data fs)" "is_close_frame (fr_data f)" "u \<le> fr_last f"
  shows "close_pending (enqueue u f fs)"
  using assms close_pending_snoc [of fs f] by (cases fs) (auto simp: enqueue_def)

lemma no_close_enqueue: "no_close (map fr_data (enqueue u f fs)) \<longleftrightarrow> no_close (map fr_data fs) \<and> \<not> is_close_frame (fr_data f)"
  by (auto simp: list_all_iff enqueue_set)

text \<open>What queueing a frame does to the fields that these invariants read.\<close>

lemma queue_sel [simp]:
  "sent_frames (web_socket_connection_queue flags d a c) = sent_frames c"
  "close_sent (web_socket_connection_queue flags d a c) = close_sent c"
  "io_open (web_socket_connection_queue flags d a c) = io_open c"
  "io_stream (web_socket_connection_queue flags d a c) = io_stream c"
  "io_closed (web_socket_connection_queue flags d a c) = io_closed c"
  "handshake_done (web_socket_connection_queue flags d a c) = handshake_done c"
  by (simp_all add: web_socket_connection_queue_def start_output_def Let_def)

lemma queue_outgoing:
  "outgoing (web_socket_connection_queue flags d a c) =
    (if close_sent c \<or> d = [] then outgoing c
     else enqueue (urgent flags) \<lparr>fr_data = d, fr_last = last_frame flags, fr_sent = 0, fr_amount = a\<rparr> (outgoing c))"
  by (simp add: web_socket_connection_queue_def start_output_def Let_def)

lemma queue_refused: "close_sent c \<Longrightarrow> web_socket_connection_queue flags d a c = c"
  by (simp add: web_socket_connection_queue_def)

lemma close_inv_queue:
  "close_inv c \<Longrightarrow> \<not> is_close_frame d \<Longrightarrow> close_inv (web_socket_connection_queue flags d a c)"
  by (cases "close_sent c") (auto simp: queue_refused close_inv_def queue_outgoing no_close_enqueue)

lemma close_inv_act: "ws_act c c' \<Longrightarrow> close_inv c \<Longrightarrow> close_inv c'"
proof (induction rule: ws_act.induct)
  case (act_close_io c)
  then show ?case using close_io_streams(3) [of c] by (auto simp: close_inv_def)
next
  case (act_queue d c flags a)
  then show ?case by (simp add: close_inv_queue)
next
  case (act_send_close c d flags a)
  then show ?case
    by (auto simp: close_inv_def queue_outgoing is_close_frame_def intro!: close_pending_enqueue)
qed (auto simp: close_inv_def stop_output_def)

lemma close_inv_acts: "ws_acts c c' \<Longrightarrow> close_inv c \<Longrightarrow> close_inv c'"
  by (induction rule: rtranclp_induct) (auto intro: close_inv_act)

lemma close_inv_output:
  assumes "close_inv c" "queue_inv c" "output_source c" "io_open c \<or> (\<exists>e. outcome = Io_write_failed e)"
    and "on_web_socket_output outcome c = Some c'"
  shows "close_inv c'"
  using assms(5)
proof (cases rule: on_output_cases)
  case idle
  then show ?thesis using assms(1) by (auto simp: close_inv_def stop_output_def)
next
  case (failed e f rest)
  then show ?thesis using close_inv_acts [OF acts_error_and_close [OF acts_refl] assms(1)] by simp
next
  case (part f rest n)
  then show ?thesis using assms(1,3) by (auto simp: close_inv_def split: if_splits)
next
  case (complete f rest n)
  then have "fr_last f \<Longrightarrow> \<not> output_source (last_sent f (frame_sent f rest c))"
    using last_sent_streams(4) [of "frame_sent f rest c" f] assms(2,4) by (auto simp: queue_inv_def)
  then show ?thesis
    using assms(1,3) complete by (auto simp: close_inv_def butlast_append list_all_iff split: if_splits)
qed

section \<open>The order of the data frames\<close>

definition data_frames :: "WebSocketConnectionPrivate \<Rightarrow> bytes list" where
  "data_frames c = filter is_data_frame (sent_frames c @ map fr_data (outgoing c))"

lemma data_enqueue:
  "\<not> is_data_frame (fr_data f) \<Longrightarrow> filter is_data_frame (map fr_data (enqueue u f fs)) = filter is_data_frame (map fr_data fs)"
  by (cases fs) (auto simp: enqueue_def)

lemma data_frames_queue: "\<not> is_data_frame d \<Longrightarrow> data_frames (web_socket_connection_queue flags d a c) = data_frames c"
  by (simp add: data_frames_def queue_outgoing data_enqueue)

lemma data_frames_act: "ws_act c c' \<Longrightarrow> data_frames c' = data_frames c"
proof (induction rule: ws_act.induct)
  case (act_send_close c d flags a)
  then have "\<not> is_data_frame d" by (auto simp: is_close_frame_def is_data_frame_def)
  then show ?case using data_frames_queue [of d flags a c] by (simp add: data_frames_def)
qed (simp_all add: data_frames_queue, simp_all add: data_frames_def stop_output_def)

lemma data_frames_acts: "ws_acts c c' \<Longrightarrow> data_frames c' = data_frames c"
  by (induction rule: rtranclp_induct) (auto dest: data_frames_act)

lemma data_frames_output:
  assumes "on_web_socket_output outcome c = Some c'"
  shows "data_frames c' = data_frames c"
  using assms
proof (cases rule: on_output_cases)
  case (failed e f rest)
  then show ?thesis using data_frames_acts [OF acts_error_and_close [OF acts_refl]] by simp
qed (auto simp: data_frames_def stop_output_def)

section \<open>The state only goes forward\<close>

lemma ready_state_mono:
  assumes "io_closed c \<longrightarrow> io_closed c'" "handshake_done c \<longrightarrow> handshake_done c'"
    and "io_stream c \<and> \<not> io_open c \<or> close_sent c \<longrightarrow> io_closed c' \<or> io_stream c' \<and> \<not> io_open c' \<or> close_sent c'"
  shows "web_socket_connection_get_ready_state c \<le> web_socket_connection_get_ready_state c'"
  using assms by (auto simp: web_socket_connection_get_ready_state_def less_eq_WebSocketState_def)

lemma ready_state_act:
  "ws_act c c' \<Longrightarrow> web_socket_connection_get_ready_state c \<le> web_socket_connection_get_ready_state c'"
proof (induction rule: ws_act.induct)
  case (act_close_io c)
  then show ?case using close_io_streams [of c] by (intro ready_state_mono) auto
qed (rule ready_state_mono; simp add: stop_output_def; fail)+

lemma ready_state_acts:
  "ws_acts c c' \<Longrightarrow> web_socket_connection_get_ready_state c \<le> web_socket_connection_get_ready_state c'"
  by (induction rule: rtranclp_induct) (auto dest: ready_state_act order_trans)

lemma ready_state_output:
  assumes "on_web_socket_output outcome c = Some c'"
  shows "web_socket_connection_get_ready_state c \<le> web_socket_connection_get_ready_state c'"
  using assms
proof (cases rule: on_output_cases)
  case (failed e f rest)
  then show ?thesis using ready_state_acts [OF acts_error_and_close [OF acts_refl]] by simp
next
  case (complete f rest n)
  then show ?thesis using last_sent_streams [where f = f and c = "frame_sent f rest c"] by (intro ready_state_mono) auto
qed (auto simp: stop_output_def intro!: ready_state_mono)

section \<open>Text that is delivered is text\<close>

definition text_inv :: "WebSocketConnectionPrivate \<Rightarrow> bool" where
  "text_inv c \<longleftrightarrow>
     (message_opcode c = 1 \<longrightarrow> g_utf8_validate (case message_data c of None \<Rightarrow> [] | Some d \<Rightarrow> d)) \<and>
     (\<forall>d. Sig_message 1 d \<in> set (signals c) \<longrightarrow> g_utf8_validate d)"

lemma append_fragment_text: "g_utf8_validate m \<Longrightarrow> append_fragment 1 m p = Some d \<Longrightarrow> g_utf8_validate d"
  by (auto simp: append_fragment_def split: if_splits)

lemma queue_text_sel [simp]:
  "message_opcode (web_socket_connection_queue flags d a c) = message_opcode c"
  "message_data (web_socket_connection_queue flags d a c) = message_data c"
  by (simp_all add: web_socket_connection_queue_def start_output_def Let_def)

lemma queue_text_signals: "Sig_message opc m \<in> set (signals (web_socket_connection_queue flags d a c)) \<longleftrightarrow> Sig_message opc m \<in> set (signals c)"
  by (auto simp: web_socket_connection_queue_def start_output_def Let_def)

lemma close_io_text [simp]:
  "message_opcode (close_io_stream c) = message_opcode c" "message_data (close_io_stream c) = message_data c"
  "Sig_message opc m \<in> set (signals (close_io_stream c)) \<longleftrightarrow> Sig_message opc m \<in> set (signals c)"
  by (auto simp: close_io_stream_def close_io_stop_timeout_def stop_output_def stop_input_def Let_def)

lemma text_inv_act: "ws_act c c' \<Longrightarrow> text_inv c \<Longrightarrow> text_inv c'"
proof (induction rule: ws_act.induct)
  case (act_fragment c m p d)
  then show ?case using append_fragment_text [of m p d] by (auto simp: text_inv_def)
next
  case (act_deliver c m p d)
  then show ?case using append_fragment_text [of m p d] by (auto simp: text_inv_def)
next
  case (act_signal s c)
  then show ?case by (cases s) (auto simp: text_inv_def)
qed (auto simp: text_inv_def queue_text_signals stop_output_def)

lemma text_inv_acts: "ws_acts c c' \<Longrightarrow> text_inv c \<Longrightarrow> text_inv c'"
  by (induction rule: rtranclp_induct) (auto intro: text_inv_act)

lemma text_inv_output:
  assumes "on_web_socket_output outcome c = Some c'" "text_inv c"
  shows "text_inv c'"
  using assms(1)
proof (cases rule: on_output_cases)
  case (failed e f rest)
  then show ?thesis using text_inv_acts [OF acts_error_and_close [OF acts_refl] assms(2)] by simp
next
  case (complete f rest n)
  then show ?thesis
    using assms(2)
    by (auto simp: text_inv_def relieve_def last_sent_def frame_sent_def close_io_after_timeout_def shutdown_wr_io_stream_def stop_output_def)
qed (use assms(2) in \<open>auto simp: text_inv_def stop_output_def\<close>)

section \<open>Reachable connections\<close>

text \<open>The frame of a message that is sent, and when a message is accepted.\<close>

definition frame_key :: "WebSocketConnectionPrivate \<Rightarrow> bytes option" where
  "frame_key c = (if server_side c then None else Some (rand_bytes (g_random_int c (random_count c))))"

fun data_opcode :: "WebSocketDataType \<Rightarrow> byte" where
  "data_opcode DATA_TEXT = 0x01"
| "data_opcode DATA_BINARY = 0x02"

abbreviation prefix_bytes :: "bytes option \<Rightarrow> bytes" where
  "prefix_bytes prefix \<equiv> (case prefix of None \<Rightarrow> [] | Some p \<Rightarrow> p)"

definition send_accepted :: "WebSocketDataType \<Rightarrow> bytes option \<Rightarrow> bytes \<Rightarrow> WebSocketConnectionPrivate \<Rightarrow> bool" where
  "send_accepted ty prefix message c \<longleftrightarrow>
     web_socket_connection_get_ready_state c = OPEN \<and>
     (ty = DATA_BINARY \<or> g_utf8_validate (prefix_bytes prefix) \<and> g_utf8_validate message)"

lemma send_refused: "\<not> send_accepted ty prefix message c \<Longrightarrow> web_socket_connection_send ty prefix message c = c"
  by (cases ty) (auto simp: send_accepted_def web_socket_connection_send_def Let_def)

lemma send_queues:
  assumes "send_accepted ty prefix message c"
  obtains n r where "web_socket_connection_send ty prefix message c =
    web_socket_connection_queue QUEUE_NORMAL (build_frame_rfc6455 (frame_key c) (data_opcode ty) (prefix_bytes prefix) message) n
      (c\<lparr>random_count := r\<rparr>)"
proof (cases "server_side c")
  case True
  have "c = c\<lparr>random_count := random_count c\<rparr>" by simp
  then show ?thesis
    using assms True that [of _ "random_count c"]
    by (cases ty) (auto simp: send_accepted_def web_socket_connection_send_def send_prefixed_message_rfc6455_def frame_key_def Let_def)
next
  case False
  then show ?thesis
    using assms that
    by (cases ty) (auto simp: send_accepted_def web_socket_connection_send_def send_prefixed_message_rfc6455_def frame_key_def Let_def)
qed

lemma data_frame_head:
  "is_data_frame (build_frame_rfc6455 key (data_opcode ty) prefix message)"
  "\<not> is_close_frame (build_frame_rfc6455 key (data_opcode ty) prefix message)"
  using build_frame_head [of key "data_opcode ty" prefix message]
  by (cases ty; auto simp: is_close_frame_def is_data_frame_def)+

lemma take_io_stream_inv:
  "queue_inv c \<Longrightarrow> queue_inv (web_socket_connection_take_io_stream c)"
  "close_inv c \<Longrightarrow> close_inv (web_socket_connection_take_io_stream c)"
  "data_frames (web_socket_connection_take_io_stream c) = data_frames c"
  "web_socket_connection_get_ready_state c \<le> web_socket_connection_get_ready_state (web_socket_connection_take_io_stream c)"
  by (auto simp: web_socket_connection_take_io_stream_def queue_inv_defs close_inv_def data_frames_def pressures_def
      intro!: ready_state_mono)

lemma iostream_closed_sel [simp]:
  "outgoing (on_iostream_closed e c) = outgoing c" "output_queued (on_iostream_closed e c) = output_queued c"
  "wire (on_iostream_closed e c) = wire c" "sent_frames (on_iostream_closed e c) = sent_frames c"
  "pressures (on_iostream_closed e c) = pressures c" "close_sent (on_iostream_closed e c) = close_sent c"
  "output_source (on_iostream_closed e c) = output_source c" "io_open (on_iostream_closed e c) = io_open c"
  "io_stream (on_iostream_closed e c) = io_stream c" "io_closed (on_iostream_closed e c) = True"
  "handshake_done (on_iostream_closed e c) = handshake_done c"
  by (simp_all add: on_iostream_closed_def Let_def pressures_def split: option.splits)

lemma iostream_closed_inv:
  "queue_inv c \<Longrightarrow> queue_inv (on_iostream_closed e c)"
  "close_inv c \<Longrightarrow> close_inv (on_iostream_closed e c)"
  "data_frames (on_iostream_closed e c) = data_frames c"
  "web_socket_connection_get_ready_state c \<le> web_socket_connection_get_ready_state (on_iostream_closed e c)"
  by (auto simp: queue_inv_defs close_inv_def data_frames_def intro!: ready_state_mono)

lemma close_inv_send: "close_inv c \<Longrightarrow> close_inv (web_socket_connection_send ty prefix message c)"
proof (cases "send_accepted ty prefix message c")
  case True
  assume c: "close_inv c"
  obtain n r where "web_socket_connection_send ty prefix message c =
    web_socket_connection_queue QUEUE_NORMAL (build_frame_rfc6455 (frame_key c) (data_opcode ty) (prefix_bytes prefix) message) n
      (c\<lparr>random_count := r\<rparr>)" using send_queues [OF True] .
  moreover have "close_inv (c\<lparr>random_count := r\<rparr>)" using c by (simp add: close_inv_def)
  ultimately show ?thesis by (simp add: close_inv_queue data_frame_head)
qed (simp add: send_refused)

lemma ready_state_send: "web_socket_connection_get_ready_state (web_socket_connection_send ty prefix message c) = web_socket_connection_get_ready_state c"
proof (cases "send_accepted ty prefix message c")
  case True
  then show ?thesis by (rule send_queues) (simp add: web_socket_connection_get_ready_state_def)
qed (simp add: send_refused)

lemma data_frames_send:
  "data_frames (web_socket_connection_send ty prefix message c) =
     data_frames c @ (if send_accepted ty prefix message c
                      then [build_frame_rfc6455 (frame_key c) (data_opcode ty) (prefix_bytes prefix) message] else [])"
proof (cases "send_accepted ty prefix message c")
  case True
  then have "\<not> close_sent c" by (auto simp: send_accepted_def web_socket_connection_get_ready_state_def split: if_splits)
  moreover obtain n r where "web_socket_connection_send ty prefix message c =
    web_socket_connection_queue QUEUE_NORMAL (build_frame_rfc6455 (frame_key c) (data_opcode ty) (prefix_bytes prefix) message) n
      (c\<lparr>random_count := r\<rparr>)" using send_queues [OF True] .
  ultimately show ?thesis
    using True build_frame_head(1) data_frame_head(1) by (simp add: data_frames_def queue_outgoing QUEUE_NORMAL_def enqueue_def)
qed (simp add: send_refused)

lemma text_inv_send: "text_inv c \<Longrightarrow> text_inv (web_socket_connection_send ty prefix message c)"
proof (cases "send_accepted ty prefix message c")
  case True
  assume "text_inv c"
  then show ?thesis by (rule_tac send_queues [OF True]) (auto simp: text_inv_def queue_text_signals)
qed (simp add: send_refused)

lemma text_inv_streams:
  "text_inv c \<Longrightarrow> text_inv (web_socket_connection_take_io_stream c)"
  "text_inv c \<Longrightarrow> text_inv (on_iostream_closed e c)"
  by (auto simp: text_inv_def web_socket_connection_take_io_stream_def on_iostream_closed_def Let_def split: option.splits)

context handshake_class
begin

lemma step_text: "ws_step handshake start c c' \<Longrightarrow> text_inv c \<Longrightarrow> text_inv c'"
  using step_acts text_inv_acts text_inv_streams text_inv_send text_inv_output by blast

lemma reachable_text: "ws_reachable handshake start c \<Longrightarrow> text_inv c"
proof (induction rule: ws_reachable.induct)
  case (reach_init server input headers random handled)
  show ?case by (simp add: text_inv_def web_socket_connection_init_def)
next
  case (reach_step c c')
  then show ?case using step_text by blast
qed

lemma step_inv:
  assumes "ws_step handshake start c c'" "queue_inv c" "close_inv c" "queued_total c < G_MAXSIZE"
  shows "queue_inv c' \<and> close_inv c'"
  using step_acts [OF assms(1)] assms(2-4) queue_inv_acts close_inv_acts take_io_stream_inv iostream_closed_inv
    queue_inv_send close_inv_send queue_inv_output close_inv_output
  by metis

lemma reachable_inv: "ws_reachable handshake start c \<Longrightarrow> queue_inv c \<and> close_inv c \<and> queued_total c < G_MAXSIZE"
proof (induction rule: ws_reachable.induct)
  case (reach_init server input headers random handled)
  show ?case
    by (simp add: web_socket_connection_init_def queue_inv_defs close_inv_def frames_ok_def partial_head_def pressures_def QUEUE_PRESSURE_def G_MAXSIZE_def)
next
  case (reach_step c c')
  then show ?case using step_inv by blast
qed

lemma step_ready_state:
  "ws_step handshake start c c' \<Longrightarrow> web_socket_connection_get_ready_state c \<le> web_socket_connection_get_ready_state c'"
  using step_acts ready_state_acts take_io_stream_inv(4) iostream_closed_inv(4) ready_state_send ready_state_output
  by (metis order_refl)

end

end
