(* ===== verification/WebSocketHandshake.thy ===== *)
theory WebSocketHandshake
  imports HttpParse WebSocketSafety
begin

unbundle bit_operations_syntax

text \<open>
  \<^verbatim>\<open>src/websocket/websocketserver.c\<close> and \<^verbatim>\<open>src/websocket/websocketclient.c\<close>: the opening handshake, and
  \<^verbatim>\<open>_web_socket_connection_choose_protocol\<close>.  Checksums and Base64 are functions of GLib, they are
  parameters here.
\<close>

section \<open>The protocol\<close>

text \<open>\<^verbatim>\<open>g_strsplit_set\<close>: pieces between delimiters, empty ones included; no piece for the empty string.\<close>

fun split_set :: "bytes \<Rightarrow> bytes \<Rightarrow> bytes list" where
  "split_set delims [] = [[]]"
| "split_set delims (b # s) =
     (if b \<in> set delims then [] # split_set delims s
      else (case split_set delims s of [] \<Rightarrow> [[b]] | w # ws \<Rightarrow> (b # w) # ws))"

definition g_strsplit_set :: "bytes \<Rightarrow> bytes \<Rightarrow> bytes list" where
  "g_strsplit_set s delims = (if s = [] then [] else split_set delims s)"

definition web_socket_connection_choose_protocol ::
    "bytes list option \<Rightarrow> bytes option \<Rightarrow> WebSocketConnectionPrivate \<Rightarrow> bool \<times> WebSocketConnectionPrivate" where
  "web_socket_connection_choose_protocol protocols value c =
     (let c = c\<lparr>chosen_protocol := None\<rparr> in
      case value of
        None \<Rightarrow>
          (True, (case protocols of
                    Some (p # _) \<Rightarrow> c\<lparr>chosen_protocol := Some p\<rparr>
                  | _ \<Rightarrow> c))
      | Some v \<Rightarrow>
          if \<not> list_all (\<lambda>b. b < 0x80) v then (False, c)
          else
            let values = g_strsplit_set v (asc '', '') in
            case protocols of
              None \<Rightarrow> (True, c\<lparr>chosen_protocol := (case values of [] \<Rightarrow> None | w # _ \<Rightarrow> Some w)\<rparr>)
            | Some ps \<Rightarrow>
                (case find (\<lambda>w. w \<in> set ps) values of
                   None \<Rightarrow> (False, c)
                 | Some w \<Rightarrow> (True, c\<lparr>chosen_protocol := Some w\<rparr>)))"

section \<open>The server\<close>

record ws_crypto =
  sha1 :: "bytes \<Rightarrow> bytes"
  g_base64_encode :: "bytes \<Rightarrow> bytes"
  g_base64_decode :: "bytes \<Rightarrow> bytes"

definition web_socket_complete_accept_key_rfc6455 :: "ws_crypto \<Rightarrow> bytes \<Rightarrow> bytes" where
  "web_socket_complete_accept_key_rfc6455 crypto key =
     g_base64_encode crypto (sha1 crypto (key @ asc ''258EAFA5-E914-47DA-95CA-C5AB0DC85B11''))"

definition validate_rfc6455_websocket_key :: "ws_crypto \<Rightarrow> bytes \<Rightarrow> bool" where
  "validate_rfc6455_websocket_key crypto key =
     (if length key = 0 \<or> length key > 1024 then False
      else length (g_base64_decode crypto key) = 16)"

abbreviation crlf :: bytes where
  "crlf \<equiv> [13, 10]"

definition bad_response :: "string \<Rightarrow> bytes" where
  "bad_response status =
     asc ''HTTP/1.1 '' @ asc status @ crlf @ asc ''Connection: close'' @ crlf @ crlf @
     asc ''<html><head><title>'' @ asc status @ asc ''</title></head>'' @ crlf @
     asc ''<body>Received invalid WebSocket request</body></html>'' @ crlf"

definition respond_handshake_error :: "string \<Rightarrow> WebSocketConnectionPrivate \<Rightarrow> WebSocketConnectionPrivate" where
  "respond_handshake_error status c =
     snd (web_socket_connection_error (Web_socket_error WEB_SOCKET_CLOSE_PROTOCOL)
            (web_socket_connection_queue \<lparr>urgent = True, last_frame = True\<rparr> (bad_response status) 0 c))"

definition respond_handshake_forbidden :: "WebSocketConnectionPrivate \<Rightarrow> WebSocketConnectionPrivate" where
  "respond_handshake_forbidden = respond_handshake_error ''403 Forbidden''"

definition respond_handshake_bad :: "WebSocketConnectionPrivate \<Rightarrow> WebSocketConnectionPrivate" where
  "respond_handshake_bad = respond_handshake_error ''400 Bad Request''"

record WebSocketServer =
  allowed_origins :: "bytes list option"
  allowed_protocols :: "bytes list option"
  server_crypto :: ws_crypto

definition handshake_response :: "ws_crypto \<Rightarrow> bytes \<Rightarrow> bytes option \<Rightarrow> bytes" where
  "handshake_response crypto key protocol =
     asc ''HTTP/1.1 101 Switching Protocols'' @ crlf @
     print_header (asc ''Upgrade'', asc ''websocket'') @
     print_header (asc ''Connection'', asc ''Upgrade'') @
     print_header (asc ''Sec-WebSocket-Accept'', web_socket_complete_accept_key_rfc6455 crypto key) @
     (case protocol of None \<Rightarrow> [] | Some p \<Rightarrow> print_header (asc ''Sec-WebSocket-Protocol'', p)) @ crlf"

definition respond_handshake_rfc6455 ::
    "WebSocketServer \<Rightarrow> headers \<Rightarrow> WebSocketConnectionPrivate \<Rightarrow> bool \<times> WebSocketConnectionPrivate" where
  "respond_handshake_rfc6455 self headers c =
     (if \<not> web_socket_util_header_equals headers (asc ''Upgrade'') (asc ''websocket'') \<or>
         \<not> web_socket_util_header_contains headers (asc ''Connection'') (asc ''upgrade'') \<or>
         \<not> web_socket_util_header_equals headers (asc ''Sec-WebSocket-Version'') (asc ''13'') then
        (False, respond_handshake_bad c)
      else
        case web_socket_connection_choose_protocol (allowed_protocols self)
               (headers_lookup headers (asc ''Sec-WebSocket-Protocol'')) c of
          (False, c) \<Rightarrow> (False, respond_handshake_bad c)
        | (True, c) \<Rightarrow>
            (case headers_lookup headers (asc ''Sec-WebSocket-Key'') of
               None \<Rightarrow> (False, respond_handshake_bad c)
             | Some key \<Rightarrow>
                 if \<not> validate_rfc6455_websocket_key (server_crypto self) key then (False, respond_handshake_bad c)
                 else if headers_lookup headers (asc ''Host'') = None then (False, respond_handshake_bad c)
                 else
                   let origin_problem =
                         (case allowed_origins self of
                            None \<Rightarrow> False
                          | Some origins \<Rightarrow>
                              (case headers_lookup headers (asc ''Origin'') of
                                 None \<Rightarrow> True
                               | Some origin \<Rightarrow> \<not> list_ex (str_case_equal origin) origins))
                   in
                   if origin_problem then (False, respond_handshake_forbidden c)
                   else
                     (True, web_socket_connection_queue \<lparr>urgent = True, last_frame = False\<rparr>
                              (handshake_response (server_crypto self) key (chosen_protocol c)) 0 c)))"

text \<open>The request: from headers that were given at construction, or from the input.\<close>

definition parse_handshake_request ::
    "WebSocketServer \<Rightarrow> WebSocketConnectionPrivate \<Rightarrow> bool \<times> WebSocketConnectionPrivate" where
  "parse_handshake_request self c =
     (case class_headers c of
        Some headers \<Rightarrow> respond_handshake_rfc6455 self headers (c\<lparr>class_headers := None\<rparr>)
      | None \<Rightarrow>
          (case web_socket_util_parse_req_line (incoming c) of
             Reject \<Rightarrow> (False, respond_handshake_bad c)
           | Want_more \<Rightarrow> (False, c)
           | Message (meth, resource) in1 \<Rightarrow>
               (case web_socket_util_parse_headers (drop in1 (incoming c)) of
                  Reject \<Rightarrow> (False, respond_handshake_bad c)
                | Want_more \<Rightarrow> (False, c)
                | Message headers in2 \<Rightarrow>
                    (case (if meth \<noteq> asc ''GET'' then (False, c) else respond_handshake_rfc6455 self headers c) of
                       (valid, c) \<Rightarrow> (valid, c\<lparr>incoming := drop (in1 + in2) (incoming c)\<rparr>)))))"

definition web_socket_server_handshake :: "WebSocketServer \<Rightarrow> ws_handshake" where
  "web_socket_server_handshake self = parse_handshake_request self"

section \<open>The client\<close>

record WebSocketClient =
  origin :: "bytes option"
  possible_protocols :: "bytes list option"
  include_headers :: "(bytes \<times> bytes option) list"
  client_url :: bytes
  client_raw :: bytes
  client_crypto :: ws_crypto

text \<open>The key is made of sixteen random bytes.\<close>

definition client_key :: "WebSocketClient \<Rightarrow> bytes" where
  "client_key self = g_base64_encode (client_crypto self) (client_raw self)"

definition client_accept_key :: "WebSocketClient \<Rightarrow> bytes" where
  "client_accept_key self = web_socket_complete_accept_key_rfc6455 (client_crypto self) (client_key self)"

fun g_strjoinv :: "bytes \<Rightarrow> bytes list \<Rightarrow> bytes" where
  "g_strjoinv sep [] = []"
| "g_strjoinv sep [w] = w"
| "g_strjoinv sep (w # ws) = w @ sep @ g_strjoinv sep ws"

definition include_custom_headers :: "WebSocketClient \<Rightarrow> (bytes \<times> bytes) list" where
  "include_custom_headers self = List.map_filter (\<lambda>(name, value). map_option (Pair name) value) (include_headers self)"

definition request_headers :: "WebSocketClient \<Rightarrow> bytes \<Rightarrow> (bytes \<times> bytes) list" where
  "request_headers self host =
     [(asc ''Host'', host), (asc ''Upgrade'', asc ''websocket''), (asc ''Connection'', asc ''Upgrade''),
      (asc ''Sec-WebSocket-Key'', client_key self), (asc ''Sec-WebSocket-Version'', asc ''13''),
      (asc ''Origin'', (case origin self of None \<Rightarrow> asc ''null'' | Some u \<Rightarrow> u))] @
     (case possible_protocols self of
        None \<Rightarrow> []
      | Some ps \<Rightarrow> [(asc ''Sec-WebSocket-Protocol'', g_strjoinv (asc '', '') ps)]) @
     include_custom_headers self"

definition handshake_request :: "WebSocketClient \<Rightarrow> bytes \<Rightarrow> bytes \<Rightarrow> bytes" where
  "handshake_request self host path =
     asc ''GET '' @ path @ asc '' HTTP/1.1'' @ crlf @ concat (map print_header (request_headers self host)) @ crlf"

definition request_handshake_rfc6455 ::
    "WebSocketClient \<Rightarrow> bytes \<Rightarrow> bytes \<Rightarrow> WebSocketConnectionPrivate \<Rightarrow> WebSocketConnectionPrivate" where
  "request_handshake_rfc6455 self host path c =
     web_socket_connection_queue \<lparr>urgent = True, last_frame = False\<rparr> (handshake_request self host path) 0 c"

text \<open>A URL that the parser would read behind its end is left without effect here.\<close>

definition request_handshake :: "WebSocketClient \<Rightarrow> WebSocketConnectionPrivate \<Rightarrow> WebSocketConnectionPrivate" where
  "request_handshake self c =
     (case web_socket_util_parse_url (client_url self) of
        Url_ok (scheme, host, path) \<Rightarrow> request_handshake_rfc6455 self host path c
      | Url_invalid \<Rightarrow> web_socket_connection_error_and_close Other_error True c
      | Url_undefined \<Rightarrow> c)"

definition client_protocol_error :: "WebSocketConnectionPrivate \<Rightarrow> WebSocketConnectionPrivate" where
  "client_protocol_error = web_socket_connection_error_and_close (Web_socket_error WEB_SOCKET_CLOSE_PROTOCOL) True"

definition verify_handshake_rfc6455 ::
    "WebSocketClient \<Rightarrow> headers \<Rightarrow> WebSocketConnectionPrivate \<Rightarrow> bool \<times> WebSocketConnectionPrivate" where
  "verify_handshake_rfc6455 self headers c =
     (if \<not> web_socket_util_header_equals headers (asc ''Upgrade'') (asc ''websocket'') \<or>
         \<not> web_socket_util_header_contains headers (asc ''Connection'') (asc ''upgrade'') then
        (False, client_protocol_error c)
      else
        case web_socket_connection_choose_protocol (possible_protocols self)
               (headers_lookup headers (asc ''Sec-Websocket-Protocol'')) c of
          (False, c) \<Rightarrow> (False, client_protocol_error c)
        | (True, c) \<Rightarrow>
            if \<not> web_socket_util_header_empty headers (asc ''Sec-WebSocket-Extensions'') then (False, client_protocol_error c)
            else
              (case headers_lookup headers (asc ''Sec-WebSocket-Accept'') of
                 None \<Rightarrow> (False, client_protocol_error c)
               | Some value \<Rightarrow>
                   if str_case_equal (client_accept_key self) value then (True, c)
                   else (False, client_protocol_error c)))"

text \<open>\<^term>\<open>None\<close> when the status line is one of those that the parser reads behind their end.\<close>

definition parse_handshake_response ::
    "WebSocketClient \<Rightarrow> WebSocketConnectionPrivate \<Rightarrow> (bool \<times> WebSocketConnectionPrivate) option" where
  "parse_handshake_response self c =
     (case web_socket_util_parse_status_line (incoming c) of
        Status_undefined \<Rightarrow> None
      | Status_bad \<Rightarrow> Some (False, client_protocol_error c)
      | Status_more \<Rightarrow> Some (False, c)
      | Status_line status reason in1 \<Rightarrow>
          (case web_socket_util_parse_headers (drop in1 (incoming c)) of
             Reject \<Rightarrow> Some (False, client_protocol_error c)
           | Want_more \<Rightarrow> Some (False, c)
           | Message headers in2 \<Rightarrow>
               let c = c\<lparr>class_headers := Some headers\<rparr> in
               (case (if status = 101 then verify_handshake_rfc6455 self headers c
                      else (False, web_socket_connection_error_and_close (Web_socket_error WEB_SOCKET_CLOSE_PROTOCOL) False c)) of
                  (verified, c) \<Rightarrow> Some (verified, c\<lparr>incoming := drop (in1 + in2) (incoming c)\<rparr>))))"

text \<open>The handshake function of the class; in the undefined case the connection is left as it is.\<close>

definition web_socket_client_handshake :: "WebSocketClient \<Rightarrow> ws_handshake" where
  "web_socket_client_handshake self c = (case parse_handshake_response self c of None \<Rightarrow> (False, c) | Some r \<Rightarrow> r)"

section \<open>Both classes keep the rules of the connection\<close>

lemma text_frame: "d \<noteq> [] \<Longrightarrow> hd d < 0x80 \<Longrightarrow> \<not> is_close_frame d \<and> \<not> is_data_frame d"
  by (auto simp: is_close_frame_def is_data_frame_def)

lemma acts_respond_error [ws_acts]: "ws_acts a c \<Longrightarrow> ws_acts a (respond_handshake_error status c)"
  unfolding respond_handshake_error_def
  by (intro ws_acts) (use text_frame [of "bad_response status"] in \<open>auto simp: bad_response_def\<close>)

lemma acts_choose_protocol:
  "ws_acts a c \<Longrightarrow> web_socket_connection_choose_protocol protocols value c = (b, c') \<Longrightarrow> ws_acts a c'"
  by (auto simp: web_socket_connection_choose_protocol_def Let_def intro!: ws_acts split: option.splits list.splits if_splits)

lemma acts_respond_handshake:
  assumes "ws_acts a c"
  shows "ws_acts a (snd (respond_handshake_rfc6455 self headers c))"
proof -
  obtain b c1 where p: "web_socket_connection_choose_protocol (allowed_protocols self)
    (headers_lookup headers (asc ''Sec-WebSocket-Protocol'')) c = (b, c1)" by fastforce
  have "\<not> is_close_frame (handshake_response x y z) \<and> \<not> is_data_frame (handshake_response x y z)" for x y z
    by (rule text_frame) (simp_all add: handshake_response_def)
  then show ?thesis
    using assms acts_choose_protocol [OF assms p]
    by (cases b)
       (auto simp: respond_handshake_rfc6455_def respond_handshake_bad_def respond_handshake_forbidden_def p Let_def
         simp del: asc_simps intro!: ws_acts split: option.splits)
qed

lemma acts_server_handshake:
  assumes "ws_acts a c"
  shows "ws_acts a (snd (web_socket_server_handshake self c))"
  using assms acts_respond_handshake [of a "c\<lparr>class_headers := None\<rparr>"] acts_respond_handshake [of a c]
  by (auto simp: web_socket_server_handshake_def parse_handshake_request_def respond_handshake_bad_def
      simp del: asc_simps intro!: ws_acts split: option.splits parse.splits prod.splits)
     (metis snd_conv)

interpretation server_class: handshake_class "web_socket_server_handshake self" "\<lambda>c. c" for self
  by unfold_locales (simp_all add: acts_server_handshake)

lemma acts_verify_handshake:
  assumes "ws_acts a c"
  shows "ws_acts a (snd (verify_handshake_rfc6455 self headers c))"
proof -
  obtain b c1 where p: "web_socket_connection_choose_protocol (possible_protocols self)
    (headers_lookup headers (asc ''Sec-Websocket-Protocol'')) c = (b, c1)" by fastforce
  show ?thesis
    using assms acts_choose_protocol [OF assms p]
    by (cases b)
       (auto simp: verify_handshake_rfc6455_def client_protocol_error_def p simp del: asc_simps intro!: ws_acts split: option.splits)
qed

lemma acts_client_handshake:
  assumes "ws_acts a c"
  shows "ws_acts a (snd (web_socket_client_handshake self c))"
proof -
  have "ws_acts a c'" if "parse_handshake_response self c = Some (b, c')" for b c'
    using assms that acts_verify_handshake [of a "c\<lparr>class_headers := Some h\<rparr>" for h]
    by (auto simp: parse_handshake_response_def client_protocol_error_def Let_def
      intro!: ws_acts split: status_line.splits parse.splits prod.splits if_splits)
       (metis act_headers acts_into snd_conv)+
  then show ?thesis
    using assms by (auto simp: web_socket_client_handshake_def split: option.splits)
qed

lemma acts_request_handshake: "ws_acts a c \<Longrightarrow> ws_acts a (request_handshake self c)"
proof -
  have "\<not> is_close_frame (handshake_request x y z) \<and> \<not> is_data_frame (handshake_request x y z)" for x y z
    by (rule text_frame) (simp_all add: handshake_request_def)
  then show "ws_acts a c \<Longrightarrow> ws_acts a (request_handshake self c)"
    by (auto simp: request_handshake_def request_handshake_rfc6455_def intro!: ws_acts split: url_result.splits)
qed

interpretation client_class: handshake_class "web_socket_client_handshake self" "request_handshake self" for self
  by unfold_locales (simp_all add: acts_client_handshake acts_request_handshake)

end
