(* ===== verification/WebSocketProperties.thy ===== *)
theory WebSocketProperties
  imports WebSocketHandshake
begin

unbundle bit_operations_syntax

text \<open>
  The properties of web socket connections, for servers and clients in every reachable state, and the run of one
  server connection from its construction to its close frame.
\<close>

section \<open>A server connection that is opened and closed\<close>

definition example_server :: WebSocketServer where
  "example_server = \<lparr>allowed_origins = None, allowed_protocols = None,
     server_crypto = \<lparr>sha1 = (\<lambda>x. []), g_base64_encode = (\<lambda>x. asc ''k''), g_base64_decode = (\<lambda>x. replicate 16 0)\<rparr>\<rparr>"

definition example_headers :: headers where
  "example_headers = [(asc ''Host'', asc ''h''), (asc ''Upgrade'', asc ''websocket''), (asc ''Connection'', asc ''Upgrade''),
     (asc ''Sec-WebSocket-Key'', asc ''k''), (asc ''Sec-WebSocket-Version'', asc ''13'')]"
definition example_response :: bytes where
  "example_response = asc ''HTTP/1.1 101 Switching Protocols'' @ crlf @ asc ''Upgrade: websocket'' @ crlf @
     asc ''Connection: Upgrade'' @ crlf @ asc ''Sec-WebSocket-Accept: k'' @ crlf @ crlf"

lemma example_response_length: "length example_response = 102" "example_response \<noteq> []"
  by (simp_all add: example_response_def)

lemma example_handshake:
  "web_socket_server_handshake example_server (c\<lparr>class_headers := Some example_headers\<rparr>) =
   (True, web_socket_connection_queue \<lparr>urgent = True, last_frame = False\<rparr> example_response 0
            (c\<lparr>class_headers := None, chosen_protocol := None\<rparr>))"
  by (simp add: web_socket_server_handshake_def parse_handshake_request_def respond_handshake_rfc6455_def example_headers_def
     web_socket_util_header_equals_def web_socket_util_header_contains_def str_case_equal_def char_class_defs
     web_socket_connection_choose_protocol_def validate_rfc6455_websocket_key_def example_server_def
     example_response_def handshake_response_def print_header_def web_socket_complete_accept_key_rfc6455_def)

definition example_start :: WebSocketConnectionPrivate where
  "example_start = web_socket_connection_init True [] (Some example_headers) (\<lambda>_. 0) True"

definition example_open :: WebSocketConnectionPrivate where
  "example_open = on_idle_start_input (web_socket_server_handshake example_server) True (web_socket_connection_take_io_stream example_start)"

definition example_closed :: WebSocketConnectionPrivate where
  "example_closed =
     the (on_web_socket_output (Io_wrote 4096)
       (the (on_web_socket_output (Io_wrote 4096) (web_socket_connection_close 1000 None example_open))))"

lemma process_frames_empty: "incoming c = [] \<Longrightarrow> process_frames c = c"
  by (subst process_frames.simps) (simp add: process_frame_rfc6455_def parse_frame_rfc6455_def)

lemma example_open_eq:
  "example_open =
   emit Sig_open (web_socket_connection_init True [] None (\<lambda>_. 0) True)
     \<lparr>io_stream := True, io_open := True, input_source := True, handshake_done := True,
      outgoing := [\<lparr>fr_data = example_response, fr_last = False, fr_sent = 0, fr_amount = 0\<rparr>], output_queued := 102, output_source := True\<rparr>"
proof -
  have "(web_socket_connection_take_io_stream example_start)\<lparr>start_idle := False, input_source := True\<rparr> =
    ((web_socket_connection_init True [] None (\<lambda>_. 0) True)\<lparr>io_stream := True, io_open := True, input_source := True\<rparr>)\<lparr>class_headers := Some example_headers\<rparr>"
    by (simp add: web_socket_connection_take_io_stream_def web_socket_connection_init_def example_start_def)
  then have "on_idle_start_input (web_socket_server_handshake example_server) True (web_socket_connection_take_io_stream example_start) =
    process_incoming (web_socket_server_handshake example_server) (((web_socket_connection_init True [] None (\<lambda>_. 0) True)\<lparr>io_stream := True, io_open := True, input_source := True\<rparr>)\<lparr>class_headers := Some example_headers\<rparr>)"
    by (simp add: on_idle_start_input_def start_input_def)
  then show ?thesis
    unfolding example_open_def process_incoming_def example_handshake
    by (simp add: web_socket_connection_init_def web_socket_connection_queue_def example_response_length enqueue_def
       QUEUE_PRESSURE_def G_MAXSIZE_def start_output_def emit_def process_frames_empty Let_def)
qed

lemma example_close_frame: "build_frame_rfc6455 None 8 [] (close_payload 1000 None) = [0x88, 2, 3, 0xe8]"
  by (simp add: build_frame_rfc6455_def close_payload_def control_truncate_def header_rfc6455_def)

lemma example_closed_frames: "sent_frames example_closed = [example_response, [0x88, 2, 3, 0xe8]]"
  by (simp add: example_closed_def example_open_eq web_socket_connection_close_def web_socket_connection_init_def emit_def send_close_rfc6455_def
    send_message_rfc6455_def send_prefixed_message_rfc6455_def example_close_frame web_socket_connection_queue_def example_response_length enqueue_def QUEUE_PRESSURE_def G_MAXSIZE_def start_output_def
    close_io_after_timeout_def on_web_socket_output_def Let_def)

lemmas example_eval = example_open_eq web_socket_connection_close_def web_socket_connection_init_def emit_def send_close_rfc6455_def
  send_message_rfc6455_def send_prefixed_message_rfc6455_def example_close_frame web_socket_connection_queue_def
  example_response_length enqueue_def QUEUE_PRESSURE_def G_MAXSIZE_def start_output_def
  close_io_after_timeout_def on_web_socket_output_def Let_def queued_total_def

lemma example_open_reachable: "ws_reachable (web_socket_server_handshake example_server) (\<lambda>c. c) example_open"
proof -
  let ?hs = "web_socket_server_handshake example_server"
  have "ws_reachable ?hs (\<lambda>c. c) example_start" unfolding example_start_def by (rule ws_reachable.reach_init)
  moreover have "queued_total (web_socket_connection_take_io_stream example_start) < G_MAXSIZE"
    by (simp add: example_start_def web_socket_connection_take_io_stream_def web_socket_connection_init_def queued_total_def G_MAXSIZE_def)
  ultimately have "ws_reachable ?hs (\<lambda>c. c) (web_socket_connection_take_io_stream example_start)"
    by (rule ws_reachable.reach_step [OF _ ws_step.step_stream])
  moreover have "ws_step ?hs (\<lambda>c. c) (web_socket_connection_take_io_stream example_start) example_open"
    unfolding example_open_def
    by (rule ws_step.step_idle) (simp add: example_start_def web_socket_connection_take_io_stream_def web_socket_connection_init_def)
  moreover have "queued_total example_open < G_MAXSIZE" by (simp add: example_eval)
  ultimately show ?thesis by (rule ws_reachable.reach_step)
qed

lemma example_reachable: "ws_reachable (web_socket_server_handshake example_server) (\<lambda>c. c) example_closed"
proof -
  let ?hs = "web_socket_server_handshake example_server"
  let ?c3 = "web_socket_connection_close 1000 None example_open"
  let ?c4 = "the (on_web_socket_output (Io_wrote 4096) ?c3)"
  note example_open_reachable
  moreover have "queued_total ?c3 < G_MAXSIZE" by (simp add: example_eval)
  ultimately have "ws_reachable ?hs (\<lambda>c. c) ?c3" by (rule ws_reachable.reach_step [OF _ ws_step.step_close])
  moreover have "ws_step ?hs (\<lambda>c. c) ?c3 ?c4"
    by (rule ws_step.step_output [where outcome = "Io_wrote 4096"]) (simp_all add: example_eval)
  moreover have "queued_total ?c4 < G_MAXSIZE" by (simp add: example_eval)
  ultimately have "ws_reachable ?hs (\<lambda>c. c) ?c4" by (rule ws_reachable.reach_step)
  moreover have "ws_step ?hs (\<lambda>c. c) ?c4 example_closed"
    unfolding example_closed_def by (rule ws_step.step_output [where outcome = "Io_wrote 4096"]) (simp_all add: example_eval)
  moreover have "queued_total example_closed < G_MAXSIZE" by (simp add: example_closed_def example_eval)
  ultimately show ?thesis by (rule ws_reachable.reach_step)
qed

section \<open>What holds in every reachable state\<close>

text \<open>The two classes of connections.\<close>

definition ws_class :: "ws_handshake \<Rightarrow> (WebSocketConnectionPrivate \<Rightarrow> WebSocketConnectionPrivate) \<Rightarrow> bool" where
  "ws_class handshake start \<longleftrightarrow>
     (\<exists>self. handshake = web_socket_server_handshake self \<and> start = (\<lambda>c. c)) \<or>
     (\<exists>self. handshake = web_socket_client_handshake self \<and> start = request_handshake self)"

lemma ws_class_locale: "ws_class handshake start \<Longrightarrow> handshake_class handshake start"
  using server_class.handshake_class_axioms client_class.handshake_class_axioms by (auto simp: ws_class_def)

lemma ws_class_server: "ws_class (web_socket_server_handshake self) (\<lambda>c. c)"
  by (auto simp: ws_class_def)

lemma class_reachable_inv:
  "ws_class handshake start \<Longrightarrow> ws_reachable handshake start c \<Longrightarrow> queue_inv c \<and> close_inv c \<and> queued_total c < G_MAXSIZE"
  by (rule handshake_class.reachable_inv [OF ws_class_locale])

text \<open>C27: in every state that a server or client connection reaches, none of the assertions of the output callback fails,
  whatever the write returns.\<close>

theorem web_socket_output_never_asserts:
  assumes "ws_class handshake start" "ws_reachable handshake start c"
  shows "on_web_socket_output outcome c \<noteq> None"
  using class_reachable_inv [OF assms] on_output_defined by blast

theorem web_socket_output_never_asserts_witness:
  "on_web_socket_output (Io_wrote 3) (web_socket_connection_init True [] None (\<lambda>_. 0) True) \<noteq> None"
  by (rule web_socket_output_never_asserts [OF ws_class_server ws_reachable.reach_init])

text \<open>C19: the bytes written to the stream are whole frames, one after the other, followed by a part of the frame at the head of
  the queue: an urgent frame never gets into the middle of another one.  The count of queued bytes is exact, and the
  pressure signals alternate, the last one telling whether the queue is above the limit.\<close>

theorem web_socket_wire_frames:
  assumes "ws_class handshake start" "ws_reachable handshake start c"
  shows "wire c = concat (sent_frames c) @ partial_head (outgoing c) \<and>
    output_queued c = queued_total c \<and>
    toggles False (pressures c) = Some (QUEUE_PRESSURE \<le> output_queued c)"
  using class_reachable_inv [OF assms] by (simp add: queue_inv_def)

theorem web_socket_wire_frames_witness:
  "wire (web_socket_connection_init False [7] None (\<lambda>_. 0) True) = [] \<and>
   output_queued (web_socket_connection_init False [7] None (\<lambda>_. 0) True) = queued_total (web_socket_connection_init False [7] None (\<lambda>_. 0) True)"
proof -
  let ?c = "web_socket_connection_init False [7] None (\<lambda>_. 0) True"
  have "wire ?c = concat (sent_frames ?c) @ partial_head (outgoing ?c) \<and> output_queued ?c = queued_total ?c \<and>
    toggles False (pressures ?c) = Some (QUEUE_PRESSURE \<le> output_queued ?c)"
    by (rule web_socket_wire_frames [OF ws_class_server ws_reachable.reach_init])
  then show ?thesis by (simp add: web_socket_connection_init_def)
qed

text \<open>C28: a close frame is the last frame that is sent completely; no frame follows it.\<close>

theorem web_socket_close_frame_last:
  assumes "ws_class handshake start" "ws_reachable handshake start c"
  shows "no_close (butlast (sent_frames c))"
  using class_reachable_inv [OF assms] by (auto simp: close_inv_def list_all_iff dest: in_set_butlastD split: if_splits)

theorem web_socket_close_frame_last_witness:
  "sent_frames example_closed = [example_response, [0x88, 2, 3, 0xe8]] \<and> no_close (butlast (sent_frames example_closed))"
  using example_closed_frames web_socket_close_frame_last [OF ws_class_server example_reachable] by (rule conjI)

text \<open>The state of a connection never goes back: connecting, open, closing, closed.\<close>

theorem web_socket_ready_state_forward:
  assumes "ws_class handshake start" "ws_step handshake start c c'"
  shows "web_socket_connection_get_ready_state c \<le> web_socket_connection_get_ready_state c'"
  by (rule handshake_class.step_ready_state [OF ws_class_locale [OF assms(1)] assms(2)])

theorem web_socket_ready_state_forward_witness:
  "web_socket_connection_get_ready_state (web_socket_connection_init True [] None (\<lambda>_. 0) True) \<le>
   web_socket_connection_get_ready_state
     (web_socket_connection_close 1000 None (web_socket_connection_init True [] None (\<lambda>_. 0) True))"
  by (rule web_socket_ready_state_forward [OF ws_class_server ws_step.step_close])

text \<open>C20: every message that is accepted becomes one data frame behind all others; no other step adds, removes or reorders data
  frames, sent or waiting, whatever control frames, pressure or errors come in between.\<close>

theorem web_socket_data_in_order:
  assumes "ws_class handshake start" "ws_step handshake start c c'"
  shows "data_frames c' = data_frames c \<or>
    (\<exists>ty prefix message. send_accepted ty prefix message c \<and>
       c' = web_socket_connection_send ty prefix message c \<and>
       data_frames c' = data_frames c @ [build_frame_rfc6455 (frame_key c) (data_opcode ty) (prefix_bytes prefix) message])"
proof (cases "\<exists>ty prefix message. c' = web_socket_connection_send ty prefix message c")
  case True
  then obtain ty prefix message where c': "c' = web_socket_connection_send ty prefix message c" by blast
  then show ?thesis
    using data_frames_send [of ty prefix message c] by (cases "send_accepted ty prefix message c") auto
next
  case False
  then have "data_frames c' = data_frames c"
    using handshake_class.step_acts [OF ws_class_locale [OF assms(1)] assms(2)]
      data_frames_acts data_frames_output take_io_stream_inv(3) iostream_closed_inv(3) by blast
  then show ?thesis ..
qed

theorem web_socket_data_in_order_witness:
  "data_frames (web_socket_connection_send DATA_BINARY None [7] example_open) =
     data_frames example_open @ [build_frame_rfc6455 (frame_key example_open) (data_opcode DATA_BINARY) (prefix_bytes None) [7]]"
proof -
  let ?c' = "web_socket_connection_send DATA_BINARY None [7] example_open"
  have acc: "send_accepted DATA_BINARY None [7] example_open"
    by (simp add: send_accepted_def web_socket_connection_get_ready_state_def example_open_eq emit_def web_socket_connection_init_def)
  then have "length (data_frames ?c') = length (data_frames example_open) + 1" by (simp add: data_frames_send)
  moreover have "data_frames ?c' = data_frames example_open \<or>
    (\<exists>ty prefix message. send_accepted ty prefix message example_open \<and>
       ?c' = web_socket_connection_send ty prefix message example_open \<and>
       data_frames ?c' = data_frames example_open @
         [build_frame_rfc6455 (frame_key example_open) (data_opcode ty) (prefix_bytes prefix) message])"
    by (rule web_socket_data_in_order [OF ws_class_server ws_step.step_send])
  ultimately show ?thesis using acc data_frames_send [of DATA_BINARY None "[7]" example_open] by auto
qed

section \<open>Messages\<close>

text \<open>C29: every text message that is delivered is valid UTF-8, however it was fragmented.\<close>

theorem web_socket_text_valid:
  assumes "ws_class handshake start" "ws_reachable handshake start c" "Sig_message 1 d \<in> set (signals c)"
  shows "g_utf8_validate d"
  using handshake_class.reachable_text [OF ws_class_locale [OF assms(1)] assms(2)] assms(3) by (simp add: text_inv_def)

text \<open>The server connection of the example receives a text message.\<close>

definition example_text :: WebSocketConnectionPrivate where
  "example_text = on_web_socket_input (web_socket_server_handshake example_server) [Io_data [0x81, 1, 0x69]] example_open"

lemma example_text_eq: "example_text = emit (Sig_message 1 [0x69]) example_open"
proof -
  have valid: "g_utf8_validate [0x69]" by (rule validate_ascii) simp
  let ?c = "example_open\<lparr>incoming := [0x81, 1, 0x69]\<rparr>"
  have "parse_frame_rfc6455 [0x81, 1, 0x69] = Message (True, False, 1, [0x69]) 3"
    by (simp add: parse_frame_rfc6455_def payload_len_rfc6455_def MAX_PAYLOAD_def word_le_nat_alt)
  then have "process_frame_rfc6455 ?c = (True, (emit (Sig_message 1 [0x69]) example_open))"
    using valid
    by (simp add: process_frame_rfc6455_def process_contents_rfc6455_def fragment_in_order_def append_fragment_def example_open_eq
        web_socket_connection_init_def emit_def)
  then have "process_frames ?c = process_frames (emit (Sig_message 1 [0x69]) example_open)"
    by (subst process_frames.simps) simp
  then have "process_frames ?c = emit (Sig_message 1 [0x69]) example_open"
    by (simp add: process_frames_empty example_open_eq web_socket_connection_init_def)
  then show ?thesis
    by (simp add: example_text_def on_web_socket_input_def process_incoming_def)
       (simp add: example_open_eq web_socket_connection_init_def emit_def)
qed

lemma example_text_reachable: "ws_reachable (web_socket_server_handshake example_server) (\<lambda>c. c) example_text"
proof (rule ws_reachable.reach_step [OF example_open_reachable])
  show "ws_step (web_socket_server_handshake example_server) (\<lambda>c. c) example_open example_text"
    unfolding example_text_def by (rule ws_step.step_input) (simp add: example_open_eq)
  show "queued_total example_text < G_MAXSIZE"
    by (simp add: example_text_eq example_open_eq queued_total_def example_response_length G_MAXSIZE_def)
qed

theorem web_socket_text_valid_witness: "Sig_message 1 [0x69] \<in> set (signals example_text) \<and> g_utf8_validate [0x69]"
proof -
  have m: "Sig_message 1 [0x69] \<in> set (signals example_text)" by (simp add: example_text_eq)
  from m web_socket_text_valid [OF ws_class_server example_text_reachable m] show ?thesis by (rule conjI)
qed

text \<open>The messages delivered so far.\<close>

definition messages :: "WebSocketConnectionPrivate \<Rightarrow> (byte \<times> bytes) list" where
  "messages c = List.map_filter (\<lambda>s. case s of Sig_message opc d \<Rightarrow> Some (opc, d) | _ \<Rightarrow> None) (signals c)"

text \<open>The frames of a fragmented message as they arrive: before each continuation, any number of pings.\<close>

fun continue_message :: "(bytes list \<times> bytes) list \<Rightarrow> WebSocketConnectionPrivate \<Rightarrow> WebSocketConnectionPrivate" where
  "continue_message [] c = c"
| "continue_message ((pings, p) # rest) c =
     continue_message rest
       (process_contents_rfc6455 False (rest = []) 0 p
          (foldl (\<lambda>c d. process_contents_rfc6455 True True 0x09 d c) c pings))"

lemma map_filter_snoc [simp]:
  "List.map_filter f (xs @ [x]) = List.map_filter f xs @ (case f x of None \<Rightarrow> [] | Some y \<Rightarrow> [y])"
  by (induction xs) (auto simp: List.map_filter_simps split: option.splits)

lemma queue_messages [simp]:
  "messages (web_socket_connection_queue flags d a c) = messages c"
  "close_received (web_socket_connection_queue flags d a c) = close_received c"
  by (simp_all add: messages_def web_socket_connection_queue_def start_output_def Let_def)

lemma messages_random [simp]: "messages (c\<lparr>random_count := n\<rparr>) = messages c"
  by (simp add: messages_def)

lemma ping_keeps:
  defines "ping \<equiv> (\<lambda>c d. process_contents_rfc6455 True True 0x09 d c)"
  shows "messages (foldl ping c ds) = messages c \<and> message_data (foldl ping c ds) = message_data c \<and>
    message_opcode (foldl ping c ds) = message_opcode c \<and> close_received (foldl ping c ds) = close_received c"
proof -
  have "messages (ping c d) = messages c \<and> message_data (ping c d) = message_data c \<and>
    message_opcode (ping c d) = message_opcode c \<and> close_received (ping c d) = close_received c" for c d
    by (simp add: ping_def process_contents_rfc6455_def receive_ping_rfc6455_def send_message_rfc6455_def
        send_prefixed_message_rfc6455_def Let_def)
  then show ?thesis by (induction ds arbitrary: c) auto
qed

lemma append_fragment_ok: "opc = 1 \<and> g_utf8_validate p \<or> opc = 2 \<Longrightarrow> append_fragment opc d p = Some (d @ p)"
  by (auto simp: append_fragment_def)

lemma continue_message_delivers:
  assumes "rest \<noteq> []" "message_data c = Some d" "\<not> close_received c"
    and "message_opcode c = 1 \<and> list_all (g_utf8_validate \<circ> snd) rest \<or> message_opcode c = 2"
  shows "messages (continue_message rest c) = messages c @ [(message_opcode c, d @ concat (map snd rest))] \<and>
    message_data (continue_message rest c) = None"
  using assms
proof (induction rest arbitrary: c d)
  case (Cons x rest)
  obtain pings p where x: "x = (pings, p)" by fastforce
  define c1 where "c1 = foldl (\<lambda>c d. process_contents_rfc6455 True True 0x09 d c) c pings"
  note k = ping_keeps [of c pings, folded c1_def]
  have "process_contents_rfc6455 False (rest = []) 0 p c1 =
    (if rest = [] then emit (Sig_message (message_opcode c) (d @ p)) (c1\<lparr>message_data := None, message_opcode := 0\<rparr>)
     else c1\<lparr>message_data := Some (d @ p)\<rparr>)"
    using k Cons.prems append_fragment_ok [of "message_opcode c" p d]
    by (auto simp: process_contents_rfc6455_def fragment_in_order_def x)
  then show ?case
    using Cons.IH [of "c1\<lparr>message_data := Some (d @ p)\<rparr>" "d @ p"] Cons.prems k
    by (auto simp: x c1_def [symmetric] messages_def)
qed simp



end
