(* ===== verification/HandshakeAgreement.thy ===== *)
theory HandshakeAgreement
  imports WebSocketHandshake
begin

unbundle bit_operations_syntax

text \<open>
  The two ends of the opening handshake put together: what the client sends is what the server accepts, and what
  the server answers is what the client accepts.
\<close>

section \<open>Negotiation of the protocol\<close>

abbreviation word_ok :: "bytes \<Rightarrow> bool" where
  "word_ok w \<equiv> w \<noteq> [] \<and> list_all (\<lambda>b. 32 < b \<and> b < 127 \<and> b \<noteq> 44) w"

lemma split_set_word:
  "set w \<inter> set delims = {} \<Longrightarrow> split_set delims w = [w]"
  "set w \<inter> set delims = {} \<Longrightarrow> d \<in> set delims \<Longrightarrow> split_set delims (w @ d # s) = w # split_set delims s"
  by (induction w) auto

lemma word_plain: "word_ok w \<Longrightarrow> set w \<inter> set (asc '', '') = {}"
  by (auto simp: list_all_iff)

lemma find_joined:
  assumes "list_all word_ok ws" "ws \<noteq> []" "[] \<notin> set ps"
  shows "find (\<lambda>w. w \<in> set ps) (split_set (asc '', '') (g_strjoinv (asc '', '') ws)) = find (\<lambda>w. w \<in> set ps) ws"
  using assms(1,2)
proof (induction ws rule: induct_list012)
  case (2 w)
  then show ?case using split_set_word(1) [OF word_plain [of w]] by (simp del: asc_simps)
next
  case (3 w v ws)
  have "split_set (asc '', '') (w @ 44 # 32 # g_strjoinv (asc '', '') (v # ws)) =
    w # [] # split_set (asc '', '') (g_strjoinv (asc '', '') (v # ws))"
    using split_set_word(2) [OF word_plain [of w], of 44] 3(3) by simp
  then show ?case using 3 assms(3) by simp
qed simp

lemma joined_not_empty: "list_all word_ok ws \<Longrightarrow> ws \<noteq> [] \<Longrightarrow> g_strjoinv sep ws \<noteq> []"
  by (induction ws rule: induct_list012) auto

lemma joined_ascii: "list_all word_ok ws \<Longrightarrow> list_all (\<lambda>b. b < 0x80) (g_strjoinv (asc '', '') ws)"
  by (induction ws rule: induct_list012) (auto simp: list_all_iff word_less_nat_alt)

lemma choose_offered:
  assumes "list_all word_ok ws" "ws \<noteq> []" "[] \<notin> set ps" "find (\<lambda>w. w \<in> set ps) ws = Some p"
  shows "web_socket_connection_choose_protocol (Some ps) (Some (g_strjoinv (asc '', '') ws)) c = (True, c\<lparr>chosen_protocol := Some p\<rparr>)"
  using assms find_joined [OF assms(1-3)] joined_not_empty [OF assms(1,2)] joined_ascii [OF assms(1)]
  by (simp add: web_socket_connection_choose_protocol_def g_strsplit_set_def Let_def del: asc_simps)

lemma choose_answered:
  assumes "word_ok p" "p \<in> set ws"
  shows "web_socket_connection_choose_protocol (Some ws) (Some p) c = (True, c\<lparr>chosen_protocol := Some p\<rparr>)"
proof -
  have "list_all (\<lambda>b. b < 0x80) p" using assms(1) by (auto simp: list_all_iff word_less_nat_alt)
  then show ?thesis
    using assms split_set_word(1) [OF word_plain [OF assms(1)]]
    by (simp add: web_socket_connection_choose_protocol_def g_strsplit_set_def Let_def del: asc_simps)
qed

section \<open>The texts on the wire\<close>

lemma status_line_101:
  "web_socket_util_parse_status_line (asc ''HTTP/1.1 101 Switching Protocols'' @ crlf @ r) =
     Status_line 101 (asc ''Switching Protocols'') 34"
  by (simp add: web_socket_util_parse_status_line_def parse_version_def g_ascii_strtoull_def is_space_def is_digit_def
      dec_value_def g_strstrip_def g_ascii_isspace_def cstr_def)

lemma parse_request_text:
  assumes "visible path" "path \<noteq> []"
  shows "web_socket_util_parse_req_line (asc ''GET '' @ path @ asc '' HTTP/1.1'' @ crlf @ r) = Message (asc ''GET'', path) (length path + 15)"
proof -
  have "asc ''GET '' @ path @ asc '' HTTP/1.1'' @ crlf @ r = asc ''GET'' @ [32] @ path @ [32] @ asc ''HTTP/1.1'' @ [13, 10] @ r"
    by simp
  then show ?thesis using req_line_printed [of "asc ''GET''" path "asc ''HTTP/1.1''" r] assms by simp
qed

lemma strstrip_ends:
  assumes "s = [] \<or> \<not> g_ascii_isspace (hd s) \<and> \<not> g_ascii_isspace (last s)"
  shows "g_strstrip s = s"
proof (cases "s = []")
  case False
  then have "dropWhile g_ascii_isspace s = s" using assms by (cases s) auto
  moreover have "dropWhile g_ascii_isspace (rev s) = rev s" using False assms by (cases s rule: rev_cases) auto
  ultimately show ?thesis by (simp add: g_strstrip_def)
qed (simp add: g_strstrip_def)

lemma printable_value:
  assumes "list_all (\<lambda>b. 32 \<le> b \<and> b < 127) v"
  shows "g_utf8_validate v" "10 \<notin> set v"
  using assms by (auto simp: list_all_iff word_le_nat_alt word_less_nat_alt intro!: validate_ascii)

text \<open>Values that may stand in a header: printable, without blanks at the ends.\<close>

definition value_ok :: "bytes \<Rightarrow> bool" where
  "value_ok v \<longleftrightarrow> list_all (\<lambda>b. 32 \<le> b \<and> b < 127) v \<and> (v = [] \<or> hd v \<noteq> 32 \<and> last v \<noteq> 32)"

lemma value_ok_header:
  assumes "value_ok v" "list_all (\<lambda>b. 32 < b \<and> b < 127 \<and> b \<noteq> 58) name"
  shows "header_ok (name, v)"
proof -
  have "\<not> g_ascii_isspace b" if "b \<in> set v" "b \<noteq> 32" for b
    using that assms(1) by (auto simp: value_ok_def list_all_iff g_ascii_isspace_def word_le_nat_alt)
  then have "g_strstrip v = v"
    using assms(1) by (intro strstrip_ends) (auto simp: value_ok_def)
  then show ?thesis using assms printable_value [of v] by (simp add: header_ok_def value_ok_def)
qed

lemma word_value: "word_ok w \<Longrightarrow> value_ok w"
  by (auto simp: value_ok_def list_all_iff) (metis hd_in_set last_in_set order_less_irrefl)+

lemma joined_value: "list_all word_ok ws \<Longrightarrow> value_ok (g_strjoinv (asc '', '') ws)"
proof (induction ws rule: induct_list012)
  case (2 w)
  then show ?case using word_value [of w] by simp
next
  case (3 w v ws)
  have "word_ok w" "word_ok v" using 3(3) by auto
  moreover have ne: "g_strjoinv (asc '', '') (v # ws) \<noteq> []" using joined_not_empty [of "v # ws"] 3(3) by simp
  ultimately show ?case
    using 3(2) 3(3) word_value [of w] by (simp add: value_ok_def)
qed (simp add: value_ok_def)

section \<open>Agreement\<close>

text \<open>What the handshake relies on of Base64: the text is made of visible characters, it is no longer than the server accepts, and it
  decodes to what was encoded.\<close>

definition crypto_ok :: "ws_crypto \<Rightarrow> bytes \<Rightarrow> bool" where
  "crypto_ok crypto raw \<longleftrightarrow>
     g_base64_decode crypto (g_base64_encode crypto raw) = raw \<and>
     length (g_base64_encode crypto raw) \<le> 1024 \<and>
     word_ok (g_base64_encode crypto raw) \<and>
     word_ok (web_socket_complete_accept_key_rfc6455 crypto (g_base64_encode crypto raw))"

lemma server_accepts_request:
  assumes crypto: "server_crypto sv = client_crypto cl" "crypto_ok (client_crypto cl) (client_raw cl)" "length (client_raw cl) = 16"
    and request: "visible path" "path \<noteq> []" "value_ok host" "value_ok (case origin cl of None \<Rightarrow> asc ''null'' | Some u \<Rightarrow> u)"
      "list_all header_ok (include_custom_headers cl)" "distinct (map (map to_lower \<circ> fst) (request_headers cl host))"
    and offer: "possible_protocols cl = Some ws" "list_all word_ok ws" "ws \<noteq> []"
    and accept: "allowed_protocols sv = Some ps" "[] \<notin> set ps" "find (\<lambda>w. w \<in> set ps) ws = Some p"
    and origins: "case allowed_origins sv of None \<Rightarrow> True
      | Some os \<Rightarrow> list_ex (str_case_equal (case origin cl of None \<Rightarrow> asc ''null'' | Some u \<Rightarrow> u)) os"
    and state: "class_headers c = None" "incoming c = handshake_request cl host path @ rest"
  shows "web_socket_server_handshake sv c =
    (True, (web_socket_connection_queue \<lparr>urgent = True, last_frame = False\<rparr>
       (handshake_response (client_crypto cl) (client_key cl) (Some p)) 0 (c\<lparr>chosen_protocol := Some p\<rparr>))\<lparr>incoming := rest\<rparr>)"
proof -
  define hs where "hs = request_headers cl host"
  have key: "word_ok (client_key cl)" "validate_rfc6455_websocket_key (server_crypto sv) (client_key cl)"
    using crypto by (auto simp: crypto_ok_def client_key_def validate_rfc6455_websocket_key_def)
  have "list_all header_ok hs"
    using request(3-5) word_value [OF key(1)] joined_value [OF offer(2)] value_ok_header
    by (simp add: hs_def request_headers_def offer(1) value_ok_header value_ok_def list_all_append)
  then have headers: "web_socket_util_parse_headers (concat (map print_header hs) @ crlf @ rest) = Message hs (length (concat (map print_header hs)) + 2)"
    using headers_printed [of hs rest] request(6) by (simp add: hs_def)
  have line: "web_socket_util_parse_req_line (incoming c) = Message (asc ''GET'', path) (length path + 15)"
    using parse_request_text [OF request(1,2), of "concat (map print_header hs) @ crlf @ rest"] state(2)
    by (simp add: handshake_request_def hs_def del: asc_simps)
  have inc: "incoming c = (asc ''GET '' @ path @ asc '' HTTP/1.1'' @ crlf) @ concat (map print_header hs) @ crlf @ rest"
    using state(2) by (simp add: handshake_request_def hs_def)
  have rest1: "drop (length path + 15) (incoming c) = concat (map print_header hs) @ crlf @ rest"
    unfolding inc by (simp del: asc_simps)
  moreover have "drop (length (concat (map print_header hs)) + 2) (concat (map print_header hs) @ crlf @ rest) = rest" by simp
  ultimately have rest2: "drop (length path + 15 + (length (concat (map print_header hs)) + 2)) (incoming c) = rest"
    by (metis drop_drop add.commute)
  have lookups:
    "headers_lookup hs (asc ''Upgrade'') = Some (asc ''websocket'')"
    "headers_lookup hs (asc ''Connection'') = Some (asc ''Upgrade'')"
    "headers_lookup hs (asc ''Sec-WebSocket-Version'') = Some (asc ''13'')"
    "headers_lookup hs (asc ''Sec-WebSocket-Key'') = Some (client_key cl)"
    "headers_lookup hs (asc ''Host'') = Some host"
    "headers_lookup hs (asc ''Origin'') = Some (case origin cl of None \<Rightarrow> asc ''null'' | Some u \<Rightarrow> u)"
    "headers_lookup hs (asc ''Sec-WebSocket-Protocol'') = Some (g_strjoinv (asc '', '') ws)"
    by (simp_all add: hs_def request_headers_def offer(1) str_case_equal_def char_class_defs)
  have "web_socket_util_header_equals h n w" if "headers_lookup h n = Some w" for h n w
    using that by (simp add: web_socket_util_header_equals_def str_case_equal_def)
  moreover have "web_socket_util_header_contains hs (asc ''Connection'') (asc ''upgrade'')"
    using lookups(2) by (simp add: web_socket_util_header_contains_def char_class_defs)
  ultimately show ?thesis
    using headers line rest1 rest2 lookups key choose_offered [OF offer(2,3) accept(2,3), of c] accept(1) origins state(1) crypto(1)
    by (auto simp: web_socket_server_handshake_def parse_handshake_request_def respond_handshake_rfc6455_def Let_def
        simp del: asc_simps split: option.splits)
qed

lemma client_accepts_response:
  assumes crypto: "crypto_ok (client_crypto cl) (client_raw cl)"
    and offer: "possible_protocols cl = Some ws" "p \<in> set ws" "word_ok p"
    and state: "incoming d = handshake_response (client_crypto cl) (client_key cl) (Some p) @ rest"
  shows "\<exists>d'. web_socket_client_handshake cl d = (True, d') \<and> incoming d' = rest \<and> chosen_protocol d' = Some p"
proof -
  define hs where "hs = [(asc ''Upgrade'', asc ''websocket''), (asc ''Connection'', asc ''Upgrade''),
    (asc ''Sec-WebSocket-Accept'', client_accept_key cl), (asc ''Sec-WebSocket-Protocol'', p)]"
  have accept: "word_ok (client_accept_key cl)" using crypto by (simp add: crypto_ok_def client_accept_key_def client_key_def)
  have "value_ok (asc ''websocket'')" "value_ok (asc ''Upgrade'')" by (simp_all add: value_ok_def)
  then have "list_all header_ok hs"
    using word_value [OF accept] word_value [OF offer(3)] by (simp add: hs_def value_ok_header)
  moreover have "distinct (map (map to_lower \<circ> fst) hs)" by (simp add: hs_def char_class_defs)
  ultimately have headers: "web_socket_util_parse_headers (concat (map print_header hs) @ crlf @ rest) = Message hs (length (concat (map print_header hs)) + 2)"
    by (rule headers_printed)
  have inc: "incoming d = asc ''HTTP/1.1 101 Switching Protocols'' @ crlf @ concat (map print_header hs) @ crlf @ rest"
    using state by (simp add: handshake_response_def hs_def client_accept_key_def)
  then have rest1: "drop 34 (incoming d) = concat (map print_header hs) @ crlf @ rest" by simp
  moreover have "drop (length (concat (map print_header hs)) + 2) (concat (map print_header hs) @ crlf @ rest) = rest" by simp
  ultimately have rest2: "drop (34 + (length (concat (map print_header hs)) + 2)) (incoming d) = rest"
    by (metis drop_drop add.commute)
  have lookups: "headers_lookup hs (asc ''Upgrade'') = Some (asc ''websocket'')"
    "headers_lookup hs (asc ''Connection'') = Some (asc ''Upgrade'')"
    "headers_lookup hs (asc ''Sec-WebSocket-Accept'') = Some (client_accept_key cl)"
    "headers_lookup hs (asc ''Sec-Websocket-Protocol'') = Some p"
    "headers_lookup hs (asc ''Sec-WebSocket-Extensions'') = None"
    by (simp_all add: hs_def str_case_equal_def char_class_defs)
  have "web_socket_util_header_equals hs (asc ''Upgrade'') (asc ''websocket'')"
    using lookups(1) by (simp add: web_socket_util_header_equals_def str_case_equal_def)
  moreover have "web_socket_util_header_contains hs (asc ''Connection'') (asc ''upgrade'')"
    using lookups(2) by (simp add: web_socket_util_header_contains_def char_class_defs)
  moreover have "str_case_equal (client_accept_key cl) (client_accept_key cl)" by (simp add: str_case_equal_def)
  ultimately show ?thesis
    using headers rest1 rest2 lookups choose_answered [OF offer(3,2)] offer(1) inc status_line_101
    by (simp add: web_socket_client_handshake_def parse_handshake_response_def verify_handshake_rfc6455_def
        web_socket_util_header_empty_def Let_def del: asc_simps)
qed

text \<open>When a client and a server can agree.\<close>

definition compatible :: "WebSocketClient \<Rightarrow> WebSocketServer \<Rightarrow> bytes \<Rightarrow> bytes \<Rightarrow> bytes list \<Rightarrow> bytes list \<Rightarrow> bool" where
  "compatible cl sv host path ws ps \<longleftrightarrow>
     server_crypto sv = client_crypto cl \<and> crypto_ok (client_crypto cl) (client_raw cl) \<and> length (client_raw cl) = 16 \<and>
     visible path \<and> path \<noteq> [] \<and> value_ok host \<and> value_ok (case origin cl of None \<Rightarrow> asc ''null'' | Some u \<Rightarrow> u) \<and>
     list_all header_ok (include_custom_headers cl) \<and> distinct (map (map to_lower \<circ> fst) (request_headers cl host)) \<and>
     possible_protocols cl = Some ws \<and> list_all word_ok ws \<and> allowed_protocols sv = Some ps \<and> [] \<notin> set ps \<and>
     (case allowed_origins sv of None \<Rightarrow> True
      | Some os \<Rightarrow> list_ex (str_case_equal (case origin cl of None \<Rightarrow> asc ''null'' | Some u \<Rightarrow> u)) os)"

text \<open>C26: for a compatible client and server with a common protocol, the server accepts the request that the client sends, queues
  its response and takes exactly the request off its input; the client accepts that response and takes exactly it off its
  input; both have chosen the same protocol, the first of the client's list that the server allows.\<close>

theorem web_socket_handshake_agreement:
  assumes "compatible cl sv host path ws ps" "find (\<lambda>w. w \<in> set ps) ws = Some p"
    and "class_headers c = None" "incoming c = handshake_request cl host path @ rest"
    and "incoming d = handshake_response (client_crypto cl) (client_key cl) (Some p) @ rest'"
  shows "web_socket_server_handshake sv c =
      (True, (web_socket_connection_queue \<lparr>urgent = True, last_frame = False\<rparr>
         (handshake_response (client_crypto cl) (client_key cl) (Some p)) 0 (c\<lparr>chosen_protocol := Some p\<rparr>))\<lparr>incoming := rest\<rparr>) \<and>
    (\<exists>d'. web_socket_client_handshake cl d = (True, d') \<and> incoming d' = rest' \<and> chosen_protocol d' = Some p)"
proof
  have p: "p \<in> set ws" using assms(2) by (auto simp: find_Some_iff)
  then have "ws \<noteq> []" "word_ok p" using assms(1) by (auto simp: compatible_def list_all_iff)
  then show "\<exists>d'. web_socket_client_handshake cl d = (True, d') \<and> incoming d' = rest' \<and> chosen_protocol d' = Some p"
    using assms(1,5) p client_accepts_response [of cl ws p d rest'] by (simp add: compatible_def)
  show "web_socket_server_handshake sv c =
      (True, (web_socket_connection_queue \<lparr>urgent = True, last_frame = False\<rparr>
         (handshake_response (client_crypto cl) (client_key cl) (Some p)) 0 (c\<lparr>chosen_protocol := Some p\<rparr>))\<lparr>incoming := rest\<rparr>)"
    using assms \<open>ws \<noteq> []\<close> server_accepts_request [of sv cl path host ws ps p c rest] by (simp add: compatible_def)
qed

section \<open>An example\<close>

definition agreeing_crypto :: ws_crypto where
  "agreeing_crypto = \<lparr>sha1 = (\<lambda>x. take 20 (rev x)), g_base64_encode = map (\<lambda>b. 97 + (b AND 15)), g_base64_decode = map (\<lambda>b. b - 97)\<rparr>"

definition agreeing_client :: WebSocketClient where
  "agreeing_client = \<lparr>origin = None, possible_protocols = Some [asc ''old'', asc ''base64'', asc ''cockpit''], include_headers = [(asc ''X-A'', None), (asc ''X-B'', Some (asc ''b''))],
     client_url = asc ''ws://h/'', client_raw = [1, 2, 3, 4, 5, 6, 7, 8, 9, 10, 11, 12, 13, 14, 15, 0], client_crypto = agreeing_crypto\<rparr>"

definition agreeing_server :: WebSocketServer where
  "agreeing_server = \<lparr>allowed_origins = Some [asc ''NULL''], allowed_protocols = Some [asc ''cockpit'', asc ''base64''], server_crypto = agreeing_crypto\<rparr>"

lemma agreeing_compatible:
  "compatible agreeing_client agreeing_server (asc ''h'') (asc ''/'') [asc ''old'', asc ''base64'', asc ''cockpit''] [asc ''cockpit'', asc ''base64'']"
  by (simp add: compatible_def agreeing_client_def agreeing_server_def agreeing_crypto_def crypto_ok_def
      web_socket_complete_accept_key_rfc6455_def value_ok_def include_custom_headers_def List.map_filter_simps value_ok_header
      request_headers_def client_key_def char_class_defs str_case_equal_def)

theorem web_socket_handshake_agreement_witness:
  "\<exists>d'. web_socket_client_handshake agreeing_client
     ((web_socket_connection_init False [] None (\<lambda>_. 0) True)
        \<lparr>incoming := handshake_response (client_crypto agreeing_client) (client_key agreeing_client) (Some (asc ''base64'')) @ [7]\<rparr>) = (True, d') \<and>
   incoming d' = [7] \<and> chosen_protocol d' = Some (asc ''base64'')"
proof -
  let ?c = "(web_socket_connection_init True [] None (\<lambda>_. 0) True)\<lparr>incoming := handshake_request agreeing_client (asc ''h'') (asc ''/'') @ [9]\<rparr>"
  have "find (\<lambda>w. w \<in> set [asc ''cockpit'', asc ''base64'']) [asc ''old'', asc ''base64'', asc ''cockpit''] = Some (asc ''base64'')" by simp
  moreover have "class_headers ?c = None" by (simp add: web_socket_connection_init_def)
  moreover have "incoming ?c = handshake_request agreeing_client (asc ''h'') (asc ''/'') @ [9]" by simp
  ultimately show ?thesis
    using web_socket_handshake_agreement [OF agreeing_compatible, of "asc ''base64''" ?c "[9]"
      "(web_socket_connection_init False [] None (\<lambda>_. 0) True)
        \<lparr>incoming := handshake_response (client_crypto agreeing_client) (client_key agreeing_client) (Some (asc ''base64'')) @ [7]\<rparr>" "[7]"]
    by (simp del: asc_simps)
qed

end
