(* ===== verification/WebInject.thy ===== *)
theory WebInject
  imports Prelude "HOL-Library.Sublist"
begin

text \<open>
  \<^verbatim>\<open>src/common/cockpitwebinject.c\<close>: a filter on the body of a response, which inserts data after each
  occurrence of a marker, a limited number of times.  The body comes in blocks, so occurrences that
  cross blocks are tracked by the lengths of the partial matches at the end of what was seen.
\<close>

section \<open>The filter\<close>

record CockpitWebInject =
  partial_matches :: "bool list"
  marker :: bytes
  inject :: bytes
  maximum :: nat
  injected :: nat

definition cockpit_web_inject_new :: "bytes \<Rightarrow> bytes \<Rightarrow> nat \<Rightarrow> CockpitWebInject option" where
  "cockpit_web_inject_new mark data count =
     (if \<not> length mark > 0 then None
      else Some \<lparr>partial_matches = replicate (length mark) False, marker = mark, inject = data, maximum = count, injected = 0\<rparr>)"

text \<open>The partial matches, from the longest down.  \<open>partial_loop mark data n\<close> looks at the lengths below \<open>n\<close>.  The second
  component is the number of bytes of the block that complete a match.\<close>

fun partial_loop :: "bytes \<Rightarrow> bytes \<Rightarrow> nat \<Rightarrow> bool list \<Rightarrow> bool list \<times> nat option" where
  "partial_loop mark data 0 partials = (partials, None)"
| "partial_loop mark data (Suc partial_len) partials =
     (if partials ! partial_len then
        let partials = partials[partial_len := False];
            remaining_len = length mark - partial_len
        in
        if remaining_len > length data then
          partial_loop mark data partial_len
            (if take (length data) (drop partial_len mark) = data
             then partials[partial_len + length data := True] else partials)
        else if drop partial_len mark = take remaining_len data then
          (replicate (length mark) False, Some remaining_len)
        else partial_loop mark data partial_len partials
      else partial_loop mark data partial_len partials)"

text \<open>The loop over the complete matches.  It needs a marker that is not empty, which the constructor ensures.\<close>

function inject_loop ::
    "CockpitWebInject \<Rightarrow> bytes \<Rightarrow> nat \<Rightarrow> nat \<Rightarrow> nat option \<Rightarrow> nat \<Rightarrow> bytes list \<times> nat" where
  "inject_loop self data off written pos count =
     (let mark_len = length (marker self);
          hit = (off \<noteq> written \<and> pos = Some off \<and> count < maximum self);
          out = (if off \<noteq> written then [take (off - written) (drop written data)] @ (if hit then [inject self] else []) else []);
          count = (if hit then count + 1 else count)
      in
      if off \<ge> length data \<or> mark_len = 0 then (out, count)
      else
        case (if count < maximum self \<and> length data \<ge> off + mark_len then memmem (drop off data) (marker self) else None) of
          Some i \<Rightarrow>
            (case inject_loop self data (off + i + mark_len) off (Some (off + i + mark_len)) count of
               (rest, count) \<Rightarrow> (out @ rest, count))
        | None \<Rightarrow>
            (case inject_loop self data (length data) off None count of (rest, count) \<Rightarrow> (out @ rest, count)))"
  by pat_completeness auto
termination
  by (relation "measure (\<lambda>(self, data, off, _). length data - off)") (auto split: if_splits intro!: diff_less_mono2)

declare inject_loop.simps [simp del]

text \<open>The partial matches at the end of the block.\<close>

fun mark_suffixes :: "bytes \<Rightarrow> bytes \<Rightarrow> nat \<Rightarrow> bool list \<Rightarrow> bool list" where
  "mark_suffixes mark data 0 partials = partials"
| "mark_suffixes mark data (Suc n) partials =
     mark_suffixes mark data n
       (if take (Suc n) mark = drop (length data - Suc n) data then partials[Suc n := True] else partials)"

definition cockpit_web_inject_push :: "CockpitWebInject \<Rightarrow> bytes \<Rightarrow> CockpitWebInject \<times> bytes list" where
  "cockpit_web_inject_push self data =
     (let mark_len = length (marker self); data_len = length data in
      if data_len = 0 then (self, [])
      else
        let (partials, found) =
              (if injected self < maximum self
               then partial_loop (marker self) data (length (partial_matches self)) (partial_matches self)
               else (partial_matches self, None));
            off = (case found of None \<Rightarrow> 0 | Some n \<Rightarrow> n);
            (out, count) = inject_loop self data off 0 found (injected self);
            partials = mark_suffixes (marker self) data (min (mark_len - 1) data_len) partials
        in (self\<lparr>partial_matches := partials, injected := count\<rparr>, out))"

fun push_all :: "CockpitWebInject \<Rightarrow> bytes list \<Rightarrow> CockpitWebInject \<times> bytes list" where
  "push_all self [] = (self, [])"
| "push_all self (b # bs) =
     (case cockpit_web_inject_push self b of (self, out) \<Rightarrow>
        (case push_all self bs of (self, rest) \<Rightarrow> (self, out @ rest)))"

section \<open>The reference\<close>

text \<open>Insertion into a body that is there as a whole: after the leftmost occurrences that do not overlap.\<close>

function inject_reference :: "bytes \<Rightarrow> bytes \<Rightarrow> nat \<Rightarrow> bytes \<Rightarrow> bytes" where
  "inject_reference mark data n s =
     (if n = 0 \<or> mark = [] then s
      else case memmem s mark of
             None \<Rightarrow> s
           | Some i \<Rightarrow> take (i + length mark) s @ data @ inject_reference mark data (n - 1) (drop (i + length mark) s))"
  by pat_completeness auto
termination
  by (relation "measure (\<lambda>(mark, data, n, s). n)") auto

declare inject_reference.simps [simp del]

text \<open>A marker that does not overlap with itself.\<close>

definition unbordered :: "bytes \<Rightarrow> bool" where
  "unbordered mark \<longleftrightarrow> (\<forall>j<length mark. 0 < j \<longrightarrow> \<not> suffix (take j mark) mark)"

section \<open>Occurrences\<close>

text \<open>Where an occurrence in a concatenation starts, when the first part has none: inside the first part, as a partial match
  that the second part completes, or in the second part.\<close>

definition completes :: "bytes \<Rightarrow> bytes \<Rightarrow> bytes \<Rightarrow> nat \<Rightarrow> bool" where
  "completes mark r t p \<longleftrightarrow> 0 < p \<and> p < length mark \<and> suffix (take p mark) r \<and> starts_with t (drop p mark)"

lemma starts_in_first:
  assumes "memmem r mark = None" "j < length r"
  shows "starts_with (drop j (r @ t)) mark \<longleftrightarrow> completes mark r t (length r - j)"
proof
  let ?p = "length r - j"
  assume sw: "starts_with (drop j (r @ t)) mark"
  then have eq: "take (length mark) (drop j r @ t) = mark" using assms(2) by (simp add: starts_with_take)
  have lt: "?p < length mark"
  proof (rule ccontr)
    assume "\<not> ?p < length mark"
    then have "take (length mark) (drop j r) = mark" using eq by simp
    then show False using memmem_None [OF assms(1), of j] by (simp add: starts_with_take)
  qed
  then have "drop j r @ take (length mark - ?p) t = mark" using eq by simp
  then obtain x where x: "mark = drop j r @ take (length mark - ?p) t" by simp
  then have "take ?p mark = drop j r" by (metis append_eq_conv_conj length_drop)
  moreover have "drop ?p mark = take (length mark - ?p) t" using x by (metis append_eq_conv_conj length_drop)
  moreover have "suffix (drop j r) r" by (simp add: suffix_drop)
  moreover have "starts_with t (take n t)" for n by (simp add: starts_with_iff) (metis append_take_drop_id)
  ultimately show "completes mark r t ?p" using lt assms(2) by (simp add: completes_def)
next
  let ?p = "length r - j"
  assume c: "completes mark r t ?p"
  then obtain x y where x: "r = x @ take ?p mark" and y: "t = drop ?p mark @ y"
    by (auto simp: completes_def suffix_def starts_with_iff)
  have "length x = j" using arg_cong [OF x, of length] c assms(2) by (simp add: completes_def)
  then have "drop j (r @ t) = take ?p mark @ drop ?p mark @ y" by (subst x, subst y) simp
  then have "drop j (r @ t) = mark @ y" by (metis append.assoc append_take_drop_id)
  then show "starts_with (drop j (r @ t)) mark" by simp
qed

lemma memmem_later:
  assumes "memmem r mark = None" "\<And>p. \<not> completes mark r t p"
  shows "memmem (r @ t) mark = map_option (\<lambda>i. length r + i) (memmem t mark)"
proof (cases "memmem t mark")
  case None
  have "\<not> starts_with (drop j (r @ t)) mark" for j
    using starts_in_first [OF assms(1), of j t] assms(2) memmem_None [OF None, of "j - length r"] by (cases "j < length r") auto
  then have "memmem (r @ t) mark = None" unfolding memmem_None_iff by blast
  then show ?thesis using None by simp
next
  case (Some i)
  have "memmem (r @ t) mark = Some (length r + i)"
  proof (rule memmem_unique)
    show "starts_with (drop (length r + i) (r @ t)) mark" "length r + i \<le> length (r @ t)" using memmem_Some [OF Some] by auto
    show "\<not> starts_with (drop j (r @ t)) mark" if "j < length r + i" for j
      using starts_in_first [OF assms(1), of j t] assms(2) memmem_first [OF Some, of "j - length r"] that by (cases "j < length r") auto
  qed
  then show ?thesis using Some by simp
qed

lemma memmem_partial:
  assumes "memmem r mark = None" "completes mark r t p" "\<And>q. p < q \<Longrightarrow> \<not> completes mark r t q"
  shows "memmem (r @ t) mark = Some (length r - p)"
proof (rule memmem_unique)
  have p: "0 < p" "p \<le> length r" using assms(2) by (auto simp: completes_def dest!: suffix_length_le)
  then have "length r - (length r - p) = p" "length r - p < length r" by auto
  then show "starts_with (drop (length r - p) (r @ t)) mark" using starts_in_first [OF assms(1), of "length r - p" t] assms(2) by simp
  show "length r - p \<le> length (r @ t)" by simp
  show "\<not> starts_with (drop j (r @ t)) mark" if "j < length r - p" for j
    using starts_in_first [OF assms(1), of j t] assms(3) [of "length r - j"] that by auto
qed

section \<open>The loops\<close>

lemma length_partial_loop [simp]: "length pm = length mark \<Longrightarrow> length (fst (partial_loop mark data n pm)) = length mark"
  by (induction mark data n pm rule: partial_loop.induct) (auto simp: Let_def)

lemma partial_loop_found:
  assumes "p < n" "n \<le> length mark" "pm ! p" "length pm = length mark" "starts_with data (drop p mark)"
    and "\<And>q. p < q \<Longrightarrow> q < n \<Longrightarrow> pm ! q \<Longrightarrow> \<not> starts_with data (drop q mark)"
    and "data \<noteq> []"
  shows "partial_loop mark data n pm = (replicate (length mark) False, Some (length mark - p))"
  using assms
proof (induction mark data n pm rule: partial_loop.induct)
  case (2 mark data k pm)
  have fits: "length mark - p \<le> length data" using 2(8) by (auto simp: starts_with_iff)
  show ?case
  proof (cases "p = k")
    case True
    then show ?thesis using 2(6,8) fits by (auto simp: Let_def starts_with_take)
  next
    case False
    then have pk: "p < k" using 2(4) by simp
    have nk: "pm ! k \<Longrightarrow> drop k mark \<noteq> take (length mark - k) data"
      using 2(9) [of k] pk by (auto simp: starts_with_take)
    have "\<not> length mark - k > length data" using fits pk by simp
    moreover have "pm ! k \<Longrightarrow> partial_loop mark data k (pm[k := False]) = (replicate (length mark) False, Some (length mark - p))"
      using 2(2) [OF _ refl refl] nk pk 2(5-10) calculation by (auto simp: nth_list_update)
    moreover have "\<not> pm ! k \<Longrightarrow> partial_loop mark data k pm = (replicate (length mark) False, Some (length mark - p))"
      using 2(3) pk 2(5-10) by auto
    ultimately show ?thesis using nk by (auto simp: Let_def)
  qed
qed simp

lemma partial_loop_none:
  assumes "n \<le> length mark" "length pm = length mark" "data \<noteq> []"
    and "\<And>q. q < n \<Longrightarrow> pm ! q \<Longrightarrow> \<not> starts_with data (drop q mark)"
  shows "snd (partial_loop mark data n pm) = None \<and>
    (\<forall>k<length mark. fst (partial_loop mark data n pm) ! k \<longleftrightarrow>
       n \<le> k \<and> pm ! k \<or> (\<exists>p<n. pm ! p \<and> k = p + length data \<and> take (length data) (drop p mark) = data))"
  using assms
proof (induction mark data n pm rule: partial_loop.induct)
  case (2 mark data n pm)
  let ?dl = "length data"
  have dl: "0 < ?dl" using 2(6) by simp
  consider (off) "\<not> pm ! n" | (short) "pm ! n" "length mark - n > ?dl" | (other) "pm ! n" "\<not> length mark - n > ?dl"
    by blast
  then show ?case
  proof cases
    case off
    then have "partial_loop mark data (Suc n) pm = partial_loop mark data n pm" by simp
    then show ?thesis using 2(3) [OF off] 2(4-7) off by (auto simp: less_Suc_eq le_less_Suc_eq Suc_le_eq le_less)
  next
    case short
    define pm' where "pm' = (if take ?dl (drop n mark) = data then pm[n := False, n + ?dl := True] else pm[n := False])"
    have eq: "partial_loop mark data (Suc n) pm = partial_loop mark data n pm'" using short by (simp add: pm'_def Let_def)
    have nth: "pm' ! k \<longleftrightarrow> k = n + ?dl \<and> take ?dl (drop n mark) = data \<or> k \<noteq> n \<and> pm ! k" if "k < length mark" for k
      using that short dl 2(4,5) by (auto simp: pm'_def nth_list_update)
    have "length pm' = length mark" using 2(5) by (simp add: pm'_def)
    moreover have "\<not> starts_with data (drop q mark)" if "q < n" "pm' ! q" for q
      using 2(7) [of q] nth [of q] that short by auto
    ultimately have "snd (partial_loop mark data n pm') = None \<and>
      (\<forall>k<length mark. fst (partial_loop mark data n pm') ! k \<longleftrightarrow>
         n \<le> k \<and> pm' ! k \<or> (\<exists>p<n. pm' ! p \<and> k = p + ?dl \<and> take ?dl (drop p mark) = data))"
      using 2(1) [OF short(1) refl refl short(2)] 2(4,6) by (simp add: pm'_def)
    moreover have "(n \<le> k \<and> pm' ! k \<or> (\<exists>p<n. pm' ! p \<and> k = p + ?dl \<and> take ?dl (drop p mark) = data)) \<longleftrightarrow>
        Suc n \<le> k \<and> pm ! k \<or> (\<exists>p<Suc n. pm ! p \<and> k = p + ?dl \<and> take ?dl (drop p mark) = data)" if "k < length mark" for k
    proof -
      have "pm' ! p \<longleftrightarrow> pm ! p" if "p < n" for p using nth [of p] that short by auto
      then show ?thesis using nth [OF that] short(1) dl by (auto simp: less_Suc_eq Suc_le_eq le_less)
    qed
    ultimately show ?thesis unfolding eq by blast
  next
    case other
    have "\<not> starts_with data (drop n mark)" using 2(7) [of n] other by simp
    then have ne: "drop n mark \<noteq> take (length mark - n) data" by (auto simp: starts_with_take)
    have eq: "partial_loop mark data (Suc n) pm = partial_loop mark data n (pm[n := False])"
      using other ne by (simp add: Let_def)
    have nth: "pm[n := False] ! k \<longleftrightarrow> k \<noteq> n \<and> pm ! k" if "k < length mark" for k
      using that 2(4,5) by (simp add: nth_list_update)
    have "snd (partial_loop mark data n (pm[n := False])) = None \<and>
      (\<forall>k<length mark. fst (partial_loop mark data n (pm[n := False])) ! k \<longleftrightarrow>
         n \<le> k \<and> pm[n := False] ! k \<or> (\<exists>p<n. pm[n := False] ! p \<and> k = p + ?dl \<and> take ?dl (drop p mark) = data))"
      using 2(2) [OF other(1) refl refl other(2) ne] 2(4-7) by simp
    moreover have "(n \<le> k \<and> pm[n := False] ! k \<or>
          (\<exists>p<n. pm[n := False] ! p \<and> k = p + ?dl \<and> take ?dl (drop p mark) = data)) \<longleftrightarrow>
        Suc n \<le> k \<and> pm ! k \<or> (\<exists>p<Suc n. pm ! p \<and> k = p + ?dl \<and> take ?dl (drop p mark) = data)" if "k < length mark" for k
    proof -
      have "k \<noteq> n + ?dl" using that other(2) by simp
      then show ?thesis using nth [OF that] by (auto simp: less_Suc_eq Suc_le_eq le_less)
    qed
    ultimately show ?thesis unfolding eq by blast
  qed
qed auto

lemma length_mark_suffixes [simp]: "length (mark_suffixes mark data n pm) = length pm"
  by (induction mark data n pm rule: mark_suffixes.induct) auto

lemma nth_mark_suffixes:
  assumes "n < length pm" "n \<le> length mark" "n \<le> length data" "k < length pm"
  shows "mark_suffixes mark data n pm ! k \<longleftrightarrow> pm ! k \<or> 0 < k \<and> k \<le> n \<and> suffix (take k mark) data"
  using assms
proof (induction mark data n pm rule: mark_suffixes.induct)
  case (2 mark data n pm)
  have "take (Suc n) mark = drop (length data - Suc n) data \<longleftrightarrow> suffix (take (Suc n) mark) data"
  proof
    assume "suffix (take (Suc n) mark) data"
    then obtain x where x: "data = x @ take (Suc n) mark" by (auto simp: suffix_def)
    then have "length x = length data - Suc n" using arg_cong [OF x, of length] 2(3) by simp
    then show "take (Suc n) mark = drop (length data - Suc n) data" using x by (metis append_eq_conv_conj)
  qed (metis suffix_drop)
  then show ?case using 2 by (auto simp: nth_list_update le_Suc_eq)
qed auto

section \<open>What is left to write\<close>

text \<open>The output that is still due for the bytes \<open>t\<close>, when \<open>r\<close> was written out since the last insertion and \<open>n\<close> insertions
  are left.\<close>

definition inject_rest :: "bytes \<Rightarrow> bytes \<Rightarrow> nat \<Rightarrow> bytes \<Rightarrow> bytes \<Rightarrow> bytes" where
  "inject_rest mark ins n r t = drop (length r) (inject_reference mark ins n (r @ t))"

lemma inject_rest_0 [simp]: "inject_rest mark ins 0 r t = t"
  by (simp add: inject_rest_def inject_reference.simps)

lemma inject_reference_none: "memmem s mark = None \<Longrightarrow> inject_reference mark ins n s = s"
  by (simp add: inject_reference.simps)

lemma inject_reference_hit:
  assumes "mark \<noteq> []" "0 < n" "memmem s mark = Some i"
  shows "inject_reference mark ins n s =
    take (i + length mark) s @ ins @ inject_reference mark ins (n - 1) (drop (i + length mark) s)"
  using assms by (subst inject_reference.simps) simp

lemma inject_rest_Nil: "inject_rest mark ins n [] t = inject_reference mark ins n t"
  by (simp add: inject_rest_def)

lemma inject_rest_end: "memmem r mark = None \<Longrightarrow> inject_rest mark ins n r [] = []"
  by (simp add: inject_rest_def inject_reference_none)

lemma inject_rest_hit:
  assumes "mark \<noteq> []" "0 < n" "memmem (r @ t) mark = Some i" "length r \<le> i + length mark"
  shows "inject_rest mark ins n r t =
    take (i + length mark - length r) t @ ins @ inject_rest mark ins (n - 1) [] (drop (i + length mark - length r) t)"
  using assms(4) by (simp add: inject_rest_def inject_reference_hit [OF assms(1-3)])

lemma inject_rest_miss:
  assumes "memmem (r @ d) mark = None"
  shows "inject_rest mark ins n r (d @ t) = d @ inject_rest mark ins n (r @ d) t"
proof (cases "n = 0 \<or> mark = []")
  case True
  then have "inject_reference mark ins n s = s" for s by (subst inject_reference.simps) auto
  then show ?thesis by (simp add: inject_rest_def)
next
  case False
  show ?thesis
  proof (cases "memmem (r @ d @ t) mark")
    case None
    then show ?thesis by (simp add: inject_rest_def inject_reference_none)
  next
    case (Some i)
    have "length (r @ d) < i + length mark"
    proof (rule ccontr)
      assume "\<not> length (r @ d) < i + length mark"
      then have "length mark \<le> length (drop i (r @ d))" by simp
      then have "take (length mark) (drop i ((r @ d) @ t)) = take (length mark) (drop i (r @ d))"
        by (simp only: drop_append take_append) simp
      then show False using memmem_Some [OF Some] memmem_None [OF assms, of i] by (simp only: starts_with_take append.assoc)
    qed
    then show ?thesis using False inject_reference_hit [OF _ _ Some, of n ins] by (simp add: inject_rest_def)
  qed
qed

section \<open>The loop over complete matches\<close>

lemma inject_loop_hit:
  assumes "marker self \<noteq> []" "off \<noteq> written" "count < maximum self"
  shows "inject_loop self data off written (Some off) count =
    (case inject_loop self data off off None (count + 1) of
       (rest, count') \<Rightarrow> ([take (off - written) (drop written data), inject self] @ rest, count'))"
proof -
  have "inject_loop self data off written (Some off) count =
      (case inject_loop self data off off None (count + 1) of
         (rest, count') \<Rightarrow> ([take (off - written) (drop written data), inject self] @ rest, count'))"
    if "off < length data"
    using assms that
    by (simp add: inject_loop.simps [of self data off written] inject_loop.simps [of self data off off] Let_def)
       (simp split: option.split prod.split)
  then show ?thesis
    using assms by (cases "off < length data")
      (simp_all add: inject_loop.simps [of self data off written] inject_loop.simps [of self data off off] Let_def)
qed

lemma inject_loop_pos: "inject_loop self data off off pos count = inject_loop self data off off None count"
  by (subst inject_loop.simps, subst (2) inject_loop.simps) simp

lemma inject_loop_end: "written < length data \<Longrightarrow> inject_loop self data (length data) written None count = ([drop written data], count)"
  by (subst inject_loop.simps) (simp add: Let_def)

lemma inject_loop_step:
  assumes "marker self \<noteq> []" "off < length data"
  shows "inject_loop self data off off None count =
    (case (if count < maximum self then memmem (drop off data) (marker self) else None) of
       Some i \<Rightarrow>
         (case inject_loop self data (off + i + length (marker self)) (off + i + length (marker self)) None (count + 1) of
            (rest, count') \<Rightarrow> ([take (i + length (marker self)) (drop off data), inject self] @ rest, count'))
     | None \<Rightarrow> ([drop off data], count))"
proof (cases "if count < maximum self then memmem (drop off data) (marker self) else None")
  case None
  then have "(if count < maximum self \<and> length data \<ge> off + length (marker self)
      then memmem (drop off data) (marker self) else None) = None" by (auto split: if_splits)
  then show ?thesis unfolding None
    using assms by (subst inject_loop.simps) (simp add: Let_def inject_loop_end)
next
  case (Some i)
  then have c: "count < maximum self" "memmem (drop off data) (marker self) = Some i" by (auto split: if_splits)
  have "off + length (marker self) \<le> length data" using memmem_Some [OF c(2)] assms(2) by auto
  then show ?thesis unfolding Some
    using assms c by (subst inject_loop.simps)
      (simp add: Let_def inject_loop_hit add.assoc split: prod.splits)
qed

text \<open>The loop, from an offset on: what it writes, how often it inserts, and what stands after the last insertion.\<close>

lemma inject_loop_rest:
  assumes "marker self \<noteq> []" "memmem r (marker self) = None" "\<And>p. \<not> completes (marker self) r (drop off data) p"
    and "inject_loop self data off off None count = (out, count')" "count \<le> maximum self" "off \<le> length data"
  shows "\<exists>r'. (\<forall>t. inject_rest (marker self) (inject self) (maximum self - count) r (drop off data @ t) =
        concat out @ inject_rest (marker self) (inject self) (maximum self - count') r' t) \<and>
      count \<le> count' \<and> count' \<le> maximum self \<and>
      (count' < maximum self \<longrightarrow> memmem r' (marker self) = None \<and>
         (count' = count \<and> r' = r @ drop off data \<or> count < count' \<and> (\<exists>u. drop off data = u @ marker self @ r')))"
  using assms
proof (induction "length data - off" arbitrary: off r count out count' rule: less_induct)
  case less
  let ?m = "marker self" and ?d = "drop off data"
  show ?case
  proof (cases "off < length data")
    case False
    then have "out = []" "count' = count" using less.prems(4) by (subst (asm) inject_loop.simps, simp add: Let_def)+
    then show ?thesis using False less.prems by (intro exI [of _ r]) simp
  next
    case True
    note step = less.prems(4) [unfolded inject_loop_step [OF less.prems(1) True]]
    show ?thesis
    proof (cases "if count < maximum self then memmem ?d ?m else None")
      case None
      then have res: "out = [?d]" "count' = count" using step by auto
      show ?thesis
      proof (cases "count < maximum self")
        case True
        then have "memmem (r @ ?d) ?m = None" using None memmem_later [OF less.prems(2,3)] by simp
        then show ?thesis using res True by (intro exI [of _ "r @ ?d"]) (simp add: inject_rest_miss)
      qed (use res less.prems(5) in auto)
    next
      case (Some i)
      then have c: "count < maximum self" "memmem ?d ?m = Some i" by (auto split: if_splits)
      let ?off = "off + i + length ?m"
      have i: "?off \<le> length data" "starts_with (drop i ?d) ?m" using memmem_Some [OF c(2)] True by auto
      obtain rest where rest: "inject_loop self data ?off ?off None (count + 1) = (rest, count')"
        "out = [take (i + length ?m) ?d, inject self] @ rest"
        using step Some c by (auto split: prod.splits)
      have shorter: "length data - ?off < length data - off"
        using True less.prems(1) by (intro diff_less_mono2) auto
      have none: "memmem [] ?m = None" "\<And>p t. \<not> completes ?m [] t p" using less.prems(1) by (auto simp: completes_def)
      obtain r' where r': "\<And>t. inject_rest ?m (inject self) (maximum self - (count + 1)) [] (drop ?off data @ t) =
          concat rest @ inject_rest ?m (inject self) (maximum self - count') r' t"
        "count + 1 \<le> count'" "count' \<le> maximum self"
        "count' < maximum self \<Longrightarrow> memmem r' ?m = None \<and> (r' = drop ?off data \<or> (\<exists>u. drop ?off data = u @ ?m @ r'))"
        using less.hyps [OF shorter less.prems(1) none(1) none(2) rest(1) _ i(1)] c(1) by auto
      have "memmem (r @ ?d @ t) ?m = Some (length r + i)" for t
        using memmem_extend [of "r @ ?d" ?m "length r + i" t] memmem_later [OF less.prems(2,3)] c(2) by simp
      then have "inject_rest ?m (inject self) (maximum self - count) r (?d @ t) =
          concat out @ inject_rest ?m (inject self) (maximum self - count') r' t" for t
        using inject_rest_hit [of ?m "maximum self - count" r "?d @ t" "length r + i"] less.prems(1) c(1) rest(2) i(1) r'(1) [of t]
        by (simp add: add.assoc add.commute add.left_commute)
      moreover have "\<exists>u. ?d = u @ ?m @ r'" if "count' < maximum self"
      proof -
        have "?d = take i ?d @ ?m @ drop ?off data"
          using i(2) unfolding starts_with_take
          by (metis add.assoc add.commute append_take_drop_id drop_drop)
        then show ?thesis using r'(4) [OF that] by (metis append.assoc)
      qed
      ultimately show ?thesis using r' by (intro exI [of _ r']) auto
    qed
  qed
qed

section \<open>A block\<close>

lemma suffix_append_iff:
  assumes "length b = length d"
  shows "suffix (a @ b) (r @ d) \<longleftrightarrow> suffix a r \<and> b = d"
proof
  assume "suffix (a @ b) (r @ d)"
  then obtain x where "r @ d = (x @ a) @ b" by (auto simp: suffix_def)
  then have "r = x @ a" "b = d" using assms by (metis append_eq_append_conv)+
  then show "suffix a r \<and> b = d" by (auto simp: suffix_def)
qed (auto simp: suffix_def)

lemma unbordered_suffix:
  assumes "unbordered mark" "k < length mark" "suffix (take k mark) (u @ mark @ r)"
  shows "suffix (take k mark) r"
proof (rule ccontr)
  assume no: "\<not> suffix (take k mark) r"
  then have len: "length r < k" "k \<le> length (mark @ r)"
    using assms(2,3) suffix_length_suffix [OF assms(3), of r] suffix_appendI [of r r "u @ mark"]
    by (auto simp: not_less dest: suffix_length_suffix)
  define j where "j = k - length r"
  have j: "0 < j" "j < length mark" using len assms(2) by (auto simp: j_def)
  have "suffix (take k mark) (mark @ r)"
    using suffix_length_suffix [OF assms(3), of "mark @ r"] len(2) assms(2) by (auto simp: suffix_def)
  then obtain x where x: "mark @ r = x @ take k mark" by (auto simp: suffix_def)
  have "take k mark = take j mark @ take (k - j) (drop j mark)"
    using len by (metis j_def diff_le_self le_add_diff_inverse take_add)
  then have "mark @ r = (x @ take j mark) @ take (k - j) (drop j mark)" using x by simp
  moreover have "length (take (k - j) (drop j mark)) = length r" using len assms(2) by (simp add: j_def)
  ultimately have "mark = x @ take j mark" by (metis append_eq_append_conv)
  then have "suffix (take j mark) mark" by (metis suffix_def)
  then show False using assms(1) j by (simp add: unbordered_def)
qed

text \<open>The state between blocks: what was written since the last insertion holds no marker, and its partial matches are those
  the filter has noted.\<close>

definition inject_inv :: "CockpitWebInject \<Rightarrow> bytes \<Rightarrow> bool" where
  "inject_inv self r \<longleftrightarrow>
     marker self \<noteq> [] \<and> length (partial_matches self) = length (marker self) \<and> injected self \<le> maximum self \<and>
     memmem r (marker self) = None \<and>
     (injected self < maximum self \<longrightarrow>
        (\<forall>k<length (marker self). partial_matches self ! k \<longleftrightarrow> 0 < k \<and> suffix (take k (marker self)) r))"

lemma partials_none:
  assumes "length pm = length mark" "data \<noteq> []" "memmem r mark = None"
    and pm: "\<forall>k<length mark. pm ! k \<longleftrightarrow> 0 < k \<and> suffix (take k mark) r"
    and none: "\<And>p. \<not> completes mark r data p"
  shows "\<exists>pm'. partial_loop mark data (length mark) pm = (pm', None) \<and> length pm' = length mark \<and>
    (\<forall>k<length mark. pm' ! k \<longleftrightarrow> length data < k \<and> suffix (take k mark) (r @ data))"
proof -
  let ?res = "partial_loop mark data (length mark) pm"
  have "\<not> starts_with data (drop q mark)" if "q < length mark" "pm ! q" for q
    using none [of q] pm that by (auto simp: completes_def)
  note res = partial_loop_none [OF order_refl assms(1,2) this]
  have "fst ?res ! k \<longleftrightarrow> length data < k \<and> suffix (take k mark) (r @ data)" if k: "k < length mark" for k
  proof -
    have "fst ?res ! k \<longleftrightarrow> (\<exists>p. k = p + length data \<and> 0 < p \<and> suffix (take p mark) r \<and> take (length data) (drop p mark) = data)"
      using res pm k by auto
    also have "\<dots> \<longleftrightarrow> length data < k \<and> suffix (take k mark) (r @ data)"
    proof (cases "length data < k")
      case True
      let ?p = "k - length data"
      have split: "take k mark = take ?p mark @ take (length data) (drop ?p mark)"
        using True by (metis le_add_diff_inverse2 less_imp_le take_add)
      have "suffix (take ?p mark @ take (length data) (drop ?p mark)) (r @ data) \<longleftrightarrow>
          suffix (take ?p mark) r \<and> take (length data) (drop ?p mark) = data"
        using True k by (intro suffix_append_iff) simp
      then show ?thesis using True split by (auto intro: exI [of _ ?p])
    qed auto
    finally show ?thesis .
  qed
  then show ?thesis using res assms(1) by (intro exI [of _ "fst ?res"]) (auto simp: prod_eq_iff)
qed

lemma partials_found:
  assumes "length pm = length mark" "data \<noteq> []"
    and pm: "\<forall>k<length mark. pm ! k \<longleftrightarrow> 0 < k \<and> suffix (take k mark) r"
    and c: "completes mark r data p" "\<And>q. p < q \<Longrightarrow> \<not> completes mark r data q"
  shows "partial_loop mark data (length mark) pm = (replicate (length mark) False, Some (length mark - p))"
proof (rule partial_loop_found)
  show "pm ! p" "p < length mark" "starts_with data (drop p mark)" using c(1) pm by (auto simp: completes_def)
  show "\<not> starts_with data (drop q mark)" if "p < q" "q < length mark" "pm ! q" for q
    using c(2) [OF that(1)] pm that by (auto simp: completes_def)
qed (use assms in auto)

lemma inject_flags:
  assumes "memmem r' mark = None" "length pm = length mark" "data \<noteq> []" "mark \<noteq> []"
    and pm: "\<And>k. k < length mark \<Longrightarrow> pm ! k \<Longrightarrow> length data < k \<and> suffix (take k mark) r'"
    and sub: "\<And>k. k < length mark \<Longrightarrow> k \<le> length data \<Longrightarrow> suffix (take k mark) data \<longleftrightarrow> suffix (take k mark) r'"
    and super: "\<And>k. k < length mark \<Longrightarrow> length data < k \<Longrightarrow> suffix (take k mark) r' \<Longrightarrow> pm ! k"
  shows "\<forall>k<length mark. mark_suffixes mark data (min (length mark - 1) (length data)) pm ! k \<longleftrightarrow> 0 < k \<and> suffix (take k mark) r'"
proof (intro allI impI)
  fix k
  assume k: "k < length mark"
  let ?n = "min (length mark - 1) (length data)"
  have "?n < length pm" using assms(2,4) by (simp add: min_less_iff_disj)
  then have "mark_suffixes mark data ?n pm ! k \<longleftrightarrow> pm ! k \<or> 0 < k \<and> k \<le> ?n \<and> suffix (take k mark) data"
    using k assms(2) by (intro nth_mark_suffixes) auto
  moreover have "k \<le> ?n \<longleftrightarrow> k \<le> length data" using k by auto
  ultimately show "mark_suffixes mark data ?n pm ! k \<longleftrightarrow> 0 < k \<and> suffix (take k mark) r'"
    using pm [OF k] sub [OF k] super [OF k] by (metis gr_zeroI not_less_zero not_le)
qed

lemma inject_flags_after:
  assumes "unbordered mark" "memmem r' mark = None" "data \<noteq> []" "mark \<noteq> []"
    and "length pm = length mark" "\<And>k. k < length mark \<Longrightarrow> \<not> pm ! k"
    and "r @ data = u @ mark @ r'" "suffix r' data"
  shows "\<forall>k<length mark. mark_suffixes mark data (min (length mark - 1) (length data)) pm ! k \<longleftrightarrow> 0 < k \<and> suffix (take k mark) r'"
proof (rule inject_flags [OF assms(2,5,3,4)])
  show "length data < k \<and> suffix (take k mark) r'" if "k < length mark" "pm ! k" for k using assms(6) that by blast
  show "suffix (take k mark) data \<longleftrightarrow> suffix (take k mark) r'" if "k < length mark" for k
  proof
    assume "suffix (take k mark) data"
    then have "suffix (take k mark) (u @ mark @ r')" unfolding assms(7) [symmetric] by (rule suffix_appendI)
    then show "suffix (take k mark) r'" by (rule unbordered_suffix [OF assms(1) that])
  qed (use assms(8) in \<open>auto intro: suffix_order.trans\<close>)
  show "pm ! k" if "k < length mark" "length data < k" "suffix (take k mark) r'" for k
    using that suffix_length_le [OF that(3)] suffix_length_le [OF assms(8)] by simp
qed

lemma push_step_found:
  assumes inv: "inject_inv self r" and ok: "unbordered (marker self) \<or> maximum self \<le> 1"
    and data: "data \<noteq> []" "injected self < maximum self"
    and c: "completes (marker self) r data p" "\<And>q. p < q \<Longrightarrow> \<not> completes (marker self) r data q"
    and loop: "inject_loop self data (length (marker self) - p) 0 (Some (length (marker self) - p)) (injected self) = (out, count')"
  shows "count' \<le> maximum self \<and>
    (\<exists>r'. memmem r' (marker self) = None \<and>
       (count' < maximum self \<longrightarrow> (\<forall>k<length (marker self).
          mark_suffixes (marker self) data (min (length (marker self) - 1) (length data)) (replicate (length (marker self)) False) ! k
            \<longleftrightarrow> 0 < k \<and> suffix (take k (marker self)) r')) \<and>
      (\<forall>t. inject_rest (marker self) (inject self) (maximum self - injected self) r (data @ t) =
         concat out @ inject_rest (marker self) (inject self) (maximum self - count') r' t))"
proof -
  let ?m = "marker self"
  let ?off = "length ?m - p"
  have m: "?m \<noteq> []" "memmem r ?m = None" using inv by (auto simp: inject_inv_def)
  obtain x y where x: "r = x @ take p ?m" and y: "data = drop p ?m @ y" and p: "0 < p" "p < length ?m"
    using c(1) by (auto simp: completes_def suffix_def starts_with_iff)
  have off: "0 < ?off" "?off \<le> length data" "drop ?off data = y" "take ?off data = drop p ?m" using p by (auto simp: y)
  obtain rest where rest: "inject_loop self data ?off ?off None (injected self + 1) = (rest, count')"
    "out = [take ?off data, inject self] @ rest"
    using loop inject_loop_hit [OF m(1), of ?off 0 "injected self" data] data(2) off(1) by (auto split: prod.splits)
  have none: "memmem [] ?m = None" "\<And>q t. \<not> completes ?m [] t q" using m(1) by (auto simp: completes_def)
  obtain r0 where r0: "\<And>t. inject_rest ?m (inject self) (maximum self - (injected self + 1)) [] (y @ t) =
      concat rest @ inject_rest ?m (inject self) (maximum self - count') r0 t"
    "injected self + 1 \<le> count'" "count' \<le> maximum self"
    "count' < maximum self \<Longrightarrow> memmem r0 ?m = None \<and> (r0 = y \<or> (\<exists>u. y = u @ ?m @ r0))"
    using inject_loop_rest [OF m(1) none(1) none(2) rest(1) _ off(2)] data(2) off(3) by auto
  define r' where "r' = (if count' < maximum self then r0 else [])"
  have r0': "inject_rest ?m (inject self) (maximum self - count') r0 t = inject_rest ?m (inject self) (maximum self - count') r' t" for t
    using r0(3) by (auto simp: r'_def)
  have "memmem (r @ data @ t) ?m = Some (length r - p)" for t
    using memmem_extend [of "r @ data" ?m _ t] memmem_partial [OF m(2) c] by simp
  moreover have "length r - p + length ?m - length r = ?off" using p by (simp add: x)
  ultimately have "inject_rest ?m (inject self) (maximum self - injected self) r (data @ t) =
      concat out @ inject_rest ?m (inject self) (maximum self - count') r' t" for t
    using inject_rest_hit [OF m(1), of "maximum self - injected self" r "data @ t" "length r - p" "inject self"]
      data(2) rest(2) off r0(1) [of t] r0' [of t] p by (simp add: x)
  moreover have none': "memmem r' ?m = None" using r0(4) none(1) by (simp add: r'_def)
  moreover have "\<forall>k<length ?m. mark_suffixes ?m data (min (length ?m - 1) (length data)) (replicate (length ?m) False) ! k
      \<longleftrightarrow> 0 < k \<and> suffix (take k ?m) r'" if lt: "count' < maximum self"
  proof -
    have eq: "r' = r0" "r0 = y \<or> (\<exists>u. y = u @ ?m @ r0)" using lt r0(4) by (auto simp: r'_def)
    have all: "r @ data = x @ ?m @ y" by (simp add: x y)
    have "suffix r' data" using eq y by (auto simp: suffix_def)
    moreover have "\<exists>u. r @ data = u @ ?m @ r'" using eq all by (metis append.assoc)
    moreover have "unbordered ?m" using ok lt r0(2) by simp
    ultimately show ?thesis using inject_flags_after [OF _ none' data(1) m(1), of "replicate (length ?m) False" r] by auto
  qed
  ultimately show ?thesis using r0(3) by blast
qed

lemma push_step_none:
  assumes inv: "inject_inv self r" and ok: "unbordered (marker self) \<or> maximum self \<le> 1"
    and data: "data \<noteq> []" "injected self < maximum self"
    and none: "\<And>p. \<not> completes (marker self) r data p"
    and pm: "length pm = length (marker self)"
      "\<forall>k<length (marker self). pm ! k \<longleftrightarrow> length data < k \<and> suffix (take k (marker self)) (r @ data)"
    and loop: "inject_loop self data 0 0 None (injected self) = (out, count')"
  shows "count' \<le> maximum self \<and>
    (\<exists>r'. memmem r' (marker self) = None \<and>
       (count' < maximum self \<longrightarrow> (\<forall>k<length (marker self).
          mark_suffixes (marker self) data (min (length (marker self) - 1) (length data)) pm ! k
            \<longleftrightarrow> 0 < k \<and> suffix (take k (marker self)) r')) \<and>
      (\<forall>t. inject_rest (marker self) (inject self) (maximum self - injected self) r (data @ t) =
         concat out @ inject_rest (marker self) (inject self) (maximum self - count') r' t))"
proof -
  let ?m = "marker self"
  have m: "?m \<noteq> []" "memmem r ?m = None" using inv by (auto simp: inject_inv_def)
  obtain r0 where r0: "\<And>t. inject_rest ?m (inject self) (maximum self - injected self) r (data @ t) =
      concat out @ inject_rest ?m (inject self) (maximum self - count') r0 t"
    "injected self \<le> count'" "count' \<le> maximum self"
    "count' < maximum self \<Longrightarrow> memmem r0 ?m = None \<and>
       (count' = injected self \<and> r0 = r @ data \<or> injected self < count' \<and> (\<exists>u. data = u @ ?m @ r0))"
    using inject_loop_rest [OF m _ loop] none data(2) by auto
  define r' where "r' = (if count' < maximum self then r0 else [])"
  have "inject_rest ?m (inject self) (maximum self - injected self) r (data @ t) =
      concat out @ inject_rest ?m (inject self) (maximum self - count') r' t" for t
    using r0(1,3) by (auto simp: r'_def)
  moreover have none': "memmem r' ?m = None" using r0(4) m(1) by (simp add: r'_def)
  moreover have "\<forall>k<length ?m. mark_suffixes ?m data (min (length ?m - 1) (length data)) pm ! k
      \<longleftrightarrow> 0 < k \<and> suffix (take k ?m) r'" if lt: "count' < maximum self"
  proof -
    consider (miss) "r' = r @ data" | (hit) u where "injected self < count'" "data = u @ ?m @ r'"
      using r0(4) [OF lt] lt by (auto simp: r'_def)
    then show ?thesis
    proof cases
      case miss
      show ?thesis
      proof (rule inject_flags [OF none' pm(1) data(1) m(1)])
        show "suffix (take k ?m) data \<longleftrightarrow> suffix (take k ?m) r'" if "k < length ?m" "k \<le> length data" for k
          using that suffix_length_suffix [of "take k ?m" "r @ data" data] unfolding miss
          by (auto intro: suffix_appendI)
      qed (use pm(2) miss in auto)
    next
      case hit
      have "\<not> pm ! k" if "k < length ?m" for k using pm(2) that arg_cong [OF hit(2), of length] by auto
      moreover have "r @ data = (r @ u) @ ?m @ r'" "suffix r' data" using hit(2) by (auto simp: suffix_def)
      moreover have "unbordered ?m" using ok lt hit(1) by simp
      ultimately show ?thesis using inject_flags_after [OF _ none' data(1) m(1) pm(1)] by blast
    qed
  qed
  ultimately show ?thesis using r0(3) by blast
qed

lemma push_step:
  assumes inv: "inject_inv self r" and ok: "unbordered (marker self) \<or> maximum self \<le> 1"
    and push: "cockpit_web_inject_push self data = (self', out)"
  shows "marker self' = marker self \<and> inject self' = inject self \<and> maximum self' = maximum self \<and>
    (\<exists>r'. inject_inv self' r' \<and>
      (\<forall>t. inject_rest (marker self) (inject self) (maximum self - injected self) r (data @ t) =
         concat out @ inject_rest (marker self) (inject self) (maximum self - injected self') r' t))"
proof (cases "data = []")
  case True
  then show ?thesis using push inv by (auto simp: cockpit_web_inject_push_def)
next
  case False
  let ?m = "marker self"
  have m: "?m \<noteq> []" "length (partial_matches self) = length ?m" "injected self \<le> maximum self" "memmem r ?m = None"
    using inv by (auto simp: inject_inv_def)
  consider (full) "injected self = maximum self"
    | (found) p where "injected self < maximum self" "completes ?m r data p" "\<And>q. p < q \<Longrightarrow> \<not> completes ?m r data q"
    | (none) "injected self < maximum self" "\<And>p. \<not> completes ?m r data p"
  proof (cases "injected self < maximum self \<and> (\<exists>p. completes ?m r data p)")
    case True
    then obtain p where "completes ?m r data p" by blast
    moreover have "\<forall>q. completes ?m r data q \<longrightarrow> q \<le> length ?m" by (simp add: completes_def)
    ultimately have "completes ?m r data (Greatest (completes ?m r data))"
      "\<And>q. completes ?m r data q \<Longrightarrow> q \<le> Greatest (completes ?m r data)"
      by (metis GreatestI_nat) (metis Greatest_le_nat \<open>\<forall>q. completes ?m r data q \<longrightarrow> q \<le> length ?m\<close>)
    then show ?thesis using that(2) True by (metis not_le)
  qed (use that(1,3) m(3) in force)
  then show ?thesis
  proof cases
    case full
    then have "inject_loop self data 0 0 None (injected self) = ([data], injected self)"
      using inject_loop_step [OF m(1), of 0 data] False by simp
    then show ?thesis using push full False m
      by (auto simp: cockpit_web_inject_push_def inject_inv_def Let_def intro!: exI [of _ "[]"])
  next
    case found
    note pl = partials_found [OF m(2) False _ found(2,3)]
    obtain out' count' where loop: "inject_loop self data (length ?m - p) 0 (Some (length ?m - p)) (injected self) = (out', count')"
      by fastforce
    have "partial_loop ?m data (length ?m) (partial_matches self) = (replicate (length ?m) False, Some (length ?m - p))"
      using pl inv found(1) by (simp add: inject_inv_def)
    then have "self' = self\<lparr>partial_matches := mark_suffixes ?m data (min (length ?m - 1) (length data)) (replicate (length ?m) False),
        injected := count'\<rparr>" "out = out'"
      using push found(1) False m loop by (auto simp: cockpit_web_inject_push_def Let_def)
    then show ?thesis using push_step_found [OF inv ok False found loop] m by (auto simp: inject_inv_def)
  next
    case none
    obtain out' count' where loop: "inject_loop self data 0 0 None (injected self) = (out', count')" by fastforce
    obtain pm' where pm': "partial_loop ?m data (length ?m) (partial_matches self) = (pm', None)" "length pm' = length ?m"
      "\<forall>k<length ?m. pm' ! k \<longleftrightarrow> length data < k \<and> suffix (take k ?m) (r @ data)"
      using partials_none [OF m(2) False m(4) _ none(2)] inv none(1) by (auto simp: inject_inv_def)
    then have "self' = self\<lparr>partial_matches := mark_suffixes ?m data (min (length ?m - 1) (length data)) pm', injected := count'\<rparr>"
      "out = out'"
      using push none(1) False m loop by (auto simp: cockpit_web_inject_push_def Let_def)
    then show ?thesis using push_step_none [OF inv ok False none pm'(2,3) loop] m pm'(2) by (auto simp: inject_inv_def)
  qed
qed

lemma push_all_rest:
  assumes "inject_inv self r" "unbordered (marker self) \<or> maximum self \<le> 1"
  shows "concat (snd (push_all self bs)) = inject_rest (marker self) (inject self) (maximum self - injected self) r (concat bs)"
  using assms
proof (induction bs arbitrary: self r)
  case Nil
  then show ?case by (simp add: inject_rest_end inject_inv_def)
next
  case (Cons b bs)
  obtain self' out where push: "cockpit_web_inject_push self b = (self', out)" by fastforce
  note step = push_step [OF Cons.prems push]
  then obtain r' where r': "inject_inv self' r'"
    "inject_rest (marker self) (inject self) (maximum self - injected self) r (b @ concat bs) =
       concat out @ inject_rest (marker self) (inject self) (maximum self - injected self') r' (concat bs)"
    by blast
  have "concat (snd (push_all self' bs)) =
      inject_rest (marker self') (inject self') (maximum self' - injected self') r' (concat bs)"
    using Cons.prems(2) step by (intro Cons.IH [OF r'(1)]) simp
  then show ?case using push r'(2) step by (simp add: case_prod_beta)
qed

lemma inject_inv_new: "cockpit_web_inject_new mark data n = Some self \<Longrightarrow> inject_inv self []"
  by (auto simp: cockpit_web_inject_new_def inject_inv_def split: if_splits)

section \<open>The filter and its reference\<close>



text \<open>A marker that overlaps with itself: the number of insertions depends on how the body is cut.\<close>

lemma web_inject_overlap_depends:
  "concat (snd (push_all (the (cockpit_web_inject_new [1, 2, 1] [9] 2)) [[1, 2, 1, 2, 1]])) = [1, 2, 1, 9, 2, 1] \<and>
   concat (snd (push_all (the (cockpit_web_inject_new [1, 2, 1] [9] 2)) [[1, 2, 1], [2, 1]])) = [1, 2, 1, 9, 2, 1, 9]"
  by (simp add: cockpit_web_inject_new_def cockpit_web_inject_push_def inject_loop.simps Let_def numeral_eq_Suc)

end
