(* ===== verification/Channel.thy ===== *)
theory Channel
  imports Transport Unicode "HOL-Library.Signed_Division"
begin

text \<open>
  \<^verbatim>\<open>src/common/cockpitchannel.c\<close>: the base class of channels.  A channel receives the messages with its id from a transport
  and hands them to its class, sends messages, keeps text whole, and takes part in flow control by pings and pongs.

  The record holds the private fields of the object and a log of what left it: messages given to the transport, calls of the virtual
  functions of the class, and signals.  A source or handler that the C code keeps by number is a truth value.  A check of \<^verbatim>\<open>g_return_if_fail\<close>
  or an assertion that fails logs \<open>Critical\<close>.  The virtual function \<^verbatim>\<open>close\<close> is the one of the base class, to which the derived classes chain up.
\<close>

section \<open>State\<close>

datatype channel_event =
    To_transport "bytes option" bytes
  | Class_recv bytes
  | Class_control bytes members
  | Signal_closed "bytes option"
  | Signal_pressure bool
  | Critical

record CockpitChannel =
  recv_sig :: bool
  close_sig :: bool
  control_sig :: bool
  chan_id :: bytes
  open_options :: members
  capabilities :: "bytes list option"
  derived :: bool
  prepared :: bool
  prepare_tag :: bool
  sent_close :: bool
  emitted_close :: bool
  transport_closed :: bool
  sent_done :: bool
  received_done :: bool
  binary_ok :: bool
  close_options :: "members option"
  out_buffer :: "bytes option"
  buffer_timeout :: bool
  out_sequence :: int
  out_window :: int
  flow_control :: bool
  pressure :: "nat option"
  throttled :: "members list option"
  chan_log :: "channel_event list"

text \<open>What the code uses of json-glib and GLib to print and to truncate doubles.\<close>

record json_env =
  json_dtostr :: "64 word \<Rightarrow> bytes"
  json_trunc :: "64 word \<Rightarrow> 64 word"

definition CHANNEL_FLOW_PING :: int where
  "CHANNEL_FLOW_PING = 16 * 1024"

definition CHANNEL_FLOW_WINDOW :: int where
  "CHANNEL_FLOW_WINDOW = 2 * 1024 * 1024"

text \<open>Conversions to \<^verbatim>\<open>gint64\<close> and \<^verbatim>\<open>guint64\<close>.\<close>

definition gint64 :: "int \<Rightarrow> int" where
  "gint64 x = sint (word_of_int x :: 64 word)"

definition guint64 :: "int \<Rightarrow> int" where
  "guint64 x = x mod 2 ^ 64"

definition emit :: "channel_event \<Rightarrow> CockpitChannel \<Rightarrow> CockpitChannel" where
  "emit ev self = self\<lparr>chan_log := chan_log self @ [ev]\<rparr>"

definition set_string :: "members \<Rightarrow> string \<Rightarrow> bytes \<Rightarrow> members" where
  "set_string obj name v = json_object_set_member obj (asc name) (JString v)"

section \<open>Sending\<close>

text \<open>The end of \<^verbatim>\<open>cockpit_channel_control\<close>, which every command but \<^verbatim>\<open>close\<close> reaches.\<close>

definition control_message :: "json_env \<Rightarrow> CockpitChannel \<Rightarrow> bytes \<Rightarrow> members option \<Rightarrow> CockpitChannel" where
  "control_message e self command options =
     (let object = (case options of Some options \<Rightarrow> options | None \<Rightarrow> []);
          object = set_string object ''command'' command;
          object = set_string object ''channel'' (chan_id self)
      in emit (To_transport None (cockpit_json_write_bytes (json_dtostr e) object)) self)"

definition flow_account :: "json_env \<Rightarrow> CockpitChannel \<Rightarrow> nat \<Rightarrow> CockpitChannel" where
  "flow_account e self sz =
     (if \<not> guint64 (2 ^ 63 - 1 - int sz) > guint64 (out_sequence self) then emit Critical self
      else
        let sequence = guint64 (out_sequence self + int sz);
            trigger_pressure = (out_sequence self \<le> out_window self \<and> sequence > guint64 (out_window self));
            self = (if sequence div CHANNEL_FLOW_PING \<noteq> guint64 (out_sequence self sdiv CHANNEL_FLOW_PING) \<or> trigger_pressure
                    then control_message e self (asc ''ping'')
                           (Some (json_object_set_member [] (asc ''sequence'') (JInt (word_of_int sequence))))
                    else self);
            self = self\<lparr>out_sequence := gint64 sequence\<rparr>
        in if trigger_pressure then emit (Signal_pressure True) self else self)"

definition cockpit_channel_actual_send :: "json_env \<Rightarrow> CockpitChannel \<Rightarrow> bytes \<Rightarrow> bool \<Rightarrow> CockpitChannel" where
  "cockpit_channel_actual_send e self payload trust_is_utf8 =
     (if out_buffer self \<noteq> None \<or> buffer_timeout self then emit Critical self
      else
        let payload = (if \<not> trust_is_utf8 \<and> \<not> binary_ok self then cockpit_unicode_force_utf8 payload else payload);
            self = emit (To_transport (Some (chan_id self)) payload) self
        in if flow_control self then flow_account e self (length payload) else self)"

definition flush_buffer :: "json_env \<Rightarrow> CockpitChannel \<Rightarrow> CockpitChannel" where
  "flush_buffer e self =
     (case out_buffer self of
        Some payload \<Rightarrow> cockpit_channel_actual_send e (self\<lparr>out_buffer := None, buffer_timeout := False\<rparr>) payload False
      | None \<Rightarrow> self)"

definition cockpit_channel_send :: "json_env \<Rightarrow> CockpitChannel \<Rightarrow> bytes \<Rightarrow> bool \<Rightarrow> CockpitChannel" where
  "cockpit_channel_send e self payload trust_is_utf8 =
     (let self = self\<lparr>buffer_timeout := False\<rparr>;
          (self, send_data, trust_is_utf8) =
            (case out_buffer self of
               Some held \<Rightarrow> (self\<lparr>out_buffer := None\<rparr>, held @ payload, False)
             | None \<Rightarrow> (self, payload, trust_is_utf8));
          self = (if \<not> trust_is_utf8 \<and> \<not> binary_ok self \<and> cockpit_unicode_has_incomplete_ending send_data
                  then self\<lparr>out_buffer := Some send_data, buffer_timeout := True\<rparr> else self)
      in if \<not> buffer_timeout self then cockpit_channel_actual_send e self send_data trust_is_utf8 else self)"

section \<open>Closing\<close>

definition cockpit_channel_real_close :: "json_env \<Rightarrow> CockpitChannel \<Rightarrow> bytes option \<Rightarrow> CockpitChannel" where
  "cockpit_channel_real_close e self problem =
     (if sent_close self then self
      else
        let self = self\<lparr>sent_close := True\<rparr>;
            self =
              (if \<not> transport_closed self then
                 let self = flush_buffer e self;
                     object = (case close_options self of Some options \<Rightarrow> options | None \<Rightarrow> []);
                     self = self\<lparr>close_options := None\<rparr>;
                     object = set_string object ''command'' (asc ''close'');
                     object = set_string object ''channel'' (chan_id self);
                     object = (case problem of Some p \<Rightarrow> set_string object ''problem'' p | None \<Rightarrow> object)
                 in emit (To_transport None (cockpit_json_write_bytes (json_dtostr e) object)) self
               else self)
        in emit (Signal_closed problem) self)"

definition cockpit_channel_close :: "json_env \<Rightarrow> CockpitChannel \<Rightarrow> bytes option \<Rightarrow> CockpitChannel" where
  "cockpit_channel_close e self problem =
     cockpit_channel_real_close e
       (self\<lparr>recv_sig := False, control_sig := False, close_sig := False, emitted_close := True\<rparr>) problem"

definition cockpit_channel_close_options :: "CockpitChannel \<Rightarrow> members \<times> CockpitChannel" where
  "cockpit_channel_close_options self =
     (case close_options self of
        Some options \<Rightarrow> (options, self)
      | None \<Rightarrow> ([], self\<lparr>close_options := Some []\<rparr>))"

definition cockpit_channel_fail :: "json_env \<Rightarrow> CockpitChannel \<Rightarrow> bytes \<Rightarrow> bytes \<Rightarrow> CockpitChannel" where
  "cockpit_channel_fail e self problem message =
     (case cockpit_channel_close_options self of (options, self) \<Rightarrow>
        let options = (if json_object_get_member options (asc ''message'') = None
                       then set_string options ''message'' message else options)
        in cockpit_channel_close e (self\<lparr>close_options := Some options\<rparr>) (Some problem))"

definition problem_of :: "members \<Rightarrow> bytes option" where
  "problem_of options = (case cockpit_json_get_string options (asc ''problem'') None of Some problem \<Rightarrow> problem | None \<Rightarrow> None)"

definition cockpit_channel_control :: "json_env \<Rightarrow> CockpitChannel \<Rightarrow> bytes \<Rightarrow> members option \<Rightarrow> CockpitChannel" where
  "cockpit_channel_control e self command options =
     (if command = asc ''done'' then
        (if sent_done self then emit Critical self
         else control_message e (self\<lparr>sent_done := True\<rparr>) command options)
      else if command = asc ''close'' then
        (case options of
           Some opts \<Rightarrow>
             cockpit_channel_close e (if close_options self = None then self\<lparr>close_options := Some opts\<rparr> else self) (problem_of opts)
         | None \<Rightarrow> cockpit_channel_close e self None)
      else control_message e self command options)"

section \<open>Receiving\<close>

definition process_recv :: "json_env \<Rightarrow> CockpitChannel \<Rightarrow> bytes \<Rightarrow> CockpitChannel" where
  "process_recv e self payload =
     (if received_done self
      then cockpit_channel_fail e self (asc ''protocol-error'') (asc ''channel received message after done'')
      else emit (Class_recv payload) self)"

definition on_transport_recv :: "json_env \<Rightarrow> CockpitChannel \<Rightarrow> bytes option \<Rightarrow> bytes \<Rightarrow> CockpitChannel \<times> bool" where
  "on_transport_recv e self channel_id data =
     (if channel_id \<noteq> Some (chan_id self) then (self, False) else (process_recv e self data, True))"

definition process_ping :: "json_env \<Rightarrow> CockpitChannel \<Rightarrow> members \<Rightarrow> CockpitChannel \<times> bool" where
  "process_ping e self ping =
     (case throttled self of
        Some queue \<Rightarrow> (self\<lparr>throttled := Some (queue @ [ping])\<rparr>, False)
      | None \<Rightarrow>
          (emit (To_transport None (cockpit_json_write_bytes (json_dtostr e) (set_string ping ''command'' (asc ''pong'')))) self, True))"

definition pong_sequence :: "json_env \<Rightarrow> members \<Rightarrow> int" where
  "pong_sequence e pong =
     (case cockpit_json_get_int (json_trunc e) pong (asc ''sequence'') (- 1) of Some i \<Rightarrow> sint i | None \<Rightarrow> - 1)"

definition process_pong :: "json_env \<Rightarrow> CockpitChannel \<Rightarrow> members \<Rightarrow> CockpitChannel" where
  "process_pong e self pong =
     (if \<not> flow_control self then self
      else
        let sequence = pong_sequence e pong
        in if sequence \<ge> out_window self then
             let self = self\<lparr>out_window := gint64 (sequence + CHANNEL_FLOW_WINDOW)\<rparr>
             in if out_sequence self \<le> out_window self then emit (Signal_pressure False) self else self
           else self)"

definition process_control :: "json_env \<Rightarrow> CockpitChannel \<Rightarrow> bytes \<Rightarrow> members \<Rightarrow> CockpitChannel" where
  "process_control e self command options =
     (if command = asc ''close'' then cockpit_channel_close e self (problem_of options)
      else if command = asc ''ping'' then fst (process_ping e self options)
      else if command = asc ''pong'' then process_pong e self options
      else
        let self = (if command = asc ''done'' then
                      (if received_done self
                       then cockpit_channel_fail e self (asc ''protocol-error'') (asc ''channel received second done'')
                       else self\<lparr>received_done := True\<rparr>)
                    else self)
        in emit (Class_control command options) self)"

definition on_transport_control :: "json_env \<Rightarrow> CockpitChannel \<Rightarrow> bytes \<Rightarrow> bytes option \<Rightarrow> members \<Rightarrow> CockpitChannel \<times> bool" where
  "on_transport_control e self command channel_id options =
     (if channel_id \<noteq> Some (chan_id self) then (self, False) else (process_control e self command options, True))"

definition on_transport_closed :: "json_env \<Rightarrow> CockpitChannel \<Rightarrow> bytes option \<Rightarrow> CockpitChannel" where
  "on_transport_closed e self problem =
     (let self = self\<lparr>transport_closed := True\<rparr>;
          problem = (case problem of None \<Rightarrow> asc ''disconnected'' | Some p \<Rightarrow> p)
      in if \<not> emitted_close self then cockpit_channel_close e self (Some problem) else self)"

section \<open>Opening\<close>

definition cockpit_channel_init :: "bytes \<Rightarrow> members \<Rightarrow> bool \<Rightarrow> CockpitChannel" where
  "cockpit_channel_init channel_id options is_derived =
     \<lparr>recv_sig = False, close_sig = False, control_sig = False, chan_id = channel_id, open_options = options, capabilities = None,
      derived = is_derived, prepared = False, prepare_tag = False, sent_close = False, emitted_close = False, transport_closed = False,
      sent_done = False, received_done = False, binary_ok = False, close_options = None, out_buffer = None, buffer_timeout = False,
      out_sequence = 0, out_window = CHANNEL_FLOW_WINDOW, flow_control = False, pressure = None, throttled = None, chan_log = []\<rparr>"

definition cockpit_channel_constructed :: "CockpitTransport \<Rightarrow> CockpitChannel \<Rightarrow> CockpitTransport \<times> CockpitChannel" where
  "cockpit_channel_constructed transport self =
     (cockpit_transport_freeze transport (chan_id self),
      self\<lparr>capabilities := None, recv_sig := True, control_sig := True, close_sig := True, prepare_tag := True\<rparr>)"

definition cockpit_channel_set_capabilities :: "CockpitChannel \<Rightarrow> bytes list \<Rightarrow> CockpitChannel" where
  "cockpit_channel_set_capabilities self caps =
     (if capabilities self \<noteq> None then emit Critical self else self\<lparr>capabilities := Some caps\<rparr>)"

definition cockpit_channel_ensure_capable :: "json_env \<Rightarrow> CockpitChannel \<Rightarrow> members \<Rightarrow> CockpitChannel \<times> bool" where
  "cockpit_channel_ensure_capable e self options =
     (case cockpit_json_get_strv options (asc ''capabilities'') None of
        None \<Rightarrow> (cockpit_channel_fail e self (asc ''protocol-error'') (asc ''got invalid capabilities field in open message''), False)
      | Some None \<Rightarrow> (self, True)
      | Some (Some required) \<Rightarrow>
          if list_all (\<lambda>c. case capabilities self of None \<Rightarrow> False | Some caps \<Rightarrow> c \<in> set caps) required then (self, True)
          else
            let arr = (case capabilities self of Some caps \<Rightarrow> map JString caps | None \<Rightarrow> []);
                (options, self) = cockpit_channel_close_options self;
                self = self\<lparr>close_options := Some (json_object_set_member options (asc ''capabilities'') (JArray arr))\<rparr>
            in (cockpit_channel_close e self (Some (asc ''not-supported'')), False))"

definition cockpit_channel_real_prepare :: "json_env \<Rightarrow> CockpitChannel \<Rightarrow> CockpitChannel" where
  "cockpit_channel_real_prepare e self =
     (let options = open_options self;
          (self, capable) = cockpit_channel_ensure_capable e self options
      in if \<not> capable then self
         else if \<not> derived self then cockpit_channel_close e self (Some (asc ''not-supported''))
         else
           let self =
                 (case cockpit_json_get_string options (asc ''binary'') None of
                    None \<Rightarrow> cockpit_channel_fail e self (asc ''protocol-error'') (asc ''channel has invalid \"binary\" option'')
                  | Some (Some binary) \<Rightarrow>
                      let self = self\<lparr>binary_ok := True\<rparr> in
                      if binary \<noteq> asc ''raw''
                      then cockpit_channel_fail e self (asc ''protocol-error'') (asc ''channel has invalid \"binary\" option: '' @ binary)
                      else self
                  | Some None \<Rightarrow> self)
           in case cockpit_json_get_bool options (asc ''flow-control'') False of
                None \<Rightarrow> cockpit_channel_fail e self (asc ''protocol-error'') (asc ''channel has invalid \"flow-control\" option'')
              | Some b \<Rightarrow> self\<lparr>flow_control := b\<rparr>)"

definition cockpit_channel_prepare :: "json_env \<Rightarrow> CockpitChannel \<Rightarrow> CockpitChannel" where
  "cockpit_channel_prepare e self =
     (if prepared self then self
      else
        let self = self\<lparr>prepare_tag := False, prepared := True\<rparr>
        in if \<not> emitted_close self then cockpit_channel_real_prepare e self else self)"

definition on_idle_prepare :: "json_env \<Rightarrow> CockpitChannel \<Rightarrow> CockpitChannel" where
  "on_idle_prepare e self = cockpit_channel_prepare e (self\<lparr>prepare_tag := False\<rparr>)"

text \<open>The messages the transport emits while it thaws the channel reach the handlers that are connected at that moment.\<close>

definition deliver :: "json_env \<Rightarrow> transport_event \<Rightarrow> CockpitChannel \<Rightarrow> CockpitChannel" where
  "deliver e ev self =
     (case ev of
        Recv channel data \<Rightarrow> if recv_sig self then fst (on_transport_recv e self channel data) else self
      | Control (Some command) channel options data \<Rightarrow>
          if control_sig self then fst (on_transport_control e self command channel options) else self
      | Control None channel options data \<Rightarrow> emit Critical self
      | _ \<Rightarrow> self)"

definition channel_thawed :: "json_env \<Rightarrow> CockpitChannel \<Rightarrow> transport_event list \<Rightarrow> members option \<Rightarrow> CockpitChannel" where
  "channel_thawed e self evs message =
     cockpit_channel_control e (fold (deliver e) evs self) (asc ''ready'') message"

definition cockpit_channel_ready ::
    "json_env \<Rightarrow> env \<Rightarrow> CockpitTransport \<Rightarrow> CockpitChannel \<Rightarrow> members option \<Rightarrow> CockpitTransport \<times> CockpitChannel" where
  "cockpit_channel_ready e te transport self message =
     (case cockpit_transport_thaw te transport (chan_id self) of (transport, evs) \<Rightarrow>
        (transport, channel_thawed e self evs message))"

section \<open>Throttling\<close>

fun answer_pings :: "json_env \<Rightarrow> CockpitChannel \<Rightarrow> members list \<Rightarrow> CockpitChannel" where
  "answer_pings e self [] = self"
| "answer_pings e self (ping # queue) =
     (case process_ping e self ping of (self, replied) \<Rightarrow>
        answer_pings e (if \<not> replied then emit Critical self else self) queue)"

definition on_throttle_pressure :: "json_env \<Rightarrow> CockpitChannel \<Rightarrow> bool \<Rightarrow> CockpitChannel" where
  "on_throttle_pressure e self throttle =
     (if throttle then (if throttled self = None then self\<lparr>throttled := Some []\<rparr> else self)
      else
        case throttled self of
          None \<Rightarrow> self
        | Some queue \<Rightarrow> answer_pings e (self\<lparr>throttled := None\<rparr>) queue)"

definition cockpit_channel_throttle :: "CockpitChannel \<Rightarrow> nat option \<Rightarrow> CockpitChannel" where
  "cockpit_channel_throttle self controlling = self\<lparr>pressure := controlling\<rparr>"

definition cockpit_channel_dispose :: "json_env \<Rightarrow> CockpitChannel \<Rightarrow> CockpitChannel" where
  "cockpit_channel_dispose e self =
     (let self = self\<lparr>prepare_tag := False, recv_sig := False, control_sig := False, close_sig := False\<rparr>;
          self = (if \<not> emitted_close self then cockpit_channel_close e self (Some (asc ''terminated'')) else self);
          self = cockpit_channel_throttle (self\<lparr>buffer_timeout := False, out_buffer := None\<rparr>) None
      in self\<lparr>throttled := None\<rparr>)"

end
