(* ===== verification/ChannelText.thy ===== *)
theory ChannelText
  imports Channel "HOL-Library.Sublist"
begin

text \<open>
  What every sequence of calls and callbacks keeps of a channel: its text stays whole, and it closes once.
\<close>

section \<open>Runs\<close>

text \<open>The calls of a class on its channel, and the callbacks; a callback happens only while its handler or source is connected.\<close>

datatype channel_call =
    Call_send bytes bool
  | Call_control bytes "members option"
  | Call_close "bytes option"
  | Call_fail bytes bytes
  | Call_ready "transport_event list" "members option"
  | Call_prepare
  | Call_throttle "nat option"
  | Call_capabilities "bytes list"
  | On_recv "bytes option" bytes
  | On_control bytes "bytes option" members
  | On_closed "bytes option"
  | On_idle
  | On_timeout
  | On_pressure bool
  | Dispose

fun channel_step :: "json_env \<Rightarrow> CockpitChannel \<Rightarrow> channel_call \<Rightarrow> CockpitChannel" where
  "channel_step e self (Call_send payload trust) = cockpit_channel_send e self payload trust"
| "channel_step e self (Call_control command options) = cockpit_channel_control e self command options"
| "channel_step e self (Call_close problem) = cockpit_channel_close e self problem"
| "channel_step e self (Call_fail problem message) = cockpit_channel_fail e self problem message"
| "channel_step e self (Call_ready evs message) = channel_thawed e self evs message"
| "channel_step e self Call_prepare = cockpit_channel_prepare e self"
| "channel_step e self (Call_throttle controlling) = cockpit_channel_throttle self controlling"
| "channel_step e self (Call_capabilities caps) = cockpit_channel_set_capabilities self caps"
| "channel_step e self (On_recv channel data) = (if recv_sig self then fst (on_transport_recv e self channel data) else self)"
| "channel_step e self (On_control command channel options) =
     (if control_sig self then fst (on_transport_control e self command channel options) else self)"
| "channel_step e self (On_closed problem) = (if close_sig self then on_transport_closed e self problem else self)"
| "channel_step e self On_idle = (if prepare_tag self then on_idle_prepare e self else self)"
| "channel_step e self On_timeout = (if buffer_timeout self then flush_buffer e self else self)"
| "channel_step e self (On_pressure b) = (if pressure self \<noteq> None then on_throttle_pressure e self b else self)"
| "channel_step e self Dispose = cockpit_channel_dispose e self"

definition channel_run :: "json_env \<Rightarrow> CockpitChannel \<Rightarrow> channel_call list \<Rightarrow> CockpitChannel" where
  "channel_run e self calls = foldl (channel_step e) self calls"

section \<open>Frame lemmas\<close>

definition payload_of :: "channel_event \<Rightarrow> bytes list" where
  "payload_of ev = (case ev of To_transport (Some c) p \<Rightarrow> [p] | _ \<Rightarrow> [])"

definition sent_payloads :: "CockpitChannel \<Rightarrow> bytes list" where
  "sent_payloads self = concat (map payload_of (chan_log self))"

lemma sent_payloads_emit [simp]: "sent_payloads (emit ev self) = sent_payloads self @ payload_of ev"
  by (simp add: sent_payloads_def emit_def)

lemma payload_of_simps [simp]:
  "payload_of (To_transport None p) = []" "payload_of (To_transport (Some c) p) = [p]" "payload_of (Class_recv d) = []"
  "payload_of (Class_control c opts) = []" "payload_of (Signal_closed b) = []" "payload_of (Signal_pressure x) = []" "payload_of Critical = []"
  by (simp_all add: payload_of_def)


text \<open>Control messages in both directions and failed checks.\<close>

definition plain_event :: "channel_event \<Rightarrow> bool" where
  "plain_event ev \<longleftrightarrow> (case ev of To_transport None p \<Rightarrow> True | Class_control c opts \<Rightarrow> True | Critical \<Rightarrow> True | _ \<Rightarrow> False)"

definition flow_event :: "channel_event \<Rightarrow> bool" where
  "flow_event ev \<longleftrightarrow> plain_event ev \<or> (\<exists>b. ev = Signal_pressure b)"

lemma plain_event_simps [simp]:
  "plain_event (To_transport None p)" "plain_event (Class_control c opts)" "plain_event Critical" "flow_event (Signal_pressure b)"
  "plain_event ev \<Longrightarrow> flow_event ev"
  by (simp_all add: plain_event_def flow_event_def)

section \<open>Invariants of a channel\<close>

text \<open>What a predicate on channels has to be kept by, so that every run keeps it: the elementary updates of the code.  \<open>trusted\<close> says which
  payloads a class may declare to be text, \<open>honest\<close> which pongs the peer sends.\<close>

definition call_ok :: "(bytes \<Rightarrow> bool) \<Rightarrow> (members \<Rightarrow> bool) \<Rightarrow> channel_call \<Rightarrow> bool" where
  "call_ok trusted honest call \<longleftrightarrow>
     (case call of
        Call_send p t \<Rightarrow> t \<longrightarrow> trusted p
      | On_control command channel opts \<Rightarrow> honest opts
      | Call_ready evs message \<Rightarrow> (\<forall>command channel opts data. Control command channel opts data \<in> set evs \<longrightarrow> honest opts)
      | _ \<Rightarrow> True)"

lemma call_ok_any [simp]: "call_ok trusted (\<lambda>_. True) call \<longleftrightarrow> (\<forall>p. call = Call_send p True \<longrightarrow> trusted p)"
  by (auto simp: call_ok_def split: channel_call.splits)

locale channel_invariant =
  fixes e :: json_env and P :: "CockpitChannel \<Rightarrow> bool" and trusted :: "bytes \<Rightarrow> bool" and honest :: "members \<Rightarrow> bool"
  assumes plain: "P self \<Longrightarrow> plain_event ev \<Longrightarrow> P (emit ev self)"
    and received: "P self \<Longrightarrow> recv_sig self \<Longrightarrow> P (emit (Class_recv data) self)"
    and send: "P self \<Longrightarrow> (trust \<Longrightarrow> trusted payload) \<Longrightarrow> P (cockpit_channel_send e self payload trust)"
    and flush: "P self \<Longrightarrow> P (flush_buffer e self)"
    and close: "P self \<Longrightarrow> P (cockpit_channel_close e self problem)"
    and pong: "P self \<Longrightarrow> honest message \<Longrightarrow> P (process_pong e self message)"
    and binary: "P self \<Longrightarrow> cockpit_json_get_string (open_options self) (asc ''binary'') None = Some (Some b) \<Longrightarrow>
      P (self\<lparr>binary_ok := True\<rparr>)"
    and flow: "P self \<Longrightarrow> P (self\<lparr>flow_control := c\<rparr>)"
    and options: "P self \<Longrightarrow> P (self\<lparr>close_options := opts\<rparr>)"
    and dones: "P self \<Longrightarrow> P (self\<lparr>received_done := True\<rparr>)" "P self \<Longrightarrow> P (self\<lparr>sent_done := True\<rparr>)"
    and gone: "P self \<Longrightarrow> P (self\<lparr>transport_closed := True\<rparr>)"
    and throttling: "P self \<Longrightarrow> P (self\<lparr>throttled := queue\<rparr>)" "P self \<Longrightarrow> P (self\<lparr>pressure := controlling\<rparr>)"
    and starting: "P self \<Longrightarrow> P (self\<lparr>prepare_tag := False\<rparr>)" "P self \<Longrightarrow> P (self\<lparr>prepared := True\<rparr>)"
      "P self \<Longrightarrow> P (self\<lparr>capabilities := caps\<rparr>)"
    and disconnect: "P self \<Longrightarrow> P (self\<lparr>prepare_tag := False, recv_sig := False, control_sig := False, close_sig := False\<rparr>)"
    and forget: "P self \<Longrightarrow> P (self\<lparr>buffer_timeout := False, out_buffer := None\<rparr>)"
begin

lemma control_message_keeps: "P self \<Longrightarrow> P (control_message e self command opts)"
  by (simp add: control_message_def Let_def plain)

lemma fail_keeps: "P self \<Longrightarrow> P (cockpit_channel_fail e self problem message)"
  using close [OF options, of self]
  by (auto simp: cockpit_channel_fail_def cockpit_channel_close_options_def Let_def split: option.splits)

lemma control_keeps: "P self \<Longrightarrow> P (cockpit_channel_control e self command opts)"
  by (auto simp: cockpit_channel_control_def plain control_message_keeps close options dones split: option.splits)

lemma process_ping_keeps: "P self \<Longrightarrow> P (fst (process_ping e self ping))"
  by (auto simp: process_ping_def plain throttling split: option.splits)

lemma process_control_keeps: "P self \<Longrightarrow> honest opts \<Longrightarrow> P (process_control e self command opts)"
  by (simp add: process_control_def Let_def close process_ping_keeps pong plain fail_keeps dones)

lemma on_control_keeps: "P self \<Longrightarrow> honest opts \<Longrightarrow> P (fst (on_transport_control e self command channel opts))"
  by (simp add: on_transport_control_def process_control_keeps)

lemma on_recv_keeps: "P self \<Longrightarrow> recv_sig self \<Longrightarrow> P (fst (on_transport_recv e self channel data))"
  by (simp add: on_transport_recv_def process_recv_def fail_keeps received)

lemma deliver_keeps:
  "P self \<Longrightarrow> (\<And>command channel opts data. ev = Control command channel opts data \<Longrightarrow> honest opts) \<Longrightarrow> P (deliver e ev self)"
  by (cases ev) (auto simp: deliver_def on_recv_keeps on_control_keeps plain split: option.splits)

lemma thawed_keeps:
  assumes "P self" "\<forall>command channel opts data. Control command channel opts data \<in> set evs \<longrightarrow> honest opts"
  shows "P (channel_thawed e self evs message)"
proof -
  have "P (fold (deliver e) evs self)"
    using assms
  proof (induction evs arbitrary: self)
    case (Cons ev evs)
    then have "P (deliver e ev self)" by (intro deliver_keeps) auto
    then have "P (fold (deliver e) evs (deliver e ev self))" by (rule Cons.IH) (meson Cons.prems(2) list.set_intros(2))
    then show ?case by simp
  qed simp
  then show ?thesis by (simp add: channel_thawed_def control_keeps)
qed

lemma closed_keeps: "P self \<Longrightarrow> P (on_transport_closed e self problem)"
  by (simp add: on_transport_closed_def Let_def close gone)

lemma ensure_keeps: "P self \<Longrightarrow> P (fst (cockpit_channel_ensure_capable e self opts))"
  using close [OF options, of self]
  by (auto simp: cockpit_channel_ensure_capable_def cockpit_channel_close_options_def Let_def fail_keeps split: option.splits)

lemma ensure_capable_same: "cockpit_channel_ensure_capable e self opts = (self', True) \<Longrightarrow> self' = self"
  by (auto simp: cockpit_channel_ensure_capable_def cockpit_channel_close_options_def Let_def split: option.splits if_splits)

lemma real_prepare_keeps:
  assumes "P self"
  shows "P (cockpit_channel_real_prepare e self)"
proof (cases "snd (cockpit_channel_ensure_capable e self (open_options self))")
  case True
  then have "cockpit_channel_ensure_capable e self (open_options self) = (self, True)"
    using ensure_capable_same [of self "open_options self"] by (metis prod.collapse)
  then show ?thesis
    using assms by (auto simp: cockpit_channel_real_prepare_def Let_def close fail_keeps flow binary split: option.splits)
next
  case False
  then show ?thesis
    using assms ensure_keeps [of self "open_options self"] by (simp add: cockpit_channel_real_prepare_def case_prod_beta Let_def)
qed

lemma prepare_keeps: "P self \<Longrightarrow> P (cockpit_channel_prepare e self)"
  using starting(2) [OF starting(1), of self] by (simp add: cockpit_channel_prepare_def Let_def real_prepare_keeps)

lemma answer_pings_keeps: "P self \<Longrightarrow> P (answer_pings e self queue)"
proof (induction queue arbitrary: self)
  case (Cons ping queue)
  then show ?case using process_ping_keeps [of self ping] by (auto simp: plain split: prod.splits)
qed simp

lemma pressure_keeps: "P self \<Longrightarrow> P (on_throttle_pressure e self b)"
  by (auto simp: on_throttle_pressure_def throttling answer_pings_keeps split: option.splits)

lemma dispose_keeps: "P self \<Longrightarrow> P (cockpit_channel_dispose e self)"
  by (simp add: cockpit_channel_dispose_def cockpit_channel_throttle_def Let_def close disconnect forget throttling)

lemma step_keeps: "P self \<Longrightarrow> call_ok trusted honest call \<Longrightarrow> P (channel_step e self call)"
  by (cases call)
    (auto simp: call_ok_def cockpit_channel_throttle_def cockpit_channel_set_capabilities_def on_idle_prepare_def send control_keeps close fail_keeps
      thawed_keeps prepare_keeps throttling starting on_recv_keeps on_control_keeps closed_keeps flush pressure_keeps dispose_keeps plain)

lemma run_keeps: "P self \<Longrightarrow> list_all (call_ok trusted honest) calls \<Longrightarrow> P (channel_run e self calls)"
  unfolding channel_run_def
  by (induction calls arbitrary: self) (auto simp: step_keeps)

end

section \<open>Text stays whole\<close>

lemma flow_account_fields [simp]:
  "recv_sig (flow_account e self n) = recv_sig self" "control_sig (flow_account e self n) = control_sig self"
  "close_sig (flow_account e self n) = close_sig self" "sent_close (flow_account e self n) = sent_close self"
  "emitted_close (flow_account e self n) = emitted_close self" "transport_closed (flow_account e self n) = transport_closed self"
  "out_buffer (flow_account e self n) = out_buffer self" "buffer_timeout (flow_account e self n) = buffer_timeout self"
  "binary_ok (flow_account e self n) = binary_ok self" "open_options (flow_account e self n) = open_options self"
  "chan_id (flow_account e self n) = chan_id self" "close_options (flow_account e self n) = close_options self"
  by (simp_all add: flow_account_def control_message_def emit_def Let_def)

lemma flow_account_log: "\<exists>evs. chan_log (flow_account e self n) = chan_log self @ evs \<and> list_all flow_event evs"
  by (simp add: flow_account_def control_message_def emit_def Let_def)

lemma flow_payloads: "list_all flow_event evs \<Longrightarrow> concat (map payload_of evs) = []"
  by (induction evs) (auto simp: plain_event_def flow_event_def payload_of_def split: channel_event.splits option.splits)

lemma sent_payloads_flow [simp]: "sent_payloads (flow_account e self n) = sent_payloads self"
  using flow_account_log [of e self n] by (auto simp: sent_payloads_def flow_payloads)

lemma emit_fields [simp]:
  "recv_sig (emit ev self) = recv_sig self" "control_sig (emit ev self) = control_sig self"
  "close_sig (emit ev self) = close_sig self" "sent_close (emit ev self) = sent_close self"
  "emitted_close (emit ev self) = emitted_close self" "transport_closed (emit ev self) = transport_closed self"
  "out_buffer (emit ev self) = out_buffer self" "buffer_timeout (emit ev self) = buffer_timeout self"
  "binary_ok (emit ev self) = binary_ok self" "open_options (emit ev self) = open_options self"
  "chan_id (emit ev self) = chan_id self" "flow_control (emit ev self) = flow_control self"
  "close_options (emit ev self) = close_options self" "chan_log (emit ev self) = chan_log self @ [ev]"
  by (simp_all add: emit_def)

lemma sent_payloads_more [simp]:
  "sent_payloads (self\<lparr>out_buffer := b\<rparr>) = sent_payloads self" "sent_payloads (self\<lparr>buffer_timeout := t\<rparr>) = sent_payloads self"
  "sent_payloads (self\<lparr>sent_close := c\<rparr>) = sent_payloads self" "sent_payloads (self\<lparr>close_options := opts\<rparr>) = sent_payloads self"
  "sent_payloads (self\<lparr>recv_sig := x\<rparr>) = sent_payloads self" "sent_payloads (self\<lparr>control_sig := x\<rparr>) = sent_payloads self"
  "sent_payloads (self\<lparr>close_sig := x\<rparr>) = sent_payloads self" "sent_payloads (self\<lparr>emitted_close := x\<rparr>) = sent_payloads self"
  "sent_payloads (self\<lparr>flow_control := x\<rparr>) = sent_payloads self" "sent_payloads (self\<lparr>out_window := w\<rparr>) = sent_payloads self"
  "sent_payloads (self\<lparr>received_done := x\<rparr>) = sent_payloads self" "sent_payloads (self\<lparr>sent_done := x\<rparr>) = sent_payloads self"
  "sent_payloads (self\<lparr>transport_closed := x\<rparr>) = sent_payloads self" "sent_payloads (self\<lparr>throttled := q\<rparr>) = sent_payloads self"
  "sent_payloads (self\<lparr>pressure := y\<rparr>) = sent_payloads self" "sent_payloads (self\<lparr>prepare_tag := x\<rparr>) = sent_payloads self"
  "sent_payloads (self\<lparr>prepared := x\<rparr>) = sent_payloads self" "sent_payloads (self\<lparr>capabilities := z\<rparr>) = sent_payloads self"
  by (simp_all add: sent_payloads_def)

lemma actual_send_fields:
  assumes "out_buffer self = None" "\<not> buffer_timeout self"
  shows "out_buffer (cockpit_channel_actual_send e self payload trust) = None"
    "\<not> buffer_timeout (cockpit_channel_actual_send e self payload trust)"
    "binary_ok (cockpit_channel_actual_send e self payload trust) = binary_ok self"
    "open_options (cockpit_channel_actual_send e self payload trust) = open_options self"
    "sent_payloads (cockpit_channel_actual_send e self payload trust) =
       sent_payloads self @ [if trust \<or> binary_ok self then payload else cockpit_unicode_force_utf8 payload]"
  using assms by (simp_all add: cockpit_channel_actual_send_def Let_def)

definition text_inv :: "CockpitChannel \<Rightarrow> bool" where
  "text_inv self \<longleftrightarrow>
     (buffer_timeout self \<longleftrightarrow> out_buffer self \<noteq> None) \<and> \<not> binary_ok self \<and>
     (\<forall>b. cockpit_json_get_string (open_options self) (asc ''binary'') None \<noteq> Some (Some b)) \<and>
     list_all g_utf8_validate (sent_payloads self)"

lemma force_valid: "g_utf8_validate (cockpit_unicode_force_utf8 s)"
  by (simp add: cockpit_unicode_force_utf8_def force_loop_valid)

lemma flush_text: "text_inv self \<Longrightarrow> text_inv (flush_buffer e self)"
  by (auto simp: flush_buffer_def text_inv_def actual_send_fields force_valid split: option.splits)

lemma send_text:
  "text_inv self \<Longrightarrow> (trust \<Longrightarrow> g_utf8_validate payload) \<Longrightarrow> text_inv (cockpit_channel_send e self payload trust)"
  by (auto simp: cockpit_channel_send_def text_inv_def actual_send_fields force_valid Let_def split: option.splits)

lemma real_close_text: "text_inv self \<Longrightarrow> text_inv (cockpit_channel_real_close e self problem)"
proof -
  assume inv: "text_inv self"
  then have "text_inv (self\<lparr>sent_close := True\<rparr>)" by (simp add: text_inv_def)
  then have "text_inv (flush_buffer e (self\<lparr>sent_close := True\<rparr>))" by (rule flush_text)
  then show ?thesis using inv by (auto simp: cockpit_channel_real_close_def Let_def text_inv_def)
qed

lemma close_text: "text_inv self \<Longrightarrow> text_inv (cockpit_channel_close e self problem)"
  unfolding cockpit_channel_close_def by (rule real_close_text) (simp add: text_inv_def)

interpretation text_channel: channel_invariant e text_inv g_utf8_validate "\<lambda>_. True" for e
proof (unfold_locales, goal_cases)
  case (3 self trust payload)
  then show ?case by (intro send_text)
next
  case (4 self)
  then show ?case by (rule flush_text)
next
  case (5 self problem)
  then show ?case by (rule close_text)
qed (auto simp: text_inv_def plain_event_def payload_of_def process_pong_def Let_def split: channel_event.splits option.splits)

text \<open>The first bytes of a valid text: characters, and perhaps one that is cut short.\<close>

lemma char_shape: "utf8_char_len (b # r) = Some n \<Longrightarrow> n = 1 \<or> lead_len b = n \<and> list_all utf8_cont (take (n - 1) r)"
  by (auto simp: utf8_char_len_def Let_def lead_len_def split: list.split_asm if_split_asm)

lemma char_cut_short:
  assumes "utf8_char_len s = Some n" "0 < k" "k < n"
  shows "cut_short (take k s)"
proof -
  obtain b r where s: "s = b # r" using utf8_char_len_bounds [OF assms(1)] by (cases s) auto
  have shape: "lead_len b = n" "list_all utf8_cont (take (n - 1) r)" using char_shape [of b r n] assms s by auto
  have "take (k - 1) r = take (k - 1) (take (n - 1) r)" using assms by simp
  then have "list_all utf8_cont (take (k - 1) r)" using shape(2) by (metis list_all_append append_take_drop_id)
  then show ?thesis using assms shape s by (auto simp: cut_short_def take_Cons')
qed

lemma valid_prefix:
  "g_utf8_validate v \<Longrightarrow> prefix u v \<Longrightarrow> \<exists>p t. u = p @ t \<and> g_utf8_validate p \<and> (t = [] \<or> cut_short t)"
proof (induction v arbitrary: u rule: utf8_end.induct)
  case (1 s)
  show ?case
  proof (cases "utf8_char_len s")
    case None
    then have "s = []" using 1(2) utf8_end.simps [of s] by (simp add: g_utf8_validate_def)
    then show ?thesis using 1(3) by auto
  next
    case (Some n)
    have n: "0 < n" "n \<le> length s" using utf8_char_len_bounds [OF Some] by auto
    have u: "u = take (length u) s" using 1(3) by (auto simp: prefix_def)
    show ?thesis
    proof (cases "length u < n")
      case True
      then have "u = [] \<or> cut_short u" using char_cut_short [OF Some, of "length u"] u by (cases "u = []") auto
      then show ?thesis by (metis append_Nil validate_Nil)
    next
      case False
      then have split: "u = take n s @ drop n u" using u by (metis append_take_drop_id not_less take_take min.absorb1)
      have "g_utf8_validate (drop n s)" using 1(2) Some n utf8_end.simps [of s] by (simp add: g_utf8_validate_def)
      moreover have "prefix (drop n u) (drop n s)" using 1(3) False by (auto simp: prefix_def)
      ultimately obtain p t where "drop n u = p @ t" "g_utf8_validate p" "t = [] \<or> cut_short t"
        using 1(1) [OF Some] by blast
      moreover have "g_utf8_validate (take n s)"
        using utf8_char_len_take_self [OF Some] n utf8_end.simps [of "take n s"] by (simp add: g_utf8_validate_def)
      ultimately have "u = (take n s @ p) @ t" "g_utf8_validate (take n s @ p)" using split by auto
      then show ?thesis using \<open>t = [] \<or> cut_short t\<close> by blast
    qed
  qed
qed

lemma valid_prefix_sent:
  assumes "g_utf8_validate v" "prefix u v"
  shows "g_utf8_validate u \<longleftrightarrow> \<not> cockpit_unicode_has_incomplete_ending u"
proof -
  obtain p t where "u = p @ t" "g_utf8_validate p" "t = [] \<or> cut_short t" using valid_prefix [OF assms] by blast
  then show ?thesis
    using incomplete_cut_short [of p t] by (auto simp: cockpit_unicode_has_incomplete_ending_def)
qed

definition held :: "CockpitChannel \<Rightarrow> bytes" where
  "held self = (case out_buffer self of None \<Rightarrow> [] | Some h \<Rightarrow> h)"

fun send_all :: "json_env \<Rightarrow> CockpitChannel \<Rightarrow> bytes list \<Rightarrow> CockpitChannel" where
  "send_all e self [] = self"
| "send_all e self (p # ps) = send_all e (cockpit_channel_send e self p False) ps"

lemma send_valid_text:
  assumes "text_inv self" "g_utf8_validate v" "prefix (held self @ p) v"
  shows "if g_utf8_validate (held self @ p)
    then out_buffer (cockpit_channel_send e self p False) = None \<and>
      sent_payloads (cockpit_channel_send e self p False) = sent_payloads self @ [held self @ p]
    else out_buffer (cockpit_channel_send e self p False) = Some (held self @ p) \<and>
      sent_payloads (cockpit_channel_send e self p False) = sent_payloads self"
  using assms(1) valid_prefix_sent [OF assms(2,3)]
  by (auto simp: cockpit_channel_send_def text_inv_def held_def actual_send_fields cockpit_unicode_force_utf8_def Let_def
      split: option.splits)

lemma send_all_text:
  assumes "text_inv self" "g_utf8_validate v" "prefix (held self @ concat ps) v" "held self = [] \<or> \<not> g_utf8_validate (held self)"
  shows "\<exists>out. sent_payloads (send_all e self ps) = sent_payloads self @ out \<and> text_inv (send_all e self ps) \<and>
    concat out @ held (send_all e self ps) = held self @ concat ps \<and>
    (g_utf8_validate (held self @ concat ps) \<longrightarrow> held (send_all e self ps) = [])"
  using assms
proof (induction ps arbitrary: self v)
  case Nil
  then show ?case by auto
next
  case (Cons p ps)
  let ?self = "cockpit_channel_send e self p False"
  have inv: "text_inv ?self" using Cons.prems(1) by (rule send_text) simp
  have pre: "prefix (held self @ p) v" using Cons.prems(3) by (auto simp: prefix_def)
  note step = send_valid_text [OF Cons.prems(1,2) pre, of e]
  show ?case
  proof (cases "g_utf8_validate (held self @ p)")
    case True
    then have s: "held ?self = []" "sent_payloads ?self = sent_payloads self @ [held self @ p]" using step by (auto simp: held_def)
    obtain w where w: "v = (held self @ p) @ w" using pre by (auto simp: prefix_def)
    then have "g_utf8_validate w" using Cons.prems(2) validate_append [OF True, of w] by simp
    moreover have "prefix (held ?self @ concat ps) w" using Cons.prems(3) s(1) w by (auto simp: prefix_def)
    ultimately obtain out where out: "sent_payloads (send_all e ?self ps) = sent_payloads ?self @ out" "text_inv (send_all e ?self ps)"
      "concat out @ held (send_all e ?self ps) = held ?self @ concat ps"
      "g_utf8_validate (held ?self @ concat ps) \<longrightarrow> held (send_all e ?self ps) = []"
      using Cons.IH [OF inv] s(1) by blast
    then show ?thesis
      using s True validate_append [OF True, of "concat ps"] by (intro exI [of _ "(held self @ p) # out"]) simp
  next
    case False
    then have s: "held ?self = held self @ p" "sent_payloads ?self = sent_payloads self" using step by (auto simp: held_def)
    then show ?thesis using Cons.IH [OF inv Cons.prems(2)] Cons.prems(3) False by simp
  qed
qed

section \<open>Closing once\<close>

definition is_closed :: "channel_event \<Rightarrow> bool" where
  "is_closed ev \<longleftrightarrow> (case ev of Signal_closed p \<Rightarrow> True | _ \<Rightarrow> False)"

text \<open>The messages handed to the class after the closed signal.\<close>

fun late_recv :: "bool \<Rightarrow> channel_event list \<Rightarrow> bytes list" where
  "late_recv c [] = []"
| "late_recv c (ev # evs) =
     (case ev of Class_recv d \<Rightarrow> if c then [d] else [] | _ \<Rightarrow> []) @ late_recv (c \<or> is_closed ev) evs"

lemma late_recv_append [simp]: "late_recv c (xs @ ys) = late_recv c xs @ late_recv (c \<or> list_ex is_closed xs) ys"
  by (induction c xs rule: late_recv.induct) (auto simp: disj_assoc split: channel_event.splits)

lemma late_recv_flow: "list_all flow_event evs \<Longrightarrow> late_recv c evs = []"
  by (induction evs arbitrary: c) (auto simp: plain_event_def flow_event_def split: channel_event.splits)

definition close_inv :: "CockpitChannel \<Rightarrow> bool" where
  "close_inv self \<longleftrightarrow>
     length (filter is_closed (chan_log self)) = of_bool (sent_close self) \<and> (sent_close self \<longrightarrow> emitted_close self) \<and>
     (emitted_close self \<longrightarrow> \<not> recv_sig self \<and> \<not> control_sig self \<and> \<not> close_sig self) \<and>
     late_recv False (chan_log self) = []"

text \<open>Events that neither close nor receive.\<close>

definition silent :: "channel_event list \<Rightarrow> bool" where
  "silent evs \<longleftrightarrow> filter is_closed evs = [] \<and> (\<forall>c. late_recv c evs = [])"

lemma flow_silent: "list_all flow_event evs \<Longrightarrow> silent evs"
  by (auto simp: silent_def late_recv_flow filter_empty_conv list_all_iff plain_event_def flow_event_def is_closed_def split: channel_event.splits)

lemma silent_simps [simp]: "silent []" "silent [To_transport c p]" "silent xs \<Longrightarrow> silent ys \<Longrightarrow> silent (xs @ ys)"
  by (auto simp: silent_def is_closed_def)

lemma close_inv_cong:
  assumes "close_inv self" "chan_log self' = chan_log self @ evs" "silent evs"
    and "sent_close self' = sent_close self" "emitted_close self' = emitted_close self"
    and "recv_sig self' = recv_sig self" "control_sig self' = control_sig self" "close_sig self' = close_sig self"
  shows "close_inv self'"
  using assms by (auto simp: close_inv_def silent_def)

lemma actual_send_log:
  "\<exists>evs. chan_log (cockpit_channel_actual_send e self payload trust) = chan_log self @ evs \<and> silent evs"
proof -
  let ?p = "if \<not> trust \<and> \<not> binary_ok self then cockpit_unicode_force_utf8 payload else payload"
  obtain evs where "chan_log (flow_account e (emit (To_transport (Some (chan_id self)) ?p) self) (length ?p)) =
      (chan_log self @ [To_transport (Some (chan_id self)) ?p]) @ evs" "list_all flow_event evs"
    using flow_account_log [of e "emit (To_transport (Some (chan_id self)) ?p) self" "length ?p"] by auto
  moreover have "silent [Critical]" by (simp add: silent_def is_closed_def)
  ultimately show ?thesis
    using silent_simps(3) [OF silent_simps(2) flow_silent, of evs]
    by (auto simp: cockpit_channel_actual_send_def Let_def)
qed

lemma actual_send_sigs [simp]:
  "sent_close (cockpit_channel_actual_send e self p t) = sent_close self"
  "emitted_close (cockpit_channel_actual_send e self p t) = emitted_close self"
  "recv_sig (cockpit_channel_actual_send e self p t) = recv_sig self"
  "control_sig (cockpit_channel_actual_send e self p t) = control_sig self"
  "close_sig (cockpit_channel_actual_send e self p t) = close_sig self"
  by (simp_all add: cockpit_channel_actual_send_def Let_def)

lemma actual_send_close: "close_inv self \<Longrightarrow> close_inv (cockpit_channel_actual_send e self p t)"
  using actual_send_log [of e self p t] by (auto intro: close_inv_cong)

lemma flush_close: "close_inv self \<Longrightarrow> close_inv (flush_buffer e self)"
  by (auto simp: flush_buffer_def intro!: actual_send_close split: option.splits) (simp add: close_inv_def)

lemma send_close: "close_inv self \<Longrightarrow> close_inv (cockpit_channel_send e self p t)"
  by (auto simp: cockpit_channel_send_def Let_def intro!: actual_send_close split: option.splits) (simp_all add: close_inv_def)

lemma flush_sigs [simp]:
  "sent_close (flush_buffer e self) = sent_close self" "emitted_close (flush_buffer e self) = emitted_close self"
  "recv_sig (flush_buffer e self) = recv_sig self" "control_sig (flush_buffer e self) = control_sig self"
  "close_sig (flush_buffer e self) = close_sig self"
  by (simp_all add: flush_buffer_def split: option.splits)

lemma flush_log: "\<exists>evs. chan_log (flush_buffer e self) = chan_log self @ evs \<and> silent evs"
  using actual_send_log [of e "self\<lparr>out_buffer := None, buffer_timeout := False\<rparr>"]
  by (auto simp: flush_buffer_def intro: exI [of _ "[]"] split: option.splits)

lemma close_close:
  assumes "close_inv self"
  shows "close_inv (cockpit_channel_close e self problem)"
proof (cases "sent_close self")
  case True
  then show ?thesis using assms by (auto simp: cockpit_channel_close_def cockpit_channel_real_close_def close_inv_def)
next
  case False
  obtain evs where "chan_log (flush_buffer e (self\<lparr>recv_sig := False, control_sig := False, close_sig := False,
      emitted_close := True, sent_close := True\<rparr>)) = chan_log self @ evs" "silent evs"
    using flush_log [of e "self\<lparr>recv_sig := False, control_sig := False, close_sig := False, emitted_close := True, sent_close := True\<rparr>"]
    by auto
  then show ?thesis
    using assms False
    by (auto simp: cockpit_channel_close_def cockpit_channel_real_close_def Let_def close_inv_def silent_def is_closed_def)
qed

interpretation closing_channel: channel_invariant e close_inv "\<lambda>_. True" "\<lambda>_. True" for e
proof (unfold_locales, goal_cases)
  case (1 self ev)
  then show ?case using flow_silent [of "[ev]"] by (auto intro: close_inv_cong)
next
  case (2 self data)
  then show ?case by (auto simp: close_inv_def is_closed_def filter_empty_conv list_ex_iff)
next
  case (3 self trust payload)
  then show ?case by (intro send_close)
next
  case (4 self)
  then show ?case by (rule flush_close)
next
  case (5 self problem)
  then show ?case by (rule close_close)
next
  case (6 self options)
  then show ?case by (auto simp: process_pong_def close_inv_def is_closed_def Let_def)
qed (auto simp: close_inv_def)

section \<open>Properties\<close>

text \<open>For concrete runs: no doubles are printed or read.\<close>

definition no_doubles :: json_env where
  "no_doubles = \<lparr>json_dtostr = (\<lambda>_. []), json_trunc = (\<lambda>x. x)\<rparr>"

definition channel_new :: "bytes \<Rightarrow> members \<Rightarrow> bool \<Rightarrow> CockpitChannel" where
  "channel_new channel_id options is_derived =
     snd (cockpit_channel_constructed transport_init (cockpit_channel_init channel_id options is_derived))"

definition text_options :: "members \<Rightarrow> bool" where
  "text_options options \<longleftrightarrow>
     (case cockpit_json_get_string options (asc ''binary'') None of Some (Some b) \<Rightarrow> False | _ \<Rightarrow> True)"

lemma text_inv_new: "text_options options \<Longrightarrow> text_inv (channel_new c options d)"
  by (auto simp: text_inv_def channel_new_def cockpit_channel_constructed_def cockpit_channel_init_def sent_payloads_def text_options_def
      split: option.splits)

lemma close_inv_new: "close_inv (channel_new c options d)"
  by (simp add: close_inv_def channel_new_def cockpit_channel_constructed_def cockpit_channel_init_def)

text \<open>C8: On a channel that was opened without the option \<^verbatim>\<open>binary\<close>, every message that goes out is valid UTF-8, after any sequence of calls
  and callbacks, provided that the payloads a class declares to be text are.\<close>

theorem channel_text_valid:
  assumes "text_options options" "list_all (call_ok g_utf8_validate (\<lambda>_. True)) calls"
  shows "list_all g_utf8_validate (sent_payloads (channel_run e (channel_new c options d) calls))"
  using text_channel.run_keeps [OF text_inv_new [OF assms(1)] assms(2)] by (simp add: text_inv_def)

theorem channel_text_valid_witness:
  "list_all g_utf8_validate (sent_payloads (channel_run no_doubles (channel_new (asc ''4'') [] True)
     [On_idle, Call_send [0x61, 0xe2] False, On_timeout, Call_send [0x62] True, Call_close None]))"
  by (rule channel_text_valid) (simp_all add: text_options_def cockpit_json_get_string_def json_object_get_member_def validate_ascii)

text \<open>C7: A text that is sent in pieces, cut anywhere, also inside characters, arrives unchanged: the messages that go out and the bytes that are
  held back add up to what was sent, and nothing is held back once the pieces so far are a valid text.\<close>

theorem channel_text_lossless:
  assumes "text_options options" "list_all (call_ok g_utf8_validate (\<lambda>_. True)) calls"
    and "self = channel_run e (channel_new c options d) calls" "out_buffer self = None"
    and "g_utf8_validate (concat ps @ rest)"
  shows "\<exists>out. sent_payloads (send_all e self ps) = sent_payloads self @ out \<and> list_all g_utf8_validate out \<and>
    concat out @ held (send_all e self ps) = concat ps \<and>
    (held (send_all e self ps) = [] \<longleftrightarrow> g_utf8_validate (concat ps))"
proof -
  have inv: "text_inv self" unfolding assms(3) by (rule text_channel.run_keeps [OF text_inv_new [OF assms(1)] assms(2)])
  have h: "held self = []" using assms(4) by (simp add: held_def)
  obtain out where out: "sent_payloads (send_all e self ps) = sent_payloads self @ out" "text_inv (send_all e self ps)"
    "concat out @ held (send_all e self ps) = concat ps" "g_utf8_validate (concat ps) \<Longrightarrow> held (send_all e self ps) = []"
    using send_all_text [OF inv assms(5), of ps e] h by auto
  then have valid: "list_all g_utf8_validate out" by (auto simp: text_inv_def)
  then have "g_utf8_validate (concat out)" by (intro validate_concat) (simp add: list_all_iff)
  then have "g_utf8_validate (concat ps)" if "held (send_all e self ps) = []" using that out(3) by simp
  then show ?thesis using out valid by blast
qed

theorem channel_text_lossless_witness:
  "\<exists>out. sent_payloads (send_all no_doubles (channel_run no_doubles (channel_new (asc ''4'') [] True) [On_idle]) [[0x61, 0xe2, 0x82], [0xac, 0x62]]) =
      sent_payloads (channel_run no_doubles (channel_new (asc ''4'') [] True) [On_idle]) @ out \<and> list_all g_utf8_validate out \<and>
    concat out @ held (send_all no_doubles (channel_run no_doubles (channel_new (asc ''4'') [] True) [On_idle]) [[0x61, 0xe2, 0x82], [0xac, 0x62]]) =
      concat [[0x61, 0xe2, 0x82], [0xac, 0x62]] \<and>
    (held (send_all no_doubles (channel_run no_doubles (channel_new (asc ''4'') [] True) [On_idle]) [[0x61, 0xe2, 0x82], [0xac, 0x62]]) = [] \<longleftrightarrow>
      g_utf8_validate (concat [[0x61, 0xe2, 0x82], [0xac, 0x62]]))"
proof (rule channel_text_lossless [where rest = "[]" and calls = "[On_idle]" and c = "asc ''4''" and d = True])
  show "text_options []" by (simp add: text_options_def cockpit_json_get_string_def json_object_get_member_def)
  show "g_utf8_validate (concat [[0x61, 0xe2, 0x82], [0xac, 0x62]] @ [])"
    by (simp add: g_utf8_validate_def utf8_end.simps utf8_char_len_def utf8_cont_def cont_bits_def)
qed (simp_all add: channel_run_def channel_new_def cockpit_channel_constructed_def cockpit_channel_init_def on_idle_prepare_def
    cockpit_channel_prepare_def cockpit_channel_real_prepare_def cockpit_channel_ensure_capable_def cockpit_json_get_strv_def
    cockpit_json_get_string_def cockpit_json_get_bool_def json_object_get_member_def)


text \<open>The command \<^verbatim>\<open>done\<close> does not wait for bytes that are held back: they follow it.\<close>

lemma channel_done_overtakes:
  "chan_log (channel_run e (channel_new (asc ''4'') [] True) [On_idle, Call_send [0xff] False, Call_control (asc ''done'') None, On_timeout]) =
     [To_transport None (cockpit_json_write_bytes (json_dtostr e) [(asc ''command'', JString (asc ''done'')), (asc ''channel'', JString (asc ''4''))]),
      To_transport (Some (asc ''4'')) replacement_char]"
proof -
  have e: "utf8_end [0xff] = 0" by (subst utf8_end.simps) (simp add: utf8_char_len_def)
  then have "cockpit_unicode_force_utf8 [0xff] = replacement_char"
    by (simp add: cockpit_unicode_force_utf8_def g_utf8_validate_def force_loop.simps [of "[0xff]"]) (simp add: force_loop.simps)
  moreover have "cockpit_unicode_has_incomplete_ending [0xff]" using incomplete_ending_stray_byte [of "[]"] by simp
  ultimately show ?thesis
    by (simp add: channel_run_def channel_new_def cockpit_channel_constructed_def cockpit_channel_init_def on_idle_prepare_def
      cockpit_channel_prepare_def cockpit_channel_real_prepare_def cockpit_channel_ensure_capable_def cockpit_json_get_strv_def
      cockpit_json_get_string_def cockpit_json_get_bool_def json_object_get_member_def cockpit_channel_send_def
      cockpit_channel_control_def control_message_def flush_buffer_def cockpit_channel_actual_send_def set_string_def asc_def emit_def)
qed

text \<open>A second \<^verbatim>\<open>done\<close> fails the channel, and is handed to the class all the same, after the closed signal.\<close>

lemma channel_second_done_delivered:
  "\<exists>evs. chan_log (channel_run e (channel_new c [] True) [On_control (asc ''done'') (Some c) [], On_control (asc ''done'') (Some c) []]) =
     evs @ [Signal_closed (Some (asc ''protocol-error'')), Class_control (asc ''done'') []]"
  by (simp add: channel_run_def channel_new_def cockpit_channel_constructed_def cockpit_channel_init_def on_transport_control_def
      process_control_def cockpit_channel_fail_def cockpit_channel_close_options_def cockpit_channel_close_def
      cockpit_channel_real_close_def flush_buffer_def json_object_get_member_def emit_def asc_def)

end
