(* ===== verification/ChannelFlow.thy ===== *)
theory ChannelFlow
  imports ChannelText JsonText
begin

text \<open>
  Flow control of a channel: the back-pressure it signals agrees with its window, a class that honours it has a bounded amount of data
  under way, and the answer to its last ping releases it.
\<close>

section \<open>Pressure in the log\<close>

fun last_pressure :: "bool \<Rightarrow> channel_event list \<Rightarrow> bool" where
  "last_pressure u [] = u"
| "last_pressure u (ev # evs) = last_pressure (case ev of Signal_pressure b \<Rightarrow> b | _ \<Rightarrow> u) evs"

text \<open>No payload goes out while the last signal said that there is pressure.\<close>

fun polite :: "bool \<Rightarrow> channel_event list \<Rightarrow> bool" where
  "polite u [] = True"
| "polite u (ev # evs) =
     (case ev of
        Signal_pressure b \<Rightarrow> polite b evs
      | To_transport (Some c) p \<Rightarrow> \<not> u \<and> polite u evs
      | _ \<Rightarrow> polite u evs)"

lemma last_pressure_append [simp]: "last_pressure u (xs @ ys) = last_pressure (last_pressure u xs) ys"
  by (induction u xs rule: last_pressure.induct) auto

lemma polite_append [simp]: "polite u (xs @ ys) \<longleftrightarrow> polite u xs \<and> polite (last_pressure u xs) ys"
  by (induction u xs rule: polite.induct) (auto split: channel_event.splits option.splits)

definition ping_object :: "CockpitChannel \<Rightarrow> members" where
  "ping_object self =
     [(asc ''sequence'', JInt (word_of_int (out_sequence self))), (asc ''command'', JString (asc ''ping'')),
      (asc ''channel'', JString (chan_id self))]"

definition ping_sent :: "json_env \<Rightarrow> CockpitChannel \<Rightarrow> bool" where
  "ping_sent e self \<longleftrightarrow> To_transport None (cockpit_json_write_bytes (json_dtostr e) (ping_object self)) \<in> set (chan_log self)"

definition fits :: "CockpitChannel \<Rightarrow> bool" where
  "fits self \<longleftrightarrow> (\<forall>p\<in>set (sent_payloads self). length p < 2 ^ 63)"

definition under_pressure :: "CockpitChannel \<Rightarrow> bool" where
  "under_pressure self \<longleftrightarrow> out_sequence self > out_window self"

definition flow_ok :: "json_env \<Rightarrow> CockpitChannel \<Rightarrow> bool" where
  "flow_ok e self \<longleftrightarrow>
     0 \<le> out_sequence self \<and> out_sequence self < 2 ^ 63 \<and> 0 \<le> out_window self \<and> out_window self < 2 ^ 63 \<and>
     last_pressure False (chan_log self) = under_pressure self \<and>
     (polite False (chan_log self) \<longrightarrow> (under_pressure self \<longrightarrow> ping_sent e self) \<and>
        (\<forall>m. (\<forall>p\<in>set (sent_payloads self). length p \<le> m) \<longrightarrow> out_sequence self \<le> out_window self + int m))"

definition flow_inv :: "json_env \<Rightarrow> CockpitChannel \<Rightarrow> bool" where
  "flow_inv e self \<longleftrightarrow> (fits self \<longrightarrow> flow_ok e self)"

lemma guint64_id [simp]: "0 \<le> x \<Longrightarrow> x < 2 ^ 64 \<Longrightarrow> guint64 x = x"
  by (simp add: guint64_def)

lemma gint64_id [simp]: "0 \<le> x \<Longrightarrow> x < 2 ^ 63 \<Longrightarrow> gint64 x = x"
  by (simp add: gint64_def sint_sbintrunc' signed_take_bit_int_eq_self)

lemma sdiv_ping [simp]: "0 \<le> x \<Longrightarrow> x sdiv CHANNEL_FLOW_PING = x div CHANNEL_FLOW_PING"
  by (simp add: signed_divide_int_def CHANNEL_FLOW_PING_def sgn_if)

text \<open>What one payload does to the counters and the log, while nothing wraps.\<close>

lemma flow_account_result:
  assumes "0 \<le> out_sequence self" "out_sequence self < 2 ^ 63" "0 \<le> out_window self" "out_window self < 2 ^ 63" "n < 2 ^ 63"
  shows "flow_account e self n =
    (if out_sequence self + int n \<ge> 2 ^ 63 - 1 then emit Critical self
     else
       let s = out_sequence self + int n;
           trigger = (\<not> under_pressure self \<and> s > out_window self);
           self' = (if s div CHANNEL_FLOW_PING \<noteq> out_sequence self div CHANNEL_FLOW_PING \<or> trigger
                    then emit (To_transport None (cockpit_json_write_bytes (json_dtostr e) (ping_object (self\<lparr>out_sequence := s\<rparr>)))) self
                    else self)\<lparr>out_sequence := s\<rparr>
       in if trigger then emit (Signal_pressure True) self' else self')"
proof -
  have g: "guint64 (2 ^ 63 - 1 - int n) = 2 ^ 63 - 1 - int n" "guint64 (out_sequence self) = out_sequence self"
    "guint64 (out_window self) = out_window self" "guint64 (out_sequence self div CHANNEL_FLOW_PING) = out_sequence self div CHANNEL_FLOW_PING"
    using assms zdiv_mono2 [of "out_sequence self" 1 CHANNEL_FLOW_PING] by (auto simp: CHANNEL_FLOW_PING_def intro!: guint64_id)
  have s: "guint64 (out_sequence self + int n) = out_sequence self + int n" "gint64 (out_sequence self + int n) = out_sequence self + int n"
    if "\<not> out_sequence self + int n \<ge> 2 ^ 63 - 1"
    using that assms by (auto intro!: guint64_id gint64_id)
  show ?thesis
  proof (cases "out_sequence self + int n \<ge> 2 ^ 63 - 1")
    case True
    then show ?thesis unfolding flow_account_def g by simp
  next
    case False
    have d: "out_sequence self sdiv CHANNEL_FLOW_PING = out_sequence self div CHANNEL_FLOW_PING" using assms(1) by simp
    from False show ?thesis
      unfolding flow_account_def d g s [OF False] control_message_def ping_object_def set_string_def under_pressure_def Let_def
      by (simp add: not_less asc_def)
  qed
qed

section \<open>The invariant\<close>

lemma last_pressure_plain: "plain_event ev \<Longrightarrow> last_pressure u [ev] = u" "plain_event ev \<Longrightarrow> polite u [ev]"
  by (auto simp: plain_event_def split: channel_event.splits option.splits)

lemma emit_flow [simp]:
  "out_sequence (emit ev self) = out_sequence self" "out_window (emit ev self) = out_window self"
  "under_pressure (emit ev self) = under_pressure self" "ping_object (emit ev self) = ping_object self"
  by (simp_all add: emit_def under_pressure_def ping_object_def)

text \<open>An event that is no pressure signal, logged while the counters stay.\<close>

lemma flow_ok_emit:
  assumes "flow_ok e self" "\<And>b. ev \<noteq> Signal_pressure b"
  shows "flow_ok e (emit ev self)"
proof -
  have "last_pressure u [ev] = u" for u using assms(2) by (cases ev) auto
  then show ?thesis using assms(1) by (auto simp: flow_ok_def ping_sent_def)
qed

lemma fits_emit: "fits (emit ev self) \<Longrightarrow> fits self"
  by (simp add: fits_def)

lemma flow_account_ok:
  assumes ok: "flow_ok e self" and n: "length p < 2 ^ 63"
  shows "flow_ok e (flow_account e (emit (To_transport (Some c) p) self) (length p))"
proof -
  let ?self = "emit (To_transport (Some c) p) self" and ?s = "out_sequence self + int (length p)"
  have b: "0 \<le> out_sequence ?self" "out_sequence ?self < 2 ^ 63" "0 \<le> out_window ?self" "out_window ?self < 2 ^ 63"
    using ok by (auto simp: flow_ok_def)
  note res = flow_account_result [OF b n, of e]
  have emitted: "flow_ok e ?self" using ok by (rule flow_ok_emit) simp
  consider (full) "?s \<ge> 2 ^ 63 - 1" | (trigger) "?s < 2 ^ 63 - 1" "\<not> under_pressure self" "?s > out_window self"
    | (under) "?s < 2 ^ 63 - 1" "under_pressure self" | (within) "?s < 2 ^ 63 - 1" "\<not> under_pressure self" "?s \<le> out_window self"
    by linarith
  then show ?thesis
  proof cases
    case full
    then show ?thesis using res emitted by (auto intro: flow_ok_emit)
  next
    case trigger
    then show ?thesis unfolding res
      using ok by (auto simp: flow_ok_def under_pressure_def ping_sent_def ping_object_def sent_payloads_def emit_def Let_def)
  next
    case under
    then show ?thesis unfolding res
      using ok by (auto simp: flow_ok_def under_pressure_def sent_payloads_def emit_def Let_def)
  next
    case within
    then show ?thesis unfolding res
      using ok by (auto simp: flow_ok_def under_pressure_def sent_payloads_def emit_def Let_def)
  qed
qed

lemma actual_send_flow:
  assumes "flow_inv e self"
  shows "flow_inv e (cockpit_channel_actual_send e self payload trust)"
proof (cases "out_buffer self \<noteq> None \<or> buffer_timeout self")
  case True
  then show ?thesis
    using assms flow_ok_emit [of e self Critical] fits_emit [of Critical self]
    by (auto simp: cockpit_channel_actual_send_def flow_inv_def)
next
  case False
  let ?p = "if \<not> trust \<and> \<not> binary_ok self then cockpit_unicode_force_utf8 payload else payload"
  let ?self = "emit (To_transport (Some (chan_id self)) ?p) self"
  have eq: "cockpit_channel_actual_send e self payload trust = (if flow_control self then flow_account e ?self (length ?p) else ?self)"
    using False by (simp add: cockpit_channel_actual_send_def Let_def)
  have sent: "sent_payloads (cockpit_channel_actual_send e self payload trust) = sent_payloads self @ [?p]" unfolding eq by simp
  show ?thesis
    unfolding flow_inv_def
  proof
    assume "fits (cockpit_channel_actual_send e self payload trust)"
    then have f: "fits self" "length ?p < 2 ^ 63" unfolding fits_def sent by auto
    then have "flow_ok e self" using assms by (simp add: flow_inv_def)
    then show "flow_ok e (cockpit_channel_actual_send e self payload trust)"
      unfolding eq using flow_account_ok [OF _ f(2)] flow_ok_emit [of e self "To_transport (Some (chan_id self)) ?p"] by simp
  qed
qed

lemma flow_inv_cong:
  assumes "flow_inv e self" "out_sequence self' = out_sequence self" "out_window self' = out_window self"
    "chan_log self' = chan_log self" "chan_id self' = chan_id self"
  shows "flow_inv e self'"
  using assms
  by (simp add: flow_inv_def flow_ok_def fits_def sent_payloads_def under_pressure_def ping_sent_def ping_object_def)

lemma flush_flow: "flow_inv e self \<Longrightarrow> flow_inv e (flush_buffer e self)"
  by (auto simp: flush_buffer_def intro!: actual_send_flow elim: flow_inv_cong split: option.splits)

lemma send_flow: "flow_inv e self \<Longrightarrow> flow_inv e (cockpit_channel_send e self p t)"
  by (auto simp: cockpit_channel_send_def Let_def intro!: actual_send_flow elim: flow_inv_cong split: option.splits)

lemma emit_flow_inv:
  assumes "flow_inv e self" "\<And>b. ev \<noteq> Signal_pressure b"
  shows "flow_inv e (emit ev self)"
  using assms(1) fits_emit [of ev self] flow_ok_emit [OF _ assms(2), of e self] by (auto simp: flow_inv_def)

lemma close_flow:
  assumes "flow_inv e self"
  shows "flow_inv e (cockpit_channel_close e self problem)"
proof -
  let ?self = "self\<lparr>recv_sig := False, control_sig := False, close_sig := False, emitted_close := True, sent_close := True\<rparr>"
  have f: "flow_inv e (flush_buffer e ?self)" by (rule flush_flow, rule flow_inv_cong [OF assms]) auto
  then have "flow_inv e ((flush_buffer e ?self)\<lparr>close_options := None\<rparr>)" by (rule flow_inv_cong) auto
  moreover have "flow_inv e ?self" by (rule flow_inv_cong [OF assms]) auto
  moreover have "sent_close self \<Longrightarrow> flow_inv e (self\<lparr>recv_sig := False, control_sig := False, close_sig := False, emitted_close := True\<rparr>)"
    by (rule flow_inv_cong [OF assms]) auto
  ultimately show ?thesis
    by (auto simp: cockpit_channel_close_def cockpit_channel_real_close_def Let_def intro!: emit_flow_inv)
qed

text \<open>A peer that does not acknowledge more than can ever be sent.\<close>

definition sane_ack :: "json_env \<Rightarrow> members \<Rightarrow> bool" where
  "sane_ack e pong \<longleftrightarrow> pong_sequence e pong < 2 ^ 63 - CHANNEL_FLOW_WINDOW"

lemma pong_flow:
  assumes inv: "flow_inv e self" and sane: "sane_ack e pong"
  shows "flow_inv e (process_pong e self pong)"
proof -
  define q where "q = pong_sequence e pong"
  define self' where "self' = self\<lparr>out_window := q + CHANNEL_FLOW_WINDOW\<rparr>"
  have q: "q < 2 ^ 63 - CHANNEL_FLOW_WINDOW" using sane by (simp add: q_def sane_ack_def)
  show ?thesis
  proof (cases "fits self \<and> flow_control self \<and> q \<ge> out_window self")
    case False
    then show ?thesis
      using inv by (auto simp: process_pong_def q_def [symmetric] Let_def flow_inv_def fits_def)
  next
    case True
    then have ok: "flow_ok e self" using inv by (simp add: flow_inv_def)
    then have g: "gint64 (q + CHANNEL_FLOW_WINDOW) = q + CHANNEL_FLOW_WINDOW"
      using True q by (intro gint64_id) (auto simp: flow_ok_def CHANNEL_FLOW_WINDOW_def)
    have eq: "process_pong e self pong =
        (if out_sequence self \<le> q + CHANNEL_FLOW_WINDOW then emit (Signal_pressure False) self' else self')"
      using True g by (simp add: process_pong_def q_def [symmetric] self'_def Let_def)
    have "out_sequence self \<le> q + CHANNEL_FLOW_WINDOW + int m"
      if "polite False (chan_log self)" "\<forall>p\<in>set (sent_payloads self). length p \<le> m" for m
    proof -
      have "out_sequence self \<le> out_window self + int m" using ok that by (simp add: flow_ok_def)
      then show ?thesis using True by (simp add: CHANNEL_FLOW_WINDOW_def)
    qed
    then have "flow_ok e (process_pong e self pong)"
      using ok True q unfolding eq self'_def
      by (auto simp: flow_ok_def under_pressure_def ping_sent_def ping_object_def CHANNEL_FLOW_WINDOW_def)
    then show ?thesis by (simp add: flow_inv_def)
  qed
qed

interpretation flow_channel: channel_invariant e "flow_inv e" "\<lambda>_. True" "sane_ack e" for e
proof (unfold_locales, goal_cases)
  case (1 self ev)
  then show ?case by (intro emit_flow_inv) (auto simp: plain_event_def)
next
  case (2 self data)
  then show ?case by (intro emit_flow_inv) auto
next
  case (3 self trust payload)
  then show ?case by (intro send_flow)
next
  case (4 self)
  then show ?case by (rule flush_flow)
next
  case (5 self problem)
  then show ?case by (rule close_flow)
next
  case (6 self options)
  then show ?case by (rule pong_flow)
qed (auto elim: flow_inv_cong)

section \<open>Properties\<close>

lemma flow_inv_new: "flow_inv e (channel_new c options d)"
  by (simp add: flow_inv_def flow_ok_def under_pressure_def channel_new_def cockpit_channel_constructed_def cockpit_channel_init_def
      CHANNEL_FLOW_WINDOW_def)

lemma flow_ok_run:
  assumes "list_all (call_ok (\<lambda>_. True) (sane_ack e)) calls" "fits (channel_run e (channel_new c options d) calls)"
  shows "flow_ok e (channel_run e (channel_new c options d) calls)"
  using flow_channel.run_keeps [OF flow_inv_new assms(1)] assms(2) by (simp add: flow_inv_def)

text \<open>C6: After any calls and callbacks, the last pressure signal of a channel says what its counters say: pressure if and only if more was sent than
  the window allows.  If its class sends nothing while there is pressure, then what was sent exceeds the window by at most the largest message.\<close>

theorem channel_flow_bounded:
  assumes "list_all (call_ok (\<lambda>_. True) (sane_ack e)) calls" "s = channel_run e (channel_new c options d) calls"
    and "\<forall>p\<in>set (sent_payloads s). length p \<le> m" "m < 2 ^ 63"
  shows "last_pressure False (chan_log s) = (out_sequence s > out_window s) \<and> 0 \<le> out_sequence s \<and>
    (polite False (chan_log s) \<longrightarrow> out_sequence s \<le> out_window s + int m)"
proof -
  have "fits s" using assms(3,4) by (auto simp: fits_def)
  then have "flow_ok e s" using flow_ok_run [OF assms(1)] assms(2) by simp
  then show ?thesis using assms(3) by (auto simp: flow_ok_def under_pressure_def)
qed

text \<open>C5: A channel under pressure, whose class has stopped sending, is released by its peer: the channel has sent a ping with the number of bytes sent,
  the peer, when it is not throttled itself, answers it with a pong, and the pong ends the pressure.\<close>

theorem channel_flow_released:
  assumes "list_all (call_ok (\<lambda>_. True) (sane_ack e)) calls" "s = channel_run e (channel_new c options d) calls" "fits s"
    and "polite False (chan_log s)" "flow_control s" "out_sequence s > out_window s" "out_sequence s < 2 ^ 63 - CHANNEL_FLOW_WINDOW"
    and "throttled peer = None" "pong = set_string (ping_object s) ''command'' (asc ''pong'')" "s' = process_control e s (asc ''pong'') pong"
  shows "To_transport None (cockpit_json_write_bytes (json_dtostr e) (ping_object s)) \<in> set (chan_log s) \<and>
    process_control e peer (asc ''ping'') (ping_object s) = emit (To_transport None (cockpit_json_write_bytes (json_dtostr e) pong)) peer \<and>
    out_sequence s' = out_sequence s \<and> out_sequence s' \<le> out_window s' \<and> chan_log s' = chan_log s @ [Signal_pressure False]"
proof -
  have ok: "flow_ok e s" using flow_ok_run [OF assms(1)] assms(2,3) by simp
  have "pong_sequence e pong = out_sequence s"
    using ok by (simp add: pong_sequence_def assms(9) set_string_def ping_object_def cockpit_json_get_int_def json_object_get_member_def
        sint_sbintrunc' signed_take_bit_int_eq_self flow_ok_def)
  moreover have "gint64 (out_sequence s + CHANNEL_FLOW_WINDOW) = out_sequence s + CHANNEL_FLOW_WINDOW"
    using ok assms(7) by (intro gint64_id) (auto simp: flow_ok_def CHANNEL_FLOW_WINDOW_def)
  ultimately have "process_pong e s pong = emit (Signal_pressure False) (s\<lparr>out_window := out_sequence s + CHANNEL_FLOW_WINDOW\<rparr>)"
    using assms(5,6) by (simp add: process_pong_def CHANNEL_FLOW_WINDOW_def)
  then have s': "s' = emit (Signal_pressure False) (s\<lparr>out_window := out_sequence s + CHANNEL_FLOW_WINDOW\<rparr>)"
    by (simp add: assms(10) process_control_def asc_def)
  have "ping_sent e s" using ok assms(4,6) by (simp add: flow_ok_def under_pressure_def)
  moreover have "process_control e peer (asc ''ping'') (ping_object s) = emit (To_transport None (cockpit_json_write_bytes (json_dtostr e) pong)) peer"
    using assms(8,9) by (simp add: process_control_def process_ping_def asc_def)
  ultimately show ?thesis unfolding s' by (simp add: ping_sent_def CHANNEL_FLOW_WINDOW_def)
qed

section \<open>A run under pressure\<close>

text \<open>A class that trusts its payload sends it as it is.\<close>

lemma trusted_send:
  assumes "out_buffer self = None" "flow_control self"
  shows "cockpit_channel_send e self p True =
    flow_account e (emit (To_transport (Some (chan_id self)) p) (self\<lparr>buffer_timeout := False\<rparr>)) (length p)"
  using assms by (simp add: cockpit_channel_send_def cockpit_channel_actual_send_def)

definition flow_channel_new :: CockpitChannel where
  "flow_channel_new = channel_new (asc ''4'') [(asc ''flow-control'', JBool True)] True"

lemma flow_channel_prepared:
  "channel_step e flow_channel_new On_idle = flow_channel_new\<lparr>prepare_tag := False, prepared := True, flow_control := True\<rparr>"
  by (simp add: flow_channel_new_def channel_new_def cockpit_channel_constructed_def cockpit_channel_init_def on_idle_prepare_def
      cockpit_channel_prepare_def cockpit_channel_real_prepare_def cockpit_channel_ensure_capable_def cockpit_json_get_strv_def
      cockpit_json_get_string_def cockpit_json_get_bool_def json_object_get_member_def asc_def)

definition ping_event :: "json_env \<Rightarrow> int \<Rightarrow> channel_event" where
  "ping_event e n =
     To_transport None (cockpit_json_write_bytes (json_dtostr e)
       [(asc ''sequence'', JInt (word_of_int n)), (asc ''command'', JString (asc ''ping'')), (asc ''channel'', JString (asc ''4''))])"

lemma flow_channel_fields [simp]:
  "out_buffer flow_channel_new = None" "chan_id flow_channel_new = asc ''4''" "out_sequence flow_channel_new = 0"
  "out_window flow_channel_new = 2097152" "chan_log flow_channel_new = []"
  by (simp_all add: flow_channel_new_def channel_new_def cockpit_channel_constructed_def cockpit_channel_init_def CHANNEL_FLOW_WINDOW_def)

lemma flow_pressed:
  assumes "length p = 2097153"
  shows "channel_run e flow_channel_new [On_idle, Call_send p True] =
    flow_channel_new\<lparr>prepare_tag := False, prepared := True, flow_control := True, buffer_timeout := False, out_sequence := 2097153,
      chan_log := [To_transport (Some (asc ''4'')) p, ping_event e 2097153, Signal_pressure True]\<rparr>"
  using assms
  by (simp add: channel_run_def flow_channel_prepared trusted_send flow_account_result ping_object_def ping_event_def under_pressure_def
      emit_def CHANNEL_FLOW_PING_def Let_def del: channel_step.simps(12))

lemma payloads_pressed: "sent_payloads (flow_channel_new\<lparr>prepare_tag := False, prepared := True, flow_control := True, buffer_timeout := False,
    out_sequence := n, chan_log := [To_transport (Some c) p, ping_event e k, Signal_pressure True]\<rparr>) = [p]"
  by (simp add: sent_payloads_def ping_event_def)

theorem channel_flow_bounded_witness:
  "\<exists>p. length p = 2097153 \<and>
     last_pressure False (chan_log (channel_run no_doubles flow_channel_new [On_idle, Call_send p True])) \<and>
     out_sequence (channel_run no_doubles flow_channel_new [On_idle, Call_send p True]) \<le> 2097152 + int 2097153"
proof -
  obtain p :: bytes where p: "length p = 2097153" using Ex_list_of_length by blast
  let ?s = "channel_run no_doubles flow_channel_new [On_idle, Call_send p True]"
  have "last_pressure False (chan_log ?s) = (out_sequence ?s > out_window ?s) \<and> 0 \<le> out_sequence ?s \<and>
      (polite False (chan_log ?s) \<longrightarrow> out_sequence ?s \<le> out_window ?s + int 2097153)"
  proof (rule channel_flow_bounded)
    show "\<forall>q\<in>set (sent_payloads ?s). length q \<le> 2097153" unfolding flow_pressed [OF p] payloads_pressed by (simp add: p)
    show "?s = channel_run no_doubles (channel_new (asc ''4'') [(asc ''flow-control'', JBool True)] True) [On_idle, Call_send p True]"
      by (simp only: flow_channel_new_def)
  qed (simp_all add: call_ok_def)
  then have "last_pressure False (chan_log ?s)" "out_sequence ?s \<le> 2097152 + int 2097153"
    unfolding flow_pressed [OF p] by (simp_all add: ping_event_def)
  then show ?thesis using p by blast
qed

theorem channel_flow_released_witness:
  "\<exists>p s. length p = 2097153 \<and> s = channel_run no_doubles flow_channel_new [On_idle, Call_send p True] \<and>
     out_sequence s > out_window s \<and>
     chan_log (process_control no_doubles s (asc ''pong'') (set_string (ping_object s) ''command'' (asc ''pong''))) =
       chan_log s @ [Signal_pressure False]"
proof -
  obtain p :: bytes where p: "length p = 2097153" using Ex_list_of_length by blast
  define s where "s = channel_run no_doubles flow_channel_new [On_idle, Call_send p True]"
  note eq = s_def [unfolded flow_pressed [OF p]]
  have pressed: "out_sequence s > out_window s" by (simp add: eq)
  have "chan_log (process_control no_doubles s (asc ''pong'') (set_string (ping_object s) ''command'' (asc ''pong''))) =
      chan_log s @ [Signal_pressure False]"
  proof (rule channel_flow_released [THEN conjunct2, THEN conjunct2, THEN conjunct2, THEN conjunct2])
    show "s = channel_run no_doubles (channel_new (asc ''4'') [(asc ''flow-control'', JBool True)] True) [On_idle, Call_send p True]"
      by (simp only: s_def flow_channel_new_def)
    show "fits s" unfolding fits_def eq payloads_pressed by (simp add: p)
    show "polite False (chan_log s)" by (simp add: eq ping_event_def)
    show "throttled flow_channel_new = None"
      by (simp add: flow_channel_new_def channel_new_def cockpit_channel_constructed_def cockpit_channel_init_def)
  qed (use pressed in \<open>simp_all add: eq call_ok_def CHANNEL_FLOW_WINDOW_def\<close>)
  then show ?thesis using p pressed s_def by blast
qed

text \<open>A class that goes on sending under pressure can wait for ever: the answers to all its pings do not release it, because the last of them is below the
  window that the first one opened.\<close>

lemma channel_flow_stuck:
  assumes "length p = 2097153" "length q = 2097151" "length r = 2"
    and "s = channel_run e flow_channel_new [On_idle, Call_send p True, Call_send q True, Call_send r True]"
    and "pong = (\<lambda>n. [(asc ''sequence'', JInt (word_of_int n)), (asc ''command'', JString (asc ''pong'')), (asc ''channel'', JString (asc ''4''))])"
    and "s' = process_pong e (process_pong e s (pong 2097153)) (pong 4194304)"
  shows "chan_log s = [To_transport (Some (asc ''4'')) p, ping_event e 2097153, Signal_pressure True,
      To_transport (Some (asc ''4'')) q, ping_event e 4194304, To_transport (Some (asc ''4'')) r] \<and>
    chan_log s' = chan_log s \<and> out_sequence s' > out_window s'"
proof -
  have run: "channel_run e flow_channel_new [On_idle, Call_send p True, Call_send q True, Call_send r True] =
      cockpit_channel_send e (cockpit_channel_send e (channel_run e flow_channel_new [On_idle, Call_send p True]) q True) r True"
    by (simp add: channel_run_def)
  have s: "s = flow_channel_new\<lparr>prepare_tag := False, prepared := True, flow_control := True, buffer_timeout := False, out_sequence := 4194306,
      chan_log := [To_transport (Some (asc ''4'')) p, ping_event e 2097153, Signal_pressure True,
        To_transport (Some (asc ''4'')) q, ping_event e 4194304, To_transport (Some (asc ''4'')) r]\<rparr>"
    unfolding assms(4) run flow_pressed [OF assms(1)]
    by (simp add: trusted_send flow_account_result ping_object_def ping_event_def under_pressure_def
        emit_def CHANNEL_FLOW_PING_def Let_def assms(2,3))
  have "pong_sequence e (pong n) = sint (word_of_int n :: 64 word)" for n
    by (simp add: assms(5) pong_sequence_def cockpit_json_get_int_def json_object_get_member_def)
  then show ?thesis
    unfolding assms(6) s by (simp add: process_pong_def CHANNEL_FLOW_WINDOW_def Let_def)
qed

section \<open>Pings while throttled\<close>

definition pong_event :: "json_env \<Rightarrow> members \<Rightarrow> channel_event" where
  "pong_event e ping = To_transport None (cockpit_json_write_bytes (json_dtostr e) (set_string ping ''command'' (asc ''pong'')))"

definition waiting :: "CockpitChannel \<Rightarrow> members list" where
  "waiting self = (case throttled self of None \<Rightarrow> [] | Some queue \<Rightarrow> queue)"

datatype throttle_op = Ping members | Throttle bool

fun throttle_call :: "bytes \<Rightarrow> throttle_op \<Rightarrow> channel_call" where
  "throttle_call c (Ping options) = On_control (asc ''ping'') (Some c) options"
| "throttle_call c (Throttle b) = On_pressure b"

definition pings :: "throttle_op list \<Rightarrow> members list" where
  "pings ops = concat (map (\<lambda>op. case op of Ping options \<Rightarrow> [options] | Throttle b \<Rightarrow> []) ops)"

lemma answer_pings_log:
  "throttled self = None \<Longrightarrow> answer_pings e self queue = self\<lparr>chan_log := chan_log self @ map (pong_event e) queue\<rparr>"
  by (induction queue arbitrary: self) (simp_all add: process_ping_def pong_event_def emit_def)

lemma pings_answered:
  assumes "control_sig self" "pressure self \<noteq> None"
  shows "\<exists>answered. chan_log (channel_run e self (map (throttle_call (chan_id self)) ops)) = chan_log self @ map (pong_event e) answered \<and>
    answered @ waiting (channel_run e self (map (throttle_call (chan_id self)) ops)) = waiting self @ pings ops"
  using assms
proof (induction ops arbitrary: self)
  case (Cons op ops)
  let ?self = "channel_step e self (throttle_call (chan_id self) op)"
  have keep: "control_sig ?self" "pressure ?self \<noteq> None" "chan_id ?self = chan_id self"
    using Cons.prems by (cases op; auto simp: on_transport_control_def process_control_def process_ping_def on_throttle_pressure_def
        answer_pings_log emit_def asc_def split: option.splits)+
  obtain now where now: "chan_log ?self = chan_log self @ map (pong_event e) now" "now @ waiting ?self = waiting self @ pings [op]"
  proof (cases op)
    case (Ping options)
    then show ?thesis
      using Cons.prems that by (cases "throttled self") (auto simp: on_transport_control_def process_control_def process_ping_def
        pong_event_def waiting_def pings_def emit_def asc_def)
  next
    case (Throttle b)
    then show ?thesis
      using Cons.prems that [of "if b then [] else waiting self"]
      by (auto simp: on_throttle_pressure_def answer_pings_log waiting_def pings_def split: option.splits)
  qed
  obtain later where "chan_log (channel_run e ?self (map (throttle_call (chan_id ?self)) ops)) = chan_log ?self @ map (pong_event e) later"
    "later @ waiting (channel_run e ?self (map (throttle_call (chan_id ?self)) ops)) = waiting ?self @ pings ops"
    using Cons.IH [OF keep(1,2)] by blast
  then show ?case
    using now keep(3) by (intro exI [of _ "now @ later"]) (auto simp: channel_run_def pings_def)
qed (simp add: channel_run_def pings_def)

text \<open>A channel that another flow throttles answers every ping it receives exactly once and in the order of arrival, whatever the sequence of pressure
  signals: the pings answered and those that wait are the pings received.\<close>

theorem channel_pings_answered:
  assumes "control_sig self" "pressure self \<noteq> None" "throttled self = None"
  shows "\<exists>answered. chan_log (channel_run e self (map (throttle_call (chan_id self)) ops)) = chan_log self @ map (pong_event e) answered \<and>
    answered @ waiting (channel_run e self (map (throttle_call (chan_id self)) ops)) = pings ops"
  using pings_answered [OF assms(1,2), of e ops] assms(3) by (simp add: waiting_def)

theorem channel_pings_answered_witness:
  "\<exists>answered. chan_log (channel_run no_doubles (cockpit_channel_throttle flow_channel_new (Some 1))
       (map (throttle_call (asc ''4'')) [Throttle True, Ping [], Ping [(asc ''x'', JNull)], Throttle False])) =
     map (pong_event no_doubles) answered \<and> answered @ waiting (channel_run no_doubles (cockpit_channel_throttle flow_channel_new (Some 1))
       (map (throttle_call (asc ''4'')) [Throttle True, Ping [], Ping [(asc ''x'', JNull)], Throttle False])) = [[], [(asc ''x'', JNull)]]"
proof -
  have "chan_id (cockpit_channel_throttle flow_channel_new (Some 1)) = asc ''4''" "chan_log (cockpit_channel_throttle flow_channel_new (Some 1)) = []"
    by (simp_all only: cockpit_channel_throttle_def) simp_all
  moreover have "control_sig (cockpit_channel_throttle flow_channel_new (Some 1))" "pressure (cockpit_channel_throttle flow_channel_new (Some 1)) \<noteq> None"
    "throttled (cockpit_channel_throttle flow_channel_new (Some 1)) = None"
    by (simp_all add: cockpit_channel_throttle_def flow_channel_new_def channel_new_def cockpit_channel_constructed_def cockpit_channel_init_def)
  ultimately show ?thesis
    using channel_pings_answered [of "cockpit_channel_throttle flow_channel_new (Some 1)" no_doubles
        "[Throttle True, Ping [], Ping [(asc ''x'', JNull)], Throttle False]"]
    by (simp only: append_Nil) (simp add: pings_def)
qed

end
