(* ===== verification/ChannelOpen.thy ===== *)
theory ChannelOpen
  imports ChannelText
begin

text \<open>
  The opening of a channel together with its transport: what arrives for the channel before it is ready is kept by the transport and handed to the class
  when the channel is.
\<close>

section \<open>Frozen payloads\<close>

definition only_payloads :: "nat \<Rightarrow> FrozenMessage list \<Rightarrow> bool" where
  "only_payloads k fms \<longleftrightarrow> (\<forall>fm\<in>set fms. fm_channel fm = k \<longrightarrow> fm_control fm = None)"

lemma thaw_loop_events:
  assumes "freeze t c = None" "only_payloads k fms"
  shows "snd (thaw_loop te t c k kept fms) = map (Recv (Some c)) (payloads k fms)"
  using assms(2)
proof (induction fms arbitrary: kept)
  case (Cons fm fms)
  then have "only_payloads k fms" by (simp add: only_payloads_def)
  note IH = Cons.IH [OF this]
  show ?case
  proof (cases "fm_channel fm = k")
    case True
    then have "fm_control fm = None" using Cons.prems by (simp add: only_payloads_def)
    then show ?thesis using True IH [of kept] assms(1) by (simp add: emit_recv_unfrozen case_prod_beta)
  next
    case False
    then show ?thesis using IH [of "kept @ [fm]"] by simp
  qed
qed simp

text \<open>Messages that arrive while the channel is frozen.\<close>

lemma arrivals_frozen:
  assumes "freeze t c = Some k" "only_payloads k (frozen t)" "\<And>c'. c' \<noteq> c \<Longrightarrow> freeze t c' \<noteq> Some k"
  shows "freeze (fst (transport_run te t (map (\<lambda>(c', d). Arrive c' d) msgs))) = freeze t \<and>
    only_payloads k (frozen (fst (transport_run te t (map (\<lambda>(c', d). Arrive c' d) msgs)))) \<and>
    payloads k (frozen (fst (transport_run te t (map (\<lambda>(c', d). Arrive c' d) msgs)))) =
      payloads k (frozen t) @ map snd (filter (\<lambda>(c', d). c' = c) msgs)"
  using assms
proof (induction msgs arbitrary: t)
  case (Cons msg msgs)
  obtain c' d where msg: "msg = (c', d)" by fastforce
  let ?t = "fst (transport_op_step te t (Arrive c' d))"
  have t: "freeze ?t = freeze t \<and> only_payloads k (frozen ?t) \<and>
      payloads k (frozen ?t) = payloads k (frozen t) @ (if c' = c then [d] else [])"
  proof (cases "freeze t c'")
    case None
    then show ?thesis using Cons.prems by (auto simp: transport_op_step_def emit_recv_unfrozen)
  next
    case (Some k')
    moreover have "k' = k \<longleftrightarrow> c' = c" using Some Cons.prems(1) Cons.prems(3) [of c'] by auto
    ultimately show ?thesis
      using Cons.prems(2) by (auto simp: transport_op_step_def emit_recv_frozen only_payloads_def)
  qed
  then show ?case
    using Cons.IH [of ?t] Cons.prems msg by (simp add: case_prod_beta)
qed simp

section \<open>Readiness\<close>

lemma deliver_payloads:
  assumes "recv_sig self" "\<not> received_done self"
  shows "fold (deliver e) (map (Recv (Some (chan_id self))) ds) self = self\<lparr>chan_log := chan_log self @ map Class_recv ds\<rparr>"
  using assms
proof (induction ds arbitrary: self)
  case (Cons d ds)
  then show ?case
    using Cons.IH [of "self\<lparr>chan_log := chan_log self @ [Class_recv d]\<rparr>"]
    by (simp add: deliver_def on_transport_recv_def process_recv_def emit_def)
qed simp

text \<open>C10: The messages that arrive for a channel between its construction and its readiness are handed to its class when it becomes ready, all of them and
  in the order they came in, before the message \<^verbatim>\<open>ready\<close> goes out; messages for other channels do not mix with them.\<close>

theorem channel_ready_delivers:
  assumes "transport_ok t" "freeze t c = None"
    and "cockpit_channel_constructed t (cockpit_channel_init c options d) = (t1, self)"
    and "t2 = fst (transport_run te t1 (map (\<lambda>(c', payload). Arrive c' payload) msgs))"
  shows "chan_log (snd (cockpit_channel_ready e te t2 self message)) =
    map Class_recv (map snd (filter (\<lambda>(c', payload). c' = c) msgs)) @ chan_log (control_message e self (asc ''ready'') message)"
proof -
  let ?k = "next_key t"
  have t1: "t1 = cockpit_transport_freeze t c" and self: "chan_id self = c" "recv_sig self" "\<not> received_done self" "chan_log self = []"
    using assms(3) by (auto simp: cockpit_channel_constructed_def cockpit_channel_init_def)
  have fresh: "payloads ?k (frozen t1) = []" "only_payloads ?k (frozen t1)" "freeze t1 c = Some ?k"
    using assms(1) payloads_fresh [of "frozen t" ?k] by (auto simp: t1 cockpit_transport_freeze_def transport_ok_def only_payloads_def)
  have "freeze t1 c' \<noteq> Some ?k" if "c' \<noteq> c" for c'
    using assms(1) that by (auto simp: t1 cockpit_transport_freeze_def transport_ok_def)
  note frozen = arrivals_frozen [OF fresh(3,2) this, of te msgs]
  then have evs: "snd (cockpit_transport_thaw te t2 c) = map (Recv (Some c)) (map snd (filter (\<lambda>(c', payload). c' = c) msgs))"
    using fresh by (simp add: cockpit_transport_thaw_def assms(4) thaw_loop_events)
  let ?ds = "map snd (filter (\<lambda>(c', payload). c' = c) msgs)"
  have "snd (cockpit_channel_ready e te t2 self message) =
      cockpit_channel_control e (self\<lparr>chan_log := map Class_recv ?ds\<rparr>) (asc ''ready'') message"
    using evs deliver_payloads [OF self(2,3), of e ?ds]
    by (cases "cockpit_transport_thaw te t2 c") (simp add: cockpit_channel_ready_def self channel_thawed_def)
  then show ?thesis by (simp add: self cockpit_channel_control_def control_message_def asc_def)
qed

theorem channel_ready_delivers_witness:
  "chan_log (snd (cockpit_channel_ready no_doubles
      \<lparr>load = (\<lambda>_. None), dtostr = (\<lambda>_. []), on_recv = (\<lambda>_ _. True), on_control = (\<lambda>_ _ _. True)\<rparr>
      (fst (transport_run \<lparr>load = (\<lambda>_. None), dtostr = (\<lambda>_. []), on_recv = (\<lambda>_ _. True), on_control = (\<lambda>_ _ _. True)\<rparr>
        (fst (cockpit_channel_constructed transport_init (cockpit_channel_init (asc ''4'') [] True)))
        (map (\<lambda>(c', payload). Arrive c' payload) [(asc ''4'', [1]), (asc ''5'', [2]), (asc ''4'', [3])])))
      (snd (cockpit_channel_constructed transport_init (cockpit_channel_init (asc ''4'') [] True))) None)) =
   [Class_recv [1], Class_recv [3]] @
   chan_log (control_message no_doubles (snd (cockpit_channel_constructed transport_init (cockpit_channel_init (asc ''4'') [] True))) (asc ''ready'') None)"
  by (subst channel_ready_delivers [OF _ _ prod.collapse [symmetric] refl, where c = "asc ''4''" and msgs = "[(asc ''4'', [1]), (asc ''5'', [2]), (asc ''4'', [3])]"])
     (simp_all add: transport_init_def transport_ok_def asc_def)

end
