(* ===== verification/Pipe.thy ===== *)
theory Pipe
  imports Posix Unicode
begin

text \<open>
  \<^verbatim>\<open>src/common/cockpitpipe.c\<close>: a pipe with queued input and output, over file descriptors and perhaps a child process.

  The record holds the private fields and a log of what the pipe did: bytes it wrote, signals it emitted, processes it killed.  A failed assertion is
  logged.  Each callback takes the results of the system calls it makes.  A source of the main loop is more than a pointer: the loop destroys it when
  its callback returns \<^verbatim>\<open>FALSE\<close>, and the pointer to it stays.
\<close>

section \<open>State\<close>

datatype source = No_source | Attached | Destroyed

datatype pipe_event =
    Wrote_bytes bytes
  | Queued bytes
  | Signal_read bytes bool
  | Signal_close "bytes option"
  | Flow_pressure bool
  | Killed_child
  | Logged_error bytes
  | Pipe_critical
  | Assertion_failed

record CockpitPipe =
  closed :: bool
  closing :: bool
  connecting :: bool
  problem :: "bytes option"
  pid :: nat
  child :: bool
  exited :: bool
  status :: int
  is_process :: bool
  out_fd :: int
  out_done :: bool
  out_source :: source
  out_queue :: "bytes list"
  out_queued :: nat
  out_partial :: nat
  in_fd :: int
  in_done :: bool
  in_source :: source
  in_buffer :: bytes
  err_fd :: int
  err_done :: bool
  err_source :: source
  err_buffer :: "bytes option"
  err_forward_to_log :: bool
  is_user_fd :: bool
  throttled_by :: "nat option"
  pipe_log :: "pipe_event list"

definition DEF_PACKET_SIZE :: nat where
  "DEF_PACKET_SIZE = 64 * 1024"

definition QUEUE_PRESSURE :: nat where
  "QUEUE_PRESSURE = 1024 * 1024"

definition note_event :: "pipe_event \<Rightarrow> CockpitPipe \<Rightarrow> CockpitPipe" where
  "note_event ev self = self\<lparr>pipe_log := pipe_log self @ [ev]\<rparr>"

definition pipe_assert :: "bool \<Rightarrow> CockpitPipe \<Rightarrow> CockpitPipe" where
  "pipe_assert b self = (if b then self else note_event Assertion_failed self)"

definition cockpit_pipe_init :: CockpitPipe where
  "cockpit_pipe_init =
     \<lparr>closed = False, closing = False, connecting = False, problem = None, pid = 0, child = False, exited = False, status = - 1,
      is_process = False, out_fd = - 1, out_done = False, out_source = No_source, out_queue = [], out_queued = 0, out_partial = 0,
      in_fd = - 1, in_done = False, in_source = No_source, in_buffer = [], err_fd = - 1, err_done = False, err_source = No_source,
      err_buffer = None, err_forward_to_log = False, is_user_fd = False, throttled_by = None, pipe_log = []\<rparr>"

definition stop_output :: "CockpitPipe \<Rightarrow> CockpitPipe" where
  "stop_output self = (pipe_assert (out_source self \<noteq> No_source) self)\<lparr>out_source := No_source\<rparr>"

definition stop_input :: "CockpitPipe \<Rightarrow> CockpitPipe" where
  "stop_input self = (pipe_assert (in_source self \<noteq> No_source) self)\<lparr>in_source := No_source\<rparr>"

definition stop_error :: "CockpitPipe \<Rightarrow> CockpitPipe" where
  "stop_error self = (pipe_assert (err_source self \<noteq> No_source) self)\<lparr>err_source := No_source\<rparr>"

definition start_output :: "CockpitPipe \<Rightarrow> CockpitPipe" where
  "start_output self = (pipe_assert (out_source self = No_source) self)\<lparr>out_source := Attached\<rparr>"

definition start_input :: "CockpitPipe \<Rightarrow> CockpitPipe" where
  "start_input self = (pipe_assert (in_source self = No_source) self)\<lparr>in_source := Attached\<rparr>"

section \<open>Closing\<close>

definition close_immediately :: "CockpitPipe \<Rightarrow> bytes option \<Rightarrow> CockpitPipe" where
  "close_immediately self prob =
     (if closed self then self
      else
        let self = (if prob \<noteq> None then self\<lparr>problem := prob\<rparr> else self);
            self = self\<lparr>closed := True\<rparr>;
            self = (if in_source self \<noteq> No_source then stop_input self else self);
            self = self\<lparr>in_done := True\<rparr>;
            self = (if out_source self \<noteq> No_source then stop_output self else self);
            self = self\<lparr>out_done := True\<rparr>;
            self = (if err_source self \<noteq> No_source then stop_error self else self);
            self = self\<lparr>err_done := True, in_fd := - 1, out_fd := - 1, err_fd := - 1\<rparr>;
            self = (if prob \<noteq> None \<and> pid self \<noteq> 0 \<and> \<not> exited self then note_event Killed_child self else self)
        in if \<not> child self then note_event (Signal_close (problem self)) self else self)"

definition close_maybe :: "CockpitPipe \<Rightarrow> CockpitPipe" where
  "close_maybe self =
     (if \<not> closed self \<and> in_done self \<and> out_done self \<and> err_done self then close_immediately self None else self)"

text \<open>\<open>shut\<close> is the error of \<^verbatim>\<open>shutdown\<close>, if it is called.\<close>

definition close_output :: "CockpitPipe \<Rightarrow> errno \<Rightarrow> CockpitPipe" where
  "close_output self shut =
     (let self = self\<lparr>out_done := True\<rparr>;
          self =
            (if out_fd self \<noteq> - 1 \<and> shut \<noteq> E_none then
               (if shut = ENOTSOCK then
                  let self =
                        (if in_fd self = out_fd self then
                           let self = self\<lparr>in_done := True, in_fd := - 1\<rparr>
                           in if in_source self \<noteq> No_source then stop_input self else self
                         else self)
                  in self\<lparr>out_fd := - 1\<rparr>
                else close_immediately self (Some (asc ''internal-error'')))
             else self)
      in close_maybe self)"

definition on_child_reap :: "CockpitPipe \<Rightarrow> int \<Rightarrow> errno \<Rightarrow> CockpitPipe" where
  "on_child_reap self st shut =
     (let self = self\<lparr>status := st, exited := True, child := False\<rparr>
      in if \<not> out_done self then close_output self shut
         else if closed self then note_event (Signal_close (problem self)) self
         else self)"

definition set_problem_from_errno :: "CockpitPipe \<Rightarrow> errno \<Rightarrow> CockpitPipe" where
  "set_problem_from_errno self errn =
     (let prob = (if errn = EPERM \<or> errn = EACCES then Some (asc ''access-denied'')
                  else if errn = ENOENT \<or> errn = ECONNREFUSED then Some (asc ''not-found'')
                  else if errn = EBADF \<and> is_user_fd self then Some (asc ''protocol-error'')
                  else None)
      in self\<lparr>problem := (case prob of Some p \<Rightarrow> Some p | None \<Rightarrow> Some (asc ''internal-error''))\<rparr>)"

section \<open>Input\<close>

text \<open>\<open>on_read\<close> is what the handlers of the signal leave of the buffer.  The second component is what the callback returns.\<close>

definition input_read :: "(bytes \<Rightarrow> bool \<Rightarrow> bytes) \<Rightarrow> CockpitPipe \<Rightarrow> bytes \<Rightarrow> CockpitPipe" where
  "input_read on_read self data =
     (let self = self\<lparr>in_buffer := in_buffer self @ data\<rparr>;
          self = (if data = [] then stop_input (self\<lparr>in_done := True\<rparr>) else self);
          self = note_event (Signal_read (in_buffer self) (in_done self)) self;
          self = self\<lparr>in_buffer := on_read (in_buffer self) (in_done self)\<rparr>
      in if in_done self then close_maybe self else self)"

definition dispatch_input ::
    "(bytes \<Rightarrow> bool \<Rightarrow> bytes) \<Rightarrow> CockpitPipe \<Rightarrow> bool \<Rightarrow> read_outcome \<Rightarrow> CockpitPipe \<times> bool" where
  "dispatch_input on_read self only_hup outcome =
     (if in_source self = No_source then (note_event Pipe_critical self, False)
      else if only_hup then (input_read on_read self [], True)
      else
        case outcome of
          Read_data data \<Rightarrow> (input_read on_read self (take DEF_PACKET_SIZE data), True)
        | Read_eof \<Rightarrow> (input_read on_read self [], True)
        | Read_error errn \<Rightarrow>
            if retry_errno errn then (self, True)
            else if errn = ECONNRESET then (input_read on_read self [], True)
            else (close_immediately (set_problem_from_errno self errn) None, False))"

section \<open>Error output\<close>

definition err_bytes :: "CockpitPipe \<Rightarrow> bytes" where
  "err_bytes self = (case err_buffer self of None \<Rightarrow> [] | Some b \<Rightarrow> b)"

definition forward_error :: "CockpitPipe \<Rightarrow> CockpitPipe" where
  "forward_error self =
     (if err_bytes self \<noteq> [] then (note_event (Logged_error (err_bytes self)) self)\<lparr>err_buffer := Some []\<rparr> else self)"

definition error_read :: "CockpitPipe \<Rightarrow> bytes \<Rightarrow> CockpitPipe" where
  "error_read self data =
     (let self = self\<lparr>err_buffer := Some (err_bytes self @ data)\<rparr>;
          self = (if err_forward_to_log self then forward_error self else self);
          self = (if data = [] then stop_error (self\<lparr>err_done := True\<rparr>) else self)
      in if err_done self then close_maybe self else self)"

definition dispatch_error :: "CockpitPipe \<Rightarrow> bool \<Rightarrow> read_outcome \<Rightarrow> CockpitPipe \<times> bool" where
  "dispatch_error self only_hup outcome =
     (if err_source self = No_source then (note_event Pipe_critical self, False)
      else if only_hup then (error_read self [], True)
      else
        case outcome of
          Read_data data \<Rightarrow> (error_read self (take 1024 data), True)
        | Read_eof \<Rightarrow> (error_read self [], True)
        | Read_error errn \<Rightarrow>
            if \<not> retry_errno errn then (close_immediately self (Some (asc ''internal-error'')), False)
            else ((if err_forward_to_log self then forward_error self else self), True))"

text \<open>The loop reads as long as \<^verbatim>\<open>poll\<close> says that there is something: one result of \<^verbatim>\<open>read\<close> for each time.\<close>

fun drain_error :: "CockpitPipe \<Rightarrow> read_outcome list \<Rightarrow> CockpitPipe" where
  "drain_error self [] = self"
| "drain_error self (r # rs) =
     (if err_source self \<noteq> No_source then drain_error (fst (dispatch_error self False r)) rs else self)"

definition cockpit_pipe_take_stderr_as_utf8 :: "CockpitPipe \<Rightarrow> read_outcome list \<Rightarrow> CockpitPipe \<times> bytes option" where
  "cockpit_pipe_take_stderr_as_utf8 self rs =
     (let self = drain_error self rs in
      case err_buffer self of
        None \<Rightarrow> (self, None)
      | Some buf \<Rightarrow>
          let data = cockpit_unicode_force_utf8 (buf @ [120]) in
          (pipe_assert (length data > 0) (self\<lparr>err_buffer := Some []\<rparr>), Some (data[length data - 1 := 0])))"

definition cockpit_pipe_stop_stderr_capture :: "CockpitPipe \<Rightarrow> CockpitPipe" where
  "cockpit_pipe_stop_stderr_capture self =
     (if err_buffer self \<noteq> None then forward_error (self\<lparr>err_forward_to_log := True\<rparr>) else self)"

section \<open>Output\<close>

text \<open>\<^verbatim>\<open>getsockopt\<close> with \<^verbatim>\<open>SO_ERROR\<close>: \<open>None\<close> if the call fails.\<close>

definition dispatch_connect :: "CockpitPipe \<Rightarrow> errno option \<Rightarrow> CockpitPipe \<times> bool" where
  "dispatch_connect self result =
     (let self = self\<lparr>connecting := False\<rparr> in
      case result of
        None \<Rightarrow> (close_immediately self (Some (asc ''internal-error'')), False)
      | Some error \<Rightarrow>
          if error = EINPROGRESS then (self\<lparr>connecting := True\<rparr>, False)
          else if error \<noteq> E_none then (close_immediately (set_problem_from_errno self error) None, False)
          else (self, True))"

text \<open>The first four blocks of the queue, without the part of the first one that was written.\<close>

definition output_iov :: "CockpitPipe \<Rightarrow> bytes list" where
  "output_iov self =
     (case take 4 (out_queue self) of [] \<Rightarrow> [] | b # bs \<Rightarrow> drop (out_partial self) b # bs)"

definition iov_assert :: "CockpitPipe \<Rightarrow> bool" where
  "iov_assert self \<longleftrightarrow>
     (case out_queue self of [] \<Rightarrow> True | b # bs \<Rightarrow> out_partial self \<noteq> 0 \<longrightarrow> out_partial self < length b)"

fun written_loop :: "CockpitPipe \<Rightarrow> nat \<Rightarrow> bytes list \<Rightarrow> CockpitPipe" where
  "written_loop self ret [] = self"
| "written_loop self ret (v # iov) =
     (if ret = 0 then self
      else if ret \<ge> length v then
        (case out_queue self of
           [] \<Rightarrow> note_event Assertion_failed self
         | popped # queue \<Rightarrow>
             let self = pipe_assert (length popped \<le> out_queued self) self in
             written_loop
               (self\<lparr>out_queue := queue, out_queued := out_queued self - length popped, out_partial := 0\<rparr>)
               (ret - length v) iov)
      else self\<lparr>out_partial := out_partial self + ret\<rparr>)"

definition output_written :: "CockpitPipe \<Rightarrow> nat \<Rightarrow> errno \<Rightarrow> CockpitPipe" where
  "output_written self ret shut =
     (let before = out_queued self;
          self = written_loop self ret (output_iov self);
          self = (if before \<ge> QUEUE_PRESSURE \<and> out_queued self < QUEUE_PRESSURE
                  then note_event (Flow_pressure False) self else self)
      in if out_queue self \<noteq> [] then self
         else
           let self = stop_output self
           in if closing self then close_output self shut else close_maybe self)"

definition dispatch_output :: "CockpitPipe \<Rightarrow> errno option \<Rightarrow> write_outcome \<Rightarrow> errno \<Rightarrow> CockpitPipe \<times> bool" where
  "dispatch_output self conn outcome shut =
     (case (if connecting self then dispatch_connect self conn else (self, True)) of
        (self, False) \<Rightarrow> (self, True)
      | (self, True) \<Rightarrow>
          if out_source self = No_source then (note_event Pipe_critical self, False)
          else
            let self = pipe_assert (iov_assert self) self in
            if output_iov self = [] then (output_written self 0 shut, True)
            else
              case outcome of
                Wrote n \<Rightarrow>
                  (output_written (note_event (Wrote_bytes (take n (concat (output_iov self)))) self) n shut, True)
              | Write_error errn \<Rightarrow>
                  if \<not> retry_errno errn then
                    (if errn = EPIPE then (close_immediately self (Some (asc ''terminated'')), False)
                     else (close_immediately (set_problem_from_errno self errn) None, False))
                  else (self, False))"

definition cockpit_pipe_write :: "CockpitPipe \<Rightarrow> bytes \<Rightarrow> CockpitPipe" where
  "cockpit_pipe_write self data =
     (if closed self \<and> child self \<and> pid self \<noteq> 0 then self
      else if closed self then note_event Pipe_critical self
      else if length data = 0 then self
      else if \<not> (2 ^ 64 - 1 - length data > out_queued self) then note_event Pipe_critical self
      else
        let before = out_queued self;
            self = note_event (Queued data) (self\<lparr>out_queued := out_queued self + length data, out_queue := out_queue self @ [data]\<rparr>);
            self = (if before < QUEUE_PRESSURE \<and> out_queued self \<ge> QUEUE_PRESSURE then note_event (Flow_pressure True) self else self)
        in if out_source self = No_source \<and> out_fd self \<ge> 0 then start_output self else self)"

definition cockpit_pipe_close :: "CockpitPipe \<Rightarrow> bytes option \<Rightarrow> errno \<Rightarrow> CockpitPipe" where
  "cockpit_pipe_close self prob shut =
     (let self = self\<lparr>closing := True\<rparr>
      in if prob \<noteq> None then close_immediately self prob
         else if out_queue self = [] then close_output self shut
         else self)"

definition on_later_close :: "CockpitPipe \<Rightarrow> CockpitPipe" where
  "on_later_close self = close_immediately self None"

section \<open>Throttling, construction and disposal\<close>

definition on_throttle_pressure :: "CockpitPipe \<Rightarrow> bool \<Rightarrow> CockpitPipe" where
  "on_throttle_pressure self throttle =
     (if throttle then (if in_source self \<noteq> No_source then stop_input self else self)
      else if in_source self = No_source \<and> \<not> in_done self then start_input self else self)"

definition cockpit_pipe_throttle :: "CockpitPipe \<Rightarrow> nat option \<Rightarrow> CockpitPipe" where
  "cockpit_pipe_throttle self controlling = self\<lparr>throttled_by := controlling\<rparr>"

definition cockpit_pipe_constructed :: "CockpitPipe \<Rightarrow> CockpitPipe" where
  "cockpit_pipe_constructed self =
     (let self = (if in_fd self \<ge> 0 then start_input self else self\<lparr>in_done := True\<rparr>);
          self = (if out_fd self \<ge> 0 then start_output self else self\<lparr>out_done := True\<rparr>);
          self = (if err_fd self \<ge> 0 then self\<lparr>err_buffer := Some [], err_source := Attached\<rparr> else self\<lparr>err_done := True\<rparr>)
      in if pid self \<noteq> 0 then self\<lparr>is_process := True, child := True\<rparr> else self)"

definition cockpit_pipe_new :: "int \<Rightarrow> int \<Rightarrow> CockpitPipe" where
  "cockpit_pipe_new infd outfd = cockpit_pipe_constructed (cockpit_pipe_init\<lparr>in_fd := infd, out_fd := outfd\<rparr>)"

definition cockpit_pipe_new_user_fd :: "int \<Rightarrow> CockpitPipe" where
  "cockpit_pipe_new_user_fd fd = (cockpit_pipe_constructed (cockpit_pipe_init\<lparr>in_fd := fd, out_fd := fd\<rparr>))\<lparr>is_user_fd := True\<rparr>"

definition cockpit_pipe_dispose :: "CockpitPipe \<Rightarrow> CockpitPipe" where
  "cockpit_pipe_dispose self =
     (let self = (if pid self \<noteq> 0 \<and> \<not> exited self then note_event Killed_child self else self);
          self = (if \<not> closed self then close_immediately self (Some (asc ''terminated'')) else self);
          self = cockpit_pipe_throttle self None
      in self\<lparr>out_queue := [], out_queued := 0\<rparr>)"

section \<open>Buffers\<close>

text \<open>\<^verbatim>\<open>GBytes\<close> are made of a range of the buffer; a range outside of it is \<open>None\<close>.\<close>

definition cockpit_pipe_consume :: "bytes \<Rightarrow> nat \<Rightarrow> nat \<Rightarrow> nat \<Rightarrow> (bytes \<times> bytes) option" where
  "cockpit_pipe_consume buffer before len after =
     (if length buffer = before + len + after then Some (take len (drop before buffer), [])
      else if before + len + after \<le> length buffer then Some (take len (drop before buffer), drop (before + len + after) buffer)
      else None)"

definition cockpit_pipe_skip :: "bytes \<Rightarrow> nat \<Rightarrow> bytes option" where
  "cockpit_pipe_skip buffer skip = (if skip \<le> length buffer then Some (drop skip buffer) else None)"

section \<open>The environment of a process\<close>

definition environ_find :: "bytes list \<Rightarrow> bytes \<Rightarrow> nat option" where
  "environ_find env variable =
     (let name = takeWhile (\<lambda>b. b \<noteq> 61) variable in
      let hits = filter (\<lambda>x. starts_with (env ! x) (name @ [61])) [0..<length env]
      in case hits of [] \<Rightarrow> None | x # _ \<Rightarrow> Some x)"

fun environ_merge :: "bytes list \<Rightarrow> bytes list \<Rightarrow> bytes list" where
  "environ_merge env [] = env"
| "environ_merge env (v # input) =
     environ_merge (case environ_find env v of Some x \<Rightarrow> env[x := v] | None \<Rightarrow> env @ [v]) input"

text \<open>\<^verbatim>\<open>g_environ_setenv\<close> replaces the first entry of the variable, or adds one.\<close>

definition cockpit_pipe_get_environ :: "bytes list \<Rightarrow> bytes list \<Rightarrow> bytes option \<Rightarrow> bytes list" where
  "cockpit_pipe_get_environ env input directory =
     (let had_pwd = list_ex (\<lambda>v. starts_with v (asc ''PWD='')) input;
          env = environ_merge env input
      in case directory of
           Some dir \<Rightarrow> if had_pwd then env else environ_merge env [asc ''PWD='' @ dir]
         | None \<Rightarrow> env)"

end
