(* ===== verification/PipeSafety.thy ===== *)
theory PipeSafety
  imports Pipe
begin

text \<open>
  What every sequence of calls and callbacks keeps of a pipe: what was queued is written in order or still queued, the counters are exact, the pressure
  signals agree with them, no assertion fails, and the pipe closes once.
\<close>

section \<open>Runs\<close>

datatype pipe_call =
    Do_write bytes
  | Do_close "bytes option" errno
  | Input bool read_outcome
  | Output "errno option" write_outcome errno
  | Error_input bool read_outcome
  | Reap int errno
  | Pressure_signal bool
  | Later_close
  | Take_stderr "read_outcome list"
  | Stop_capture

text \<open>A callback runs while its source is attached; one that returns \<^verbatim>\<open>FALSE\<close> has its source destroyed.  \<^verbatim>\<open>writev\<close> takes at most what it is offered.\<close>

definition offered :: "CockpitPipe \<Rightarrow> nat" where
  "offered self = length (concat (output_iov self))"

definition kernel_takes :: "CockpitPipe \<Rightarrow> write_outcome \<Rightarrow> write_outcome" where
  "kernel_takes self outcome = (case outcome of Wrote n \<Rightarrow> Wrote (min n (offered self)) | Write_error errn \<Rightarrow> Write_error errn)"

fun pipe_step :: "(bytes \<Rightarrow> bool \<Rightarrow> bytes) \<Rightarrow> CockpitPipe \<Rightarrow> pipe_call \<Rightarrow> CockpitPipe" where
  "pipe_step on_read self (Do_write data) = cockpit_pipe_write self data"
| "pipe_step on_read self (Do_close prob shut) = cockpit_pipe_close self prob shut"
| "pipe_step on_read self (Input only_hup outcome) =
     (if in_source self \<noteq> Attached then self
      else case dispatch_input on_read self only_hup outcome of (self, keep) \<Rightarrow>
             if \<not> keep \<and> in_source self = Attached then self\<lparr>in_source := Destroyed\<rparr> else self)"
| "pipe_step on_read self (Output conn outcome shut) =
     (if out_source self \<noteq> Attached then self
      else case dispatch_output self conn (kernel_takes self outcome) shut of (self, keep) \<Rightarrow>
             if \<not> keep \<and> out_source self = Attached then self\<lparr>out_source := Destroyed\<rparr> else self)"
| "pipe_step on_read self (Error_input only_hup outcome) =
     (if err_source self \<noteq> Attached then self
      else case dispatch_error self only_hup outcome of (self, keep) \<Rightarrow>
             if \<not> keep \<and> err_source self = Attached then self\<lparr>err_source := Destroyed\<rparr> else self)"
| "pipe_step on_read self (Reap st shut) = (if child self then on_child_reap self st shut else self)"
| "pipe_step on_read self (Pressure_signal b) = (if throttled_by self \<noteq> None then on_throttle_pressure self b else self)"
| "pipe_step on_read self Later_close = on_later_close self"
| "pipe_step on_read self (Take_stderr rs) = fst (cockpit_pipe_take_stderr_as_utf8 self rs)"
| "pipe_step on_read self Stop_capture = cockpit_pipe_stop_stderr_capture self"

definition pipe_run :: "(bytes \<Rightarrow> bool \<Rightarrow> bytes) \<Rightarrow> CockpitPipe \<Rightarrow> pipe_call list \<Rightarrow> CockpitPipe" where
  "pipe_run on_read self calls = foldl (pipe_step on_read) self calls"

section \<open>The log\<close>

definition queued_bytes :: "pipe_event list \<Rightarrow> bytes" where
  "queued_bytes evs = concat (map (\<lambda>ev. case ev of Queued d \<Rightarrow> d | _ \<Rightarrow> []) evs)"

definition written_bytes :: "pipe_event list \<Rightarrow> bytes" where
  "written_bytes evs = concat (map (\<lambda>ev. case ev of Wrote_bytes d \<Rightarrow> d | _ \<Rightarrow> []) evs)"

fun flow_pressed :: "bool \<Rightarrow> pipe_event list \<Rightarrow> bool" where
  "flow_pressed u [] = u"
| "flow_pressed u (ev # evs) = flow_pressed (case ev of Flow_pressure b \<Rightarrow> b | _ \<Rightarrow> u) evs"

definition close_signals :: "pipe_event list \<Rightarrow> nat" where
  "close_signals evs = length (filter (\<lambda>ev. case ev of Signal_close p \<Rightarrow> True | _ \<Rightarrow> False) evs)"

lemma log_simps [simp]:
  "queued_bytes [] = []" "queued_bytes (xs @ ys) = queued_bytes xs @ queued_bytes ys"
  "queued_bytes (ev # xs) = (case ev of Queued d \<Rightarrow> d | _ \<Rightarrow> []) @ queued_bytes xs"
  "written_bytes [] = []" "written_bytes (xs @ ys) = written_bytes xs @ written_bytes ys"
  "written_bytes (ev # xs) = (case ev of Wrote_bytes d \<Rightarrow> d | _ \<Rightarrow> []) @ written_bytes xs"
  "close_signals [] = 0" "close_signals (xs @ ys) = close_signals xs + close_signals ys"
  "close_signals (ev # xs) = (case ev of Signal_close p \<Rightarrow> 1 | _ \<Rightarrow> 0) + close_signals xs"
  by (simp_all add: queued_bytes_def written_bytes_def close_signals_def split: pipe_event.split)

lemma flow_pressed_append [simp]: "flow_pressed u (xs @ ys) = flow_pressed (flow_pressed u xs) ys"
  by (induction u xs rule: flow_pressed.induct) auto

text \<open>Events that none of these look at.\<close>

definition neutral :: "pipe_event list \<Rightarrow> bool" where
  "neutral evs \<longleftrightarrow> queued_bytes evs = [] \<and> written_bytes evs = [] \<and> (\<forall>u. flow_pressed u evs = u) \<and>
     Assertion_failed \<notin> set evs"

lemma neutral_simps [simp]:
  "neutral []" "neutral [Signal_read b c]" "neutral [Killed_child]" "neutral [Logged_error b]" "neutral [Pipe_critical]"
  "neutral [Signal_close p]" "neutral xs \<Longrightarrow> neutral ys \<Longrightarrow> neutral (xs @ ys)"
  by (simp_all add: neutral_def)

section \<open>The invariant\<close>

definition partial_ok :: "bytes list \<Rightarrow> nat \<Rightarrow> bool" where
  "partial_ok queue n \<longleftrightarrow> (case queue of [] \<Rightarrow> n = 0 | b # bs \<Rightarrow> n < length b)"

definition queue_ok :: "CockpitPipe \<Rightarrow> bool" where
  "queue_ok self \<longleftrightarrow>
     out_queued self = length (concat (out_queue self)) \<and> [] \<notin> set (out_queue self) \<and>
     partial_ok (out_queue self) (out_partial self) \<and>
     queued_bytes (pipe_log self) = written_bytes (pipe_log self) @ drop (out_partial self) (concat (out_queue self)) \<and>
     flow_pressed False (pipe_log self) = (out_queued self \<ge> QUEUE_PRESSURE) \<and> Assertion_failed \<notin> set (pipe_log self)"

definition close_ok :: "CockpitPipe \<Rightarrow> bool" where
  "close_ok self \<longleftrightarrow>
     (closed self \<longrightarrow> in_source self = No_source \<and> out_source self = No_source \<and> err_source self = No_source \<and>
        in_done self \<and> out_done self \<and> err_done self) \<and>
     close_signals (pipe_log self) = of_bool (closed self \<and> \<not> child self)"

definition pipe_inv :: "CockpitPipe \<Rightarrow> bool" where
  "pipe_inv self \<longleftrightarrow> queue_ok self \<and> close_ok self"

lemma queue_ok_cong:
  assumes "queue_ok self" "pipe_log self' = pipe_log self @ evs" "neutral evs"
    and "out_queue self' = out_queue self" "out_queued self' = out_queued self" "out_partial self' = out_partial self"
  shows "queue_ok self'"
  using assms(1,3) unfolding queue_ok_def assms(2,4,5,6) by (auto simp: neutral_def)

lemma close_ok_cong:
  assumes "close_ok self" "pipe_log self' = pipe_log self @ evs" "close_signals evs = 0" "closed self' = closed self" "child self' = child self"
    and "\<not> closed self \<or> in_source self' = in_source self \<and> out_source self' = out_source self \<and> err_source self' = err_source self"
    and "in_done self \<longrightarrow> in_done self'" "out_done self \<longrightarrow> out_done self'" "err_done self \<longrightarrow> err_done self'"
  shows "close_ok self'"
  using assms by (auto simp: close_ok_def)

lemma stop_if:
  "(if in_source self \<noteq> No_source then stop_input self else self) = self\<lparr>in_source := No_source\<rparr>"
  "(if out_source self \<noteq> No_source then stop_output self else self) = self\<lparr>out_source := No_source\<rparr>"
  "(if err_source self \<noteq> No_source then stop_error self else self) = self\<lparr>err_source := No_source\<rparr>"
  by (cases self, simp add: stop_input_def stop_output_def stop_error_def pipe_assert_def)+

lemma close_immediately_result:
  assumes "\<not> closed self"
  shows "close_immediately self prob =
    (let p = (case prob of None \<Rightarrow> problem self | Some x \<Rightarrow> Some x) in
     self\<lparr>closed := True, problem := p, in_source := No_source, in_done := True, out_source := No_source, out_done := True,
       err_source := No_source, err_done := True, in_fd := - 1, out_fd := - 1, err_fd := - 1,
       pipe_log := pipe_log self @ (if prob \<noteq> None \<and> pid self \<noteq> 0 \<and> \<not> exited self then [Killed_child] else []) @
         (if child self then [] else [Signal_close p])\<rparr>)"
  using assms unfolding close_immediately_def stop_if Let_def
  by (cases prob) (simp_all add: note_event_def)

lemma close_immediately_closed [simp]: "closed self \<Longrightarrow> close_immediately self prob = self"
  by (simp add: close_immediately_def)

lemma close_immediately_inv: "pipe_inv self \<Longrightarrow> pipe_inv (close_immediately self prob)"
proof (cases "closed self")
  case False
  assume inv: "pipe_inv self"
  have "queue_ok (close_immediately self prob)"
    using inv unfolding close_immediately_result [OF False] Let_def pipe_inv_def by (elim conjE queue_ok_cong) auto
  moreover have "close_ok (close_immediately self prob)"
    using inv False unfolding close_immediately_result [OF False] by (auto simp: pipe_inv_def close_ok_def Let_def)
  ultimately show ?thesis by (simp add: pipe_inv_def)
qed simp

text \<open>Updates of other fields, and of the sources and flags of an open pipe.\<close>

lemma pipe_inv_cong:
  assumes "pipe_inv self" "pipe_log self' = pipe_log self @ evs" "neutral evs" "close_signals evs = 0"
    and "out_queue self' = out_queue self" "out_queued self' = out_queued self" "out_partial self' = out_partial self"
    and "closed self' = closed self" "child self' = child self"
    and "\<not> closed self \<or> in_source self' = in_source self \<and> out_source self' = out_source self \<and> err_source self' = err_source self"
    and "in_done self \<longrightarrow> in_done self'" "out_done self \<longrightarrow> out_done self'" "err_done self \<longrightarrow> err_done self'"
  shows "pipe_inv self'"
  using assms queue_ok_cong [of self self' evs] close_ok_cong [of self self' evs] by (simp add: pipe_inv_def)

lemma note_inv: "pipe_inv self \<Longrightarrow> neutral [ev] \<Longrightarrow> close_signals [ev] = 0 \<Longrightarrow> pipe_inv (note_event ev self)"
  by (erule pipe_inv_cong [where evs = "[ev]"]) (simp_all add: note_event_def)

lemma problem_inv: "pipe_inv self \<Longrightarrow> pipe_inv (set_problem_from_errno self errn)"
  by (erule pipe_inv_cong [where evs = "[]"]) (simp_all add: set_problem_from_errno_def Let_def)

lemma close_maybe_inv: "pipe_inv self \<Longrightarrow> pipe_inv (close_maybe self)"
  by (simp add: close_maybe_def close_immediately_inv)

lemma closed_sources:
  assumes "pipe_inv self" "in_source self \<noteq> No_source \<or> out_source self \<noteq> No_source \<or> err_source self \<noteq> No_source \<or> \<not> in_done self \<or> \<not> out_done self"
  shows "\<not> closed self"
  using assms by (auto simp: pipe_inv_def close_ok_def)

lemma close_output_inv:
  assumes "pipe_inv self"
  shows "pipe_inv (close_output self shut)"
proof -
  let ?done = "self\<lparr>out_done := True\<rparr>"
  let ?both = "self\<lparr>out_done := True, in_done := True, in_fd := - 1, in_source := No_source, out_fd := - 1\<rparr>"
  have closed: "closed self \<longrightarrow> in_source self = No_source" using assms by (simp add: pipe_inv_def close_ok_def)
  have inv: "pipe_inv ?done" "pipe_inv (?done\<lparr>out_fd := - 1\<rparr>)" "pipe_inv ?both"
    using closed by (auto intro: pipe_inv_cong [OF assms, where evs = "[]"])
  then show ?thesis
    unfolding close_output_def Let_def stop_if
    by (auto intro!: close_maybe_inv close_immediately_inv)
qed

lemma reap_inv:
  assumes "pipe_inv self" "child self"
  shows "pipe_inv (on_child_reap self st shut)"
proof (cases "out_done self")
  case False
  then have "pipe_inv (self\<lparr>status := st, exited := True, child := False\<rparr>)"
    using assms closed_sources [OF assms(1)] by (auto simp: pipe_inv_def close_ok_def intro: queue_ok_cong [where evs = "[]"])
  then show ?thesis using False by (simp add: on_child_reap_def close_output_inv)
next
  case True
  have "queue_ok (on_child_reap self st shut)"
    using assms(1) True
    by (auto simp: on_child_reap_def note_event_def pipe_inv_def Let_def
        intro: queue_ok_cong [where evs = "[Signal_close (problem self)]"] queue_ok_cong [where evs = "[]"])
  moreover have "close_ok (on_child_reap self st shut)"
    using assms True by (auto simp: on_child_reap_def note_event_def pipe_inv_def close_ok_def Let_def)
  ultimately show ?thesis by (simp add: pipe_inv_def)
qed

section \<open>Input\<close>

lemma input_read_inv:
  assumes "pipe_inv self" "in_source self \<noteq> No_source"
  shows "pipe_inv (input_read on_read self data)"
proof -
  have open_pipe: "\<not> closed self" using assms closed_sources by blast
  let ?self = "if data = [] then stop_input (self\<lparr>in_buffer := in_buffer self @ data, in_done := True\<rparr>) else self\<lparr>in_buffer := in_buffer self @ data\<rparr>"
  let ?self' = "(note_event (Signal_read (in_buffer ?self) (in_done ?self)) ?self)\<lparr>in_buffer := on_read (in_buffer ?self) (in_done ?self)\<rparr>"
  have "pipe_inv ?self'"
    by (rule pipe_inv_cong [OF assms(1), where evs = "[Signal_read (in_buffer ?self) (in_done ?self)]"])
       (use assms(2) open_pipe in \<open>auto simp: stop_input_def pipe_assert_def note_event_def\<close>)
  then show ?thesis by (auto simp: input_read_def Let_def note_event_def intro: close_maybe_inv)
qed

lemma dispatch_input_inv: "pipe_inv self \<Longrightarrow> in_source self \<noteq> No_source \<Longrightarrow> pipe_inv (fst (dispatch_input on_read self only_hup outcome))"
  by (auto simp: dispatch_input_def input_read_inv close_immediately_inv problem_inv split: read_outcome.splits)

lemma forward_inv: "pipe_inv self \<Longrightarrow> pipe_inv (forward_error self)"
  by (erule pipe_inv_cong [where evs = "if err_bytes self \<noteq> [] then [Logged_error (err_bytes self)] else []"])
     (simp_all add: forward_error_def note_event_def)

lemma forward_sel [simp]:
  "err_source (forward_error self) = err_source self" "err_done (forward_error self) = err_done self" "closed (forward_error self) = closed self"
  by (simp_all add: forward_error_def note_event_def)

lemma error_read_inv:
  assumes "pipe_inv self" "err_source self \<noteq> No_source"
  shows "pipe_inv (error_read self data)"
proof -
  have open_pipe: "\<not> closed self" using assms closed_sources by blast
  let ?self = "self\<lparr>err_buffer := Some (err_bytes self @ data)\<rparr>"
  let ?fwd = "if err_forward_to_log self then forward_error ?self else ?self"
  have "pipe_inv ?self" by (rule pipe_inv_cong [OF assms(1), where evs = "[]"]) auto
  then have fwd: "pipe_inv ?fwd" by (simp add: forward_inv)
  have "pipe_inv (stop_error (?fwd\<lparr>err_done := True\<rparr>))"
    by (rule pipe_inv_cong [OF fwd, where evs = "[]"]) (use assms(2) open_pipe in \<open>auto simp: stop_error_def pipe_assert_def\<close>)
  then show ?thesis using fwd by (auto simp: error_read_def Let_def intro: close_maybe_inv)
qed

lemma dispatch_error_inv: "pipe_inv self \<Longrightarrow> err_source self \<noteq> No_source \<Longrightarrow> pipe_inv (fst (dispatch_error self only_hup outcome))"
  by (auto simp: dispatch_error_def error_read_inv close_immediately_inv forward_inv split: read_outcome.splits)

lemma drain_error_inv: "pipe_inv self \<Longrightarrow> pipe_inv (drain_error self rs)"
  by (induction self rs rule: drain_error.induct) (auto simp: dispatch_error_inv)

lemma take_stderr_inv: "pipe_inv self \<Longrightarrow> pipe_inv (fst (cockpit_pipe_take_stderr_as_utf8 self rs))"
proof -
  assume "pipe_inv self"
  then have inv: "pipe_inv (drain_error self rs)" by (rule drain_error_inv)
  have "length (cockpit_unicode_force_utf8 (buf @ [120])) > 0" for buf
    by (simp add: cockpit_unicode_force_utf8_def) (simp add: force_loop.simps replacement_char_def)
  then show ?thesis
    using pipe_inv_cong [OF inv, of "drain_error self rs\<lparr>err_buffer := Some []\<rparr>" "[]"] inv
    by (auto simp: cockpit_pipe_take_stderr_as_utf8_def Let_def pipe_assert_def split: option.splits)
qed

section \<open>Output\<close>

lemma queue_update:
  assumes "out_queued self = length (concat (out_queue self))"
  shows "self\<lparr>out_queue := out_queue self, out_queued := length (concat (out_queue self)), out_partial := n\<rparr> = self\<lparr>out_partial := n\<rparr>"
proof -
  have "self\<lparr>out_queue := out_queue self, out_queued := out_queued self, out_partial := n\<rparr> = self\<lparr>out_partial := n\<rparr>" by simp
  then show ?thesis using assms by simp
qed

lemma written_loop_result:
  assumes "iov = (case take k (out_queue self) of [] \<Rightarrow> [] | b # bs \<Rightarrow> drop (out_partial self) b # bs)" "ret \<le> length (concat iov)"
    and "[] \<notin> set (out_queue self)" "partial_ok (out_queue self) (out_partial self)" "out_queued self = length (concat (out_queue self))"
  shows "\<exists>queue part. written_loop self ret iov = self\<lparr>out_queue := queue, out_queued := length (concat queue), out_partial := part\<rparr> \<and>
    drop part (concat queue) = drop (out_partial self + ret) (concat (out_queue self)) \<and> partial_ok queue part \<and> (\<exists>gone. out_queue self = gone @ queue)"
  using assms
proof (induction self ret iov arbitrary: k rule: written_loop.induct)
  case (1 self ret)
  have "self\<lparr>out_queue := out_queue self, out_queued := length (concat (out_queue self)), out_partial := out_partial self\<rparr> = self"
    unfolding queue_update [OF 1(5)] by simp
  then show ?case using 1 by (intro exI [of _ "out_queue self"] exI [of _ "out_partial self"]) simp
next
  case (2 self ret v iov)
  obtain b qs where q: "out_queue self = b # qs" "0 < k" "v = drop (out_partial self) b" "iov = take (k - 1) qs"
    using 2(2) by (cases "out_queue self"; cases k) auto
  have same: "self\<lparr>out_queue := out_queue self, out_queued := length (concat (out_queue self)), out_partial := out_partial self\<rparr> = self"
    unfolding queue_update [OF 2(6)] by simp
  have part: "out_partial self < length b" using 2(5) q(1) by (simp add: partial_ok_def)
  consider (none) "ret = 0" | (whole) "ret \<noteq> 0" "ret \<ge> length v" | (part) "ret \<noteq> 0" "ret < length v" by linarith
  then show ?case
  proof cases
    case none
    have "written_loop self ret (v # iov) =
        self\<lparr>out_queue := out_queue self, out_queued := length (concat (out_queue self)), out_partial := out_partial self\<rparr>"
      unfolding same none by (simp only: written_loop.simps if_True simp_thms)
    moreover have "out_queue self = [] @ out_queue self" by simp
    moreover have "drop (out_partial self) (concat (out_queue self)) = drop (out_partial self + ret) (concat (out_queue self))" by (simp add: none)
    ultimately show ?thesis using 2(5) by (intro exI conjI)
  next
    case whole
    let ?self = "self\<lparr>out_queue := qs, out_queued := out_queued self - length b, out_partial := 0\<rparr>"
    have fits: "length b \<le> out_queued self" using 2(6) q(1) by simp
    have IH: "\<exists>queue part. written_loop ?self (ret - length v) iov = ?self\<lparr>out_queue := queue, out_queued := length (concat queue), out_partial := part\<rparr> \<and>
      drop part (concat queue) = drop (out_partial ?self + (ret - length v)) (concat (out_queue ?self)) \<and> partial_ok queue part \<and> (\<exists>gone. out_queue ?self = gone @ queue)"
    proof -
      have "iov = (case take (k - 1) (out_queue ?self) of [] \<Rightarrow> [] | b # bs \<Rightarrow> drop (out_partial ?self) b # bs)"
        unfolding q(4) by (simp split: list.split)
      moreover have "ret - length v \<le> length (concat iov)" using 2(3) by simp
      moreover have "[] \<notin> set (out_queue ?self)" "partial_ok (out_queue ?self) (out_partial ?self)"
        using 2(4) q(1) by (auto simp: partial_ok_def split: list.split)
      moreover have "out_queued ?self = length (concat (out_queue ?self))" using 2(6) q(1) by simp
      moreover have a: "pipe_assert (length b \<le> out_queued self) self = self" using fits by (simp add: pipe_assert_def)
      ultimately show ?thesis by (intro 2(1) [OF whole q(1) refl, unfolded a, of "k - 1"])
    qed
    have w: "written_loop self ret (v # iov) = written_loop ?self (ret - length v) iov"
      using whole fits by (simp add: q(1) pipe_assert_def)
    have d: "drop (ret - length v) (concat qs) = drop (out_partial self + ret) (concat (out_queue self))"
      using whole(2) part by (simp add: q add.commute)
    obtain queue part gone where r: "written_loop ?self (ret - length v) iov =
        ?self\<lparr>out_queue := queue, out_queued := length (concat queue), out_partial := part\<rparr>"
      "drop part (concat queue) = drop (out_partial ?self + (ret - length v)) (concat (out_queue ?self))" "partial_ok queue part"
      "out_queue ?self = gone @ queue"
      using IH by (elim exE conjE) (rule that)
    have "written_loop self ret (v # iov) = self\<lparr>out_queue := queue, out_queued := length (concat queue), out_partial := part\<rparr>"
      unfolding w r(1) by simp
    moreover have "drop part (concat queue) = drop (out_partial self + ret) (concat (out_queue self))" using r(2) d by simp
    moreover have "out_queue self = (b # gone) @ queue" using r(4) by (simp add: q(1))
    ultimately show ?thesis using r(3) by (intro exI conjI)
  next
    case part
    then show ?thesis
      using 2(4,6) q \<open>out_partial self < length b\<close>
      unfolding queue_update [OF 2(6), symmetric]
      by (intro exI [of _ "out_queue self"] exI [of _ "out_partial self + ret"]) (simp add: partial_ok_def queue_update [OF 2(6)])
  qed
qed

lemma output_iov_queue:
  "output_iov self = (case take 4 (out_queue self) of [] \<Rightarrow> [] | b # bs \<Rightarrow> drop (out_partial self) b # bs)"
  by (simp add: output_iov_def)

lemma output_iov_prefix:
  assumes "partial_ok (out_queue self) (out_partial self)"
  shows "\<exists>rest. drop (out_partial self) (concat (out_queue self)) = concat (output_iov self) @ rest"
proof (cases "out_queue self")
  case (Cons b qs)
  have "concat qs = concat (take 3 qs) @ concat (drop 3 qs)" by (metis append_take_drop_id concat_append)
  moreover have "output_iov self = drop (out_partial self) b # take 3 qs" using Cons by (simp add: output_iov_def)
  ultimately show ?thesis using Cons assms by (simp add: partial_ok_def)
qed (simp add: output_iov_def)

text \<open>A block of bytes that the kernel took: the queue advances by as many.\<close>

lemma output_written_inv:
  assumes inv: "pipe_inv self" and src: "out_source self \<noteq> No_source" and n: "n \<le> offered self"
  shows "pipe_inv (output_written (note_event (Wrote_bytes (take n (concat (output_iov self)))) self) n shut)"
proof -
  let ?ev = "Wrote_bytes (take n (concat (output_iov self)))"
  let ?self = "note_event ?ev self"
  have q: "queue_ok self" "\<not> closed self" using inv src closed_sources [OF inv] by (auto simp: pipe_inv_def)
  have f: "out_queue ?self = out_queue self" "out_partial ?self = out_partial self" "out_queued ?self = out_queued self"
    "output_iov ?self = output_iov self"
    by (simp_all add: note_event_def output_iov_def split: list.split)
  obtain queue part where loop: "written_loop ?self n (output_iov self) =
      ?self\<lparr>out_queue := queue, out_queued := length (concat queue), out_partial := part\<rparr>"
    "drop part (concat queue) = drop (out_partial self + n) (concat (out_queue self))" "partial_ok queue part" "\<exists>gone. out_queue self = gone @ queue"
    using written_loop_result [where iov = "output_iov self" and k = 4 and self = ?self and ret = n] q(1) n unfolding f
    by (auto simp: queue_ok_def offered_def output_iov_queue)
  have le: "length (concat queue) \<le> out_queued self"
    using loop(4) q(1) by (auto simp: queue_ok_def)
  let ?next = "?self\<lparr>out_queue := queue, out_queued := length (concat queue), out_partial := part\<rparr>"
  let ?after = "if out_queued self \<ge> QUEUE_PRESSURE \<and> length (concat queue) < QUEUE_PRESSURE then note_event (Flow_pressure False) ?next else ?next"
  have drop: "drop (out_partial self) (concat (out_queue self)) = take n (concat (output_iov self)) @ drop part (concat queue)"
  proof -
    obtain rest where rest: "drop (out_partial self) (concat (out_queue self)) = concat (output_iov self) @ rest"
      using output_iov_prefix q(1) by (auto simp: queue_ok_def)
    then have "drop n (concat (output_iov self) @ rest) = drop part (concat queue)" using loop(2) by (metis add.commute drop_drop)
    then show ?thesis using n rest by (metis append_take_drop_id drop_append offered_def diff_is_0_eq append.assoc drop0)
  qed
  have "queue_ok ?after"
    using q(1) loop(3,4) le drop by (auto simp: queue_ok_def note_event_def)
  moreover have "close_ok ?after"
    using inv by (auto simp: pipe_inv_def close_ok_def note_event_def)
  ultimately have after: "pipe_inv ?after" by (simp add: pipe_inv_def)
  have "out_source ?after = out_source self" "closed ?after = closed self" by (auto simp: note_event_def)
  then have "pipe_inv (stop_output ?after)"
    using src q(2) by (intro pipe_inv_cong [OF after, where evs = "[]"]) (auto simp: stop_output_def pipe_assert_def)
  then show ?thesis
    using after loop(1) unfolding output_written_def f Let_def loop(1)
    by (auto intro!: close_output_inv close_maybe_inv)
qed

lemma dispatch_connect_inv: "pipe_inv self \<Longrightarrow> pipe_inv (fst (dispatch_connect self conn))"
proof -
  assume inv: "pipe_inv self"
  have "pipe_inv (self\<lparr>connecting := c\<rparr>)" for c by (rule pipe_inv_cong [OF inv, where evs = "[]"]) auto
  then show ?thesis by (auto simp: dispatch_connect_def Let_def close_immediately_inv problem_inv split: option.splits)
qed

lemma dispatch_connect_done: "dispatch_connect self conn = (self', True) \<Longrightarrow> self' = self\<lparr>connecting := False\<rparr>"
  by (auto simp: dispatch_connect_def Let_def split: option.splits if_splits)

lemma output_empty_inv:
  assumes inv: "pipe_inv self" and src: "out_source self \<noteq> No_source" and none: "output_iov self = []"
  shows "pipe_inv (output_written self 0 shut)"
proof -
  have "\<not> closed self" using inv src closed_sources by blast
  then have "pipe_inv (stop_output self)"
    using src by (intro pipe_inv_cong [OF inv, where evs = "[]"]) (auto simp: stop_output_def pipe_assert_def)
  then show ?thesis using inv none by (auto simp: output_written_def Let_def intro!: close_output_inv close_maybe_inv)
qed

lemma dispatch_output_inv:
  assumes inv: "pipe_inv self" and src: "out_source self \<noteq> No_source"
  shows "pipe_inv (fst (dispatch_output self conn (kernel_takes self outcome) shut))"
proof -
  have main: "pipe_inv (fst (dispatch_output self' conn (kernel_takes self outcome) shut))"
    if s': "pipe_inv self'" "out_source self' \<noteq> No_source" "\<not> connecting self'" "offered self' = offered self" for self'
  proof -
    have "partial_ok (out_queue self') (out_partial self')" using s'(1) by (simp add: pipe_inv_def queue_ok_def)
    then have a: "pipe_assert (iov_assert self') self' = self'"
      by (auto simp: pipe_assert_def iov_assert_def partial_ok_def split: list.splits)
    show ?thesis
      using s' output_empty_inv [OF s'(1,2)] output_written_inv [OF s'(1,2)] close_immediately_inv [OF s'(1)]
        close_immediately_inv [OF problem_inv [OF s'(1)]]
      by (auto simp: dispatch_output_def a kernel_takes_def Let_def split: write_outcome.splits)
  qed
  show ?thesis
  proof (cases "connecting self")
    case False
    then show ?thesis using main [OF inv src] by simp
  next
    case True
    obtain self' b where c: "dispatch_connect self conn = (self', b)" by fastforce
    have inv': "pipe_inv self'" using dispatch_connect_inv [OF inv, of conn] c by simp
    show ?thesis
    proof (cases b)
      case False
      then show ?thesis using True c inv' by (simp add: dispatch_output_def)
    next
      case b: True
      then have s': "self' = self\<lparr>connecting := False\<rparr>" using dispatch_connect_done c by simp
      have "dispatch_output self conn (kernel_takes self outcome) shut = dispatch_output self' conn (kernel_takes self outcome) shut"
        using True b c s' by (simp add: dispatch_output_def)
      moreover have "offered self' = offered self" by (simp add: s' offered_def output_iov_def split: list.split)
      ultimately show ?thesis using main [OF inv'] src s' by simp
    qed
  qed
qed

lemma write_inv:
  assumes "pipe_inv self"
  shows "pipe_inv (cockpit_pipe_write self data)"
proof (cases "closed self \<or> data = [] \<or> \<not> 2 ^ 64 - 1 - length data > out_queued self")
  case True
  then show ?thesis using assms by (auto simp: cockpit_pipe_write_def intro!: note_inv)
next
  case False
  let ?self = "note_event (Queued data) (self\<lparr>out_queued := out_queued self + length data, out_queue := out_queue self @ [data]\<rparr>)"
  let ?after = "if out_queued self < QUEUE_PRESSURE \<and> out_queued self + length data \<ge> QUEUE_PRESSURE
    then note_event (Flow_pressure True) ?self else ?self"
  have q: "queue_ok self" using assms by (simp add: pipe_inv_def)
  have part: "partial_ok (out_queue self @ [data]) (out_partial self)" "out_partial self \<le> length (concat (out_queue self))"
    using q False by (auto simp: queue_ok_def partial_ok_def split: list.splits)
  then have "queue_ok ?after" using q False by (auto simp: queue_ok_def note_event_def)
  moreover have "close_ok ?after" using assms by (auto simp: pipe_inv_def close_ok_def note_event_def)
  ultimately have inv: "pipe_inv ?after" by (simp add: pipe_inv_def)
  have sel: "out_source ?after = out_source self" "closed ?after = closed self" "out_fd ?after = out_fd self" by (auto simp: note_event_def)
  have "pipe_inv (start_output ?after)" if "out_source self = No_source"
    by (rule pipe_inv_cong [OF inv, where evs = "[]"]) (use sel that False in \<open>auto simp: start_output_def pipe_assert_def\<close>)
  moreover have "cockpit_pipe_write self data = (if out_source self = No_source \<and> out_fd self \<ge> 0 then start_output ?after else ?after)"
    using False sel by (auto simp: cockpit_pipe_write_def Let_def note_event_def)
  ultimately show ?thesis using inv by simp
qed

lemma cockpit_close_inv: "pipe_inv self \<Longrightarrow> pipe_inv (cockpit_pipe_close self prob shut)"
proof -
  assume inv: "pipe_inv self"
  have "pipe_inv (self\<lparr>closing := True\<rparr>)" by (rule pipe_inv_cong [OF inv, where evs = "[]"]) auto
  then show ?thesis by (simp add: cockpit_pipe_close_def Let_def close_immediately_inv close_output_inv)
qed

lemma throttle_inv: "pipe_inv self \<Longrightarrow> pipe_inv (on_throttle_pressure self b)"
proof -
  assume inv: "pipe_inv self"
  have "pipe_inv (stop_input self)" if "in_source self \<noteq> No_source"
    using closed_sources [OF inv] that by (intro pipe_inv_cong [OF inv, where evs = "[]"]) (auto simp: stop_input_def pipe_assert_def)
  moreover have "pipe_inv (start_input self)" if "in_source self = No_source" "\<not> in_done self"
    using closed_sources [OF inv] that by (intro pipe_inv_cong [OF inv, where evs = "[]"]) (auto simp: start_input_def pipe_assert_def)
  ultimately show ?thesis using inv by (simp add: on_throttle_pressure_def)
qed

lemma destroyed_inv:
  assumes "pipe_inv self"
  shows "in_source self = Attached \<Longrightarrow> pipe_inv (self\<lparr>in_source := Destroyed\<rparr>)"
    "out_source self = Attached \<Longrightarrow> pipe_inv (self\<lparr>out_source := Destroyed\<rparr>)"
    "err_source self = Attached \<Longrightarrow> pipe_inv (self\<lparr>err_source := Destroyed\<rparr>)"
  using closed_sources [OF assms] by (auto intro!: pipe_inv_cong [OF assms, where evs = "[]"])

lemma pipe_step_inv:
  assumes "pipe_inv self"
  shows "pipe_inv (pipe_step on_read self call)"
proof (cases call)
  case (Input h r)
  then show ?thesis
    using assms dispatch_input_inv [OF assms, of on_read h r] destroyed_inv(1) by (auto split: prod.splits)
next
  case (Output c w e)
  then show ?thesis
    using assms dispatch_output_inv [OF assms, of c w e] destroyed_inv(2) by (auto split: prod.splits)
next
  case (Error_input h r)
  then show ?thesis
    using assms dispatch_error_inv [OF assms, of h r] destroyed_inv(3) by (auto split: prod.splits)
next
  case Stop_capture
  have "pipe_inv (self\<lparr>err_forward_to_log := True\<rparr>)" by (rule pipe_inv_cong [OF assms, where evs = "[]"]) auto
  then show ?thesis using Stop_capture assms by (simp add: cockpit_pipe_stop_stderr_capture_def forward_inv)
qed (simp_all add: assms write_inv cockpit_close_inv reap_inv throttle_inv on_later_close_def close_immediately_inv take_stderr_inv)

lemma pipe_run_inv: "pipe_inv self \<Longrightarrow> pipe_inv (pipe_run on_read self calls)"
  unfolding pipe_run_def by (induction calls arbitrary: self) (auto simp: pipe_step_inv simp del: pipe_step.simps)

section \<open>Properties\<close>

text \<open>A pipe as the constructor gets it: any descriptors and any process.\<close>

definition pipe_made :: "int \<Rightarrow> int \<Rightarrow> int \<Rightarrow> nat \<Rightarrow> CockpitPipe" where
  "pipe_made infd outfd errfd process =
     cockpit_pipe_constructed (cockpit_pipe_init\<lparr>in_fd := infd, out_fd := outfd, err_fd := errfd, pid := process\<rparr>)"

lemma pipe_made_inv: "pipe_inv (pipe_made infd outfd errfd process)"
  by (simp add: pipe_made_def cockpit_pipe_constructed_def cockpit_pipe_init_def start_input_def start_output_def pipe_assert_def
      pipe_inv_def queue_ok_def close_ok_def partial_ok_def QUEUE_PRESSURE_def Let_def)

text \<open>C21: What a pipe writes to its descriptor, over every schedule of partial writes, errors and other events, is what was queued, in order and without
  loss: the bytes queued are the bytes written followed by those that are still in the queue.\<close>

theorem pipe_output_in_order:
  assumes "self = pipe_run on_read (pipe_made infd outfd errfd process) calls"
  shows "queued_bytes (pipe_log self) = written_bytes (pipe_log self) @ drop (out_partial self) (concat (out_queue self))"
  using pipe_run_inv [OF pipe_made_inv] by (simp add: assms pipe_inv_def queue_ok_def)

theorem pipe_output_in_order_witness:
  "queued_bytes (pipe_log (pipe_run (\<lambda>b _. b) (pipe_made 3 4 (- 1) 0)
      [Do_write [1, 2, 3], Do_write [4, 5], Output None (Wrote 4) E_none, Do_write [6]])) = [1, 2, 3, 4, 5, 6] \<and>
   written_bytes (pipe_log (pipe_run (\<lambda>b _. b) (pipe_made 3 4 (- 1) 0)
      [Do_write [1, 2, 3], Do_write [4, 5], Output None (Wrote 4) E_none, Do_write [6]])) = [1, 2, 3, 4]"
proof -
  let ?self = "pipe_run (\<lambda>b _. b) (pipe_made 3 4 (- 1) 0) [Do_write [1, 2, 3], Do_write [4, 5], Output None (Wrote 4) E_none, Do_write [6]]"
  have "queued_bytes (pipe_log ?self) = written_bytes (pipe_log ?self) @ drop (out_partial ?self) (concat (out_queue ?self))"
    by (rule pipe_output_in_order [OF refl])
  then show ?thesis
    by (simp add: pipe_run_def pipe_made_def cockpit_pipe_constructed_def cockpit_pipe_init_def start_input_def start_output_def
        pipe_assert_def cockpit_pipe_write_def dispatch_output_def output_written_def output_iov_def iov_assert_def kernel_takes_def offered_def
        note_event_def QUEUE_PRESSURE_def Let_def)
qed

text \<open>C24: No assertion of a pipe fails, its byte count is the size of the queue, and its last pressure signal says whether that is a megabyte or more.\<close>

theorem pipe_counters_exact:
  "Assertion_failed \<notin> set (pipe_log (pipe_run on_read (pipe_made infd outfd errfd process) calls)) \<and>
   out_queued (pipe_run on_read (pipe_made infd outfd errfd process) calls) =
     length (concat (out_queue (pipe_run on_read (pipe_made infd outfd errfd process) calls))) \<and>
   flow_pressed False (pipe_log (pipe_run on_read (pipe_made infd outfd errfd process) calls)) =
     (out_queued (pipe_run on_read (pipe_made infd outfd errfd process) calls) \<ge> QUEUE_PRESSURE)"
  using pipe_run_inv [OF pipe_made_inv] by (simp add: pipe_inv_def queue_ok_def)

text \<open>C23: A pipe emits its close signal at most once, and exactly when it is closed and its child process, if it has one, was reaped; then none of its
  sources is left.\<close>

theorem pipe_closes_once:
  assumes "self = pipe_run on_read (pipe_made infd outfd errfd process) calls"
  shows "close_signals (pipe_log self) = of_bool (closed self \<and> \<not> child self) \<and>
    (closed self \<longrightarrow> in_source self = No_source \<and> out_source self = No_source \<and> err_source self = No_source)"
  using pipe_run_inv [OF pipe_made_inv] by (simp add: assms pipe_inv_def close_ok_def)

theorem pipe_closes_once_witness:
  "close_signals (pipe_log (pipe_run (\<lambda>b _. b) (pipe_made 3 4 (- 1) 77) [Do_close (Some (asc ''terminated'')) E_none])) = 0 \<and>
   close_signals (pipe_log (pipe_run (\<lambda>b _. b) (pipe_made 3 4 (- 1) 77)
     [Do_close (Some (asc ''terminated'')) E_none, Reap 0 E_none, Do_close None E_none])) = 1"
  using pipe_closes_once [OF refl, of "\<lambda>b _. b" 3 4 "- 1" 77 "[Do_close (Some (asc ''terminated'')) E_none]", THEN conjunct1]
    pipe_closes_once [OF refl, of "\<lambda>b _. b" 3 4 "- 1" 77 "[Do_close (Some (asc ''terminated'')) E_none, Reap 0 E_none, Do_close None E_none]",
      THEN conjunct1]
  by (simp add: pipe_run_def pipe_made_def cockpit_pipe_constructed_def cockpit_pipe_init_def start_input_def start_output_def
      pipe_assert_def cockpit_pipe_close_def close_immediately_def stop_input_def stop_output_def on_child_reap_def close_output_def close_maybe_def
      note_event_def Let_def)

end
