(* ===== verification/PipeDelivery.thy ===== *)
theory PipeDelivery
  imports PipeSafety PipeTransport
begin

text \<open>
  Delivery over a pipe: the queue drains, and a transport on one end of a connection gets what the transport on the other end sent.
\<close>

section \<open>Draining the queue\<close>

definition remaining :: "CockpitPipe \<Rightarrow> bytes" where
  "remaining self = drop (out_partial self) (concat (out_queue self))"

lemma close_keeps_queue [simp]:
  "out_queue (close_immediately self prob) = out_queue self" "out_partial (close_immediately self prob) = out_partial self"
  "queued_bytes (pipe_log (close_immediately self prob)) = queued_bytes (pipe_log self)"
  by (cases "closed self"; simp add: close_immediately_result Let_def)+

lemma close_maybe_queue [simp]:
  "out_queue (close_maybe self) = out_queue self" "out_partial (close_maybe self) = out_partial self"
  "queued_bytes (pipe_log (close_maybe self)) = queued_bytes (pipe_log self)"
  by (simp_all add: close_maybe_def)

lemma close_output_queue [simp]:
  "out_queue (close_output self shut) = out_queue self" "out_partial (close_output self shut) = out_partial self"
  "queued_bytes (pipe_log (close_output self shut)) = queued_bytes (pipe_log self)"
  unfolding close_output_def Let_def stop_if by simp_all

text \<open>One dispatch, of a kernel that takes something.\<close>

lemma output_progress:
  assumes inv: "pipe_inv self" and src: "out_source self = Attached" "\<not> connecting self" and n: "0 < n" and q: "out_queue self \<noteq> []"
    and s': "self' = pipe_step on_read self (Output conn (Wrote n) shut)"
  shows "length (remaining self') < length (remaining self) \<and> queued_bytes (pipe_log self') = queued_bytes (pipe_log self) \<and>
    (out_queue self' \<noteq> [] \<longrightarrow> out_source self' = Attached \<and> \<not> connecting self')"
proof -
  let ?m = "min n (offered self)"
  let ?ev = "Wrote_bytes (take ?m (concat (output_iov self)))"
  let ?self = "note_event ?ev self"
  have ok: "queue_ok self" using inv by (simp add: pipe_inv_def)
  have f: "out_queue ?self = out_queue self" "out_partial ?self = out_partial self" "out_queued ?self = out_queued self"
    "output_iov ?self = output_iov self"
    by (simp_all add: note_event_def output_iov_def split: list.split)
  obtain b qs where bq: "out_queue self = b # qs" "out_partial self < length b"
    using q ok by (cases "out_queue self") (auto simp: queue_ok_def partial_ok_def)
  then have iov: "output_iov self = drop (out_partial self) b # take 3 qs" by (simp add: output_iov_def)
  have m: "0 < ?m" "?m \<le> offered self" using n bq by (auto simp: offered_def iov)
  obtain rest where rest: "remaining self = concat (output_iov self) @ rest"
    using output_iov_prefix [of self] ok by (auto simp: remaining_def queue_ok_def)
  obtain queue part where loop: "written_loop ?self ?m (output_iov self) =
      ?self\<lparr>out_queue := queue, out_queued := length (concat queue), out_partial := part\<rparr>"
    "drop part (concat queue) = drop (out_partial self + ?m) (concat (out_queue self))"
    using written_loop_result [where iov = "output_iov self" and k = 4 and self = ?self and ret = ?m] ok m(2) unfolding f
    by (auto simp: queue_ok_def offered_def output_iov_queue)
  have "pipe_assert (iov_assert self) self = self" using bq by (simp add: pipe_assert_def iov_assert_def)
  then have "dispatch_output self conn (Wrote ?m) shut = (output_written ?self ?m shut, True)"
    using src iov by (simp add: dispatch_output_def Let_def)
  then have eq: "self' = output_written ?self ?m shut" using src s' by (simp add: kernel_takes_def)
  have drop: "drop part (concat queue) = drop ?m (remaining self)" using loop(2) by (simp add: remaining_def add.commute)
  have "remaining self' = drop ?m (remaining self)"
    unfolding eq output_written_def f loop(1) Let_def drop [symmetric]
    by (auto simp: remaining_def note_event_def stop_output_def pipe_assert_def)
  moreover have "length (drop ?m (remaining self)) < length (remaining self)" using m by (simp add: rest offered_def)
  moreover have "queued_bytes (pipe_log self') = queued_bytes (pipe_log self)"
    unfolding eq output_written_def f loop(1) Let_def by (auto simp: note_event_def stop_output_def pipe_assert_def)
  moreover have "out_source self' = Attached \<and> \<not> connecting self'" if "out_queue self' \<noteq> []"
    using that src unfolding eq output_written_def f loop(1) Let_def
    by (auto simp: note_event_def stop_output_def pipe_assert_def split: if_splits)
  ultimately show ?thesis by simp
qed

lemma remaining_empty: "pipe_inv self \<Longrightarrow> remaining self = [] \<longleftrightarrow> out_queue self = []"
  by (cases "out_queue self") (auto simp: remaining_def pipe_inv_def queue_ok_def partial_ok_def)

definition idle_like :: "CockpitPipe \<Rightarrow> CockpitPipe \<Rightarrow> bool" where
  "idle_like self self' \<longleftrightarrow> out_queue self' = [] \<and> queued_bytes (pipe_log self') = queued_bytes (pipe_log self)"

lemma written_idle: "out_queue s = [] \<Longrightarrow> idle_like s (output_written s 0 shut)"
  by (simp add: idle_like_def output_written_def output_iov_def Let_def stop_output_def pipe_assert_def note_event_def)

lemma connect_idle: "out_queue self = [] \<Longrightarrow> idle_like self (fst (dispatch_connect self conn))"
  by (simp add: idle_like_def dispatch_connect_def set_problem_from_errno_def Let_def split: option.split)

lemma dispatch_idle:
  assumes "out_queue self = []"
  shows "idle_like self (fst (dispatch_output self conn w shut))"
proof -
  obtain s ready where c: "(if connecting self then dispatch_connect self conn else (self, True)) = (s, ready)" by fastforce
  then have s: "idle_like self s" using connect_idle [OF assms, of conn] assms by (auto simp: idle_like_def split: if_splits)
  then have q: "out_queue s = []" by (simp add: idle_like_def)
  then have "pipe_assert (iov_assert s) s = s" "output_iov s = []" by (simp_all add: pipe_assert_def iov_assert_def output_iov_def)
  then have "fst (dispatch_output self conn w shut) =
      (if \<not> ready then s else if out_source s = No_source then note_event Pipe_critical s else output_written s 0 shut)"
    unfolding dispatch_output_def c by (cases ready) simp_all
  then show ?thesis using s written_idle [OF q, of shut] by (auto simp: idle_like_def note_event_def)
qed

lemma output_idle:
  assumes "out_queue self = []"
  shows "idle_like self (pipe_step on_read self (Output conn (Wrote n) shut))"
  using dispatch_idle [OF assms, of conn "kernel_takes self (Wrote n)" shut] assms
  by (cases "dispatch_output self conn (kernel_takes self (Wrote n)) shut") (auto simp: idle_like_def)

lemma outputs_drain:
  assumes "pipe_inv self" "out_queue self = [] \<or> out_source self = Attached \<and> \<not> connecting self"
    and "\<forall>n\<in>set ns. 0 < n" "length (remaining self) \<le> length ns"
  shows "out_queue (pipe_run on_read self (map (\<lambda>n. Output None (Wrote n) shut) ns)) = [] \<and>
    queued_bytes (pipe_log (pipe_run on_read self (map (\<lambda>n. Output None (Wrote n) shut) ns))) = queued_bytes (pipe_log self)"
  using assms
proof (induction ns arbitrary: self)
  case Nil
  then show ?case using remaining_empty [of self] by (simp add: pipe_run_def)
next
  case (Cons n ns)
  let ?self = "pipe_step on_read self (Output None (Wrote n) shut)"
  have inv: "pipe_inv ?self" using Cons.prems(1) by (rule pipe_step_inv)
  have step: "(out_queue ?self = [] \<or> out_source ?self = Attached \<and> \<not> connecting ?self) \<and> length (remaining ?self) \<le> length ns \<and>
      queued_bytes (pipe_log ?self) = queued_bytes (pipe_log self)"
  proof (cases "out_queue self = []")
    case True
    then show ?thesis using output_idle [OF True, of on_read None n shut] remaining_empty [OF inv] by (simp add: idle_like_def del: pipe_step.simps)
  next
    case False
    then show ?thesis
      using output_progress [OF Cons.prems(1) _ _ _ False refl, of n on_read None shut] Cons.prems by auto
  qed
  then show ?case using Cons.IH [OF inv] Cons.prems(3) by (simp add: pipe_run_def del: pipe_step.simps)
qed

text \<open>C22: A pipe whose descriptor keeps taking bytes, as few as one at a time, empties its queue after at most as many dispatches as there are bytes left, and
  has then written all that was ever queued.\<close>

theorem pipe_output_drains:
  assumes "self = pipe_run on_read (pipe_made infd outfd errfd process) calls" "out_source self = Attached" "\<not> connecting self"
    and "\<forall>n\<in>set ns. 0 < n" "length (remaining self) \<le> length ns"
    and "self' = pipe_run on_read self (map (\<lambda>n. Output None (Wrote n) shut) ns)"
  shows "out_queue self' = [] \<and> written_bytes (pipe_log self') = queued_bytes (pipe_log self)"
proof -
  have inv: "pipe_inv self" unfolding assms(1) by (rule pipe_run_inv [OF pipe_made_inv])
  have "pipe_inv self'" unfolding assms(6) by (rule pipe_run_inv [OF inv])
  moreover have "out_queue self' = []" "queued_bytes (pipe_log self') = queued_bytes (pipe_log self)"
    using outputs_drain [OF inv _ assms(4,5)] assms(2,3,6) by auto
  ultimately show ?thesis by (simp add: pipe_inv_def queue_ok_def)
qed

lemmas pipe_run_eval = pipe_run_def pipe_made_def cockpit_pipe_constructed_def cockpit_pipe_init_def start_input_def start_output_def
  pipe_assert_def cockpit_pipe_write_def note_event_def QUEUE_PRESSURE_def Let_def

theorem pipe_output_drains_witness:
  "out_queue (pipe_run (\<lambda>b _. b) (pipe_run (\<lambda>b _. b) (pipe_made 3 4 (- 1) 0) [Do_write [1, 2], Do_write [3]])
     (map (\<lambda>n. Output None (Wrote n) E_none) [1, 7, 1])) = [] \<and>
   written_bytes (pipe_log (pipe_run (\<lambda>b _. b) (pipe_run (\<lambda>b _. b) (pipe_made 3 4 (- 1) 0) [Do_write [1, 2], Do_write [3]])
     (map (\<lambda>n. Output None (Wrote n) E_none) [1, 7, 1]))) =
   queued_bytes (pipe_log (pipe_run (\<lambda>b _. b) (pipe_made 3 4 (- 1) 0) [Do_write [1, 2], Do_write [3]]))"
  by (rule pipe_output_drains [OF refl _ _ _ _ refl]) (simp_all add: remaining_def pipe_run_eval)

text \<open>A write that the kernel puts off with \<^verbatim>\<open>EAGAIN\<close> ends all output: the callback returns \<^verbatim>\<open>FALSE\<close>, its source is destroyed, and later writes do not start
  another one because the pointer to it is still there.\<close>

lemma pipe_output_stalls:
  assumes "pipe_inv self" "out_source self = Attached" "\<not> connecting self" "out_queue self \<noteq> []" "retry_errno errn"
    and "\<forall>call\<in>set calls. (\<exists>d. call = Do_write d) \<or> (\<exists>c w e. call = Output c w e)"
    and "self' = pipe_run on_read (pipe_step on_read self (Output conn (Write_error errn) shut)) calls"
  shows "out_source self' = Destroyed \<and> written_bytes (pipe_log self') = written_bytes (pipe_log self)"
proof -
  have "partial_ok (out_queue self) (out_partial self)" using assms(1) by (simp add: pipe_inv_def queue_ok_def)
  then have "pipe_assert (iov_assert self) self = self" "output_iov self \<noteq> []"
    using assms(4) by (auto simp: pipe_assert_def iov_assert_def partial_ok_def output_iov_def split: list.split)
  then have first: "pipe_step on_read self (Output conn (Write_error errn) shut) = self\<lparr>out_source := Destroyed\<rparr>"
    using assms(2,3,5) by (simp add: dispatch_output_def kernel_takes_def Let_def)
  have "out_source (pipe_run on_read s calls) = Destroyed \<and> written_bytes (pipe_log (pipe_run on_read s calls)) = written_bytes (pipe_log s)"
    if "out_source s = Destroyed" for s
    using assms(6) that
  proof (induction calls arbitrary: s)
    case (Cons call calls)
    have "out_source (pipe_step on_read s call) = Destroyed \<and> written_bytes (pipe_log (pipe_step on_read s call)) = written_bytes (pipe_log s)"
      using Cons.prems by (auto simp: cockpit_pipe_write_def note_event_def Let_def)
    then show ?case using Cons.IH [of "pipe_step on_read s call"] Cons.prems(1) by (simp add: pipe_run_def del: pipe_step.simps)
  qed (simp add: pipe_run_def)
  then show ?thesis using assms(7) first by simp
qed

section \<open>Two transports on a connection\<close>

text \<open>The read handler of a transport that records its messages, as the handler of the signal of a pipe.\<close>

definition receive_step :: "CockpitPipe \<times> recording_transport \<Rightarrow> bytes \<Rightarrow> CockpitPipe \<times> recording_transport" where
  "receive_step st data =
     (case st of (pipe, transport) \<Rightarrow>
        (fst (dispatch_input (\<lambda>buffer eof. snd (on_pipe_read record_message transport buffer eof)) pipe False (Read_data data)),
         fst (on_pipe_read record_message transport (in_buffer pipe @ take DEF_PACKET_SIZE data) False)))"

lemma receive_step_chunk:
  assumes "in_source pipe = Attached" "\<not> in_done pipe" "data \<noteq> []" "length data \<le> DEF_PACKET_SIZE"
  shows "\<exists>pipe'. receive_step (pipe, transport) data = (pipe', fst (receive_chunk (transport, in_buffer pipe) data)) \<and>
    in_buffer pipe' = snd (receive_chunk (transport, in_buffer pipe) data) \<and> in_source pipe' = Attached \<and> \<not> in_done pipe'"
  using assms by (simp add: receive_step_def receive_chunk_def dispatch_input_def input_read_def note_event_def Let_def)

lemma receive_steps:
  assumes "in_source pipe = Attached" "\<not> in_done pipe" "\<forall>c\<in>set chunks. c \<noteq> [] \<and> length c \<le> DEF_PACKET_SIZE"
  shows "\<exists>pipe'. foldl receive_step (pipe, transport) chunks = (pipe', fst (foldl receive_chunk (transport, in_buffer pipe) chunks)) \<and>
    in_buffer pipe' = snd (foldl receive_chunk (transport, in_buffer pipe) chunks)"
  using assms
proof (induction chunks arbitrary: pipe transport)
  case (Cons c chunks)
  obtain pipe' where p: "receive_step (pipe, transport) c = (pipe', fst (receive_chunk (transport, in_buffer pipe) c))"
    "in_buffer pipe' = snd (receive_chunk (transport, in_buffer pipe) c)" "in_source pipe' = Attached" "\<not> in_done pipe'"
    using receive_step_chunk [of pipe c transport] Cons.prems by auto
  then show ?case
    using Cons.IH [OF p(3,4), of "fst (receive_chunk (transport, in_buffer pipe) c)"] Cons.prems(3) by simp
qed simp

text \<open>C1: Two transports over two pipes: when the pipe of the sender was given the blocks of its transport and its queue is empty, over whatever schedule of
  partial writes and other events, and the pipe of the receiver reads what was written in chunks of any size, then the transport of the receiver
  has delivered exactly the messages sent, in order, and nothing is left in its buffer.\<close>

theorem pipe_end_to_end:
  assumes "\<forall>m\<in>set ms. valid_channel (fst m) \<and> length (message_body m) < 100000000"
    and "\<not> pt_closed s" "pt_written s = []" "s' = foldl (\<lambda>t m. cockpit_pipe_transport_send t (fst m) (snd m)) s ms"
    and "sender = pipe_run on_read (pipe_made infd outfd errfd process) calls"
    and "queued_bytes (pipe_log sender) = concat (pt_written s')" "out_queue sender = []"
    and "concat chunks = written_bytes (pipe_log sender)" "\<forall>c\<in>set chunks. c \<noteq> [] \<and> length c \<le> DEF_PACKET_SIZE"
    and "in_source receiver = Attached" "\<not> in_done receiver" "in_buffer receiver = []" "\<not> pt_closed r"
  shows "\<exists>receiver'. foldl receive_step (receiver, r) chunks = (receiver', r\<lparr>log := log r @ ms\<rparr>) \<and> in_buffer receiver' = []"
proof -
  have "pipe_inv sender" unfolding assms(5) by (rule pipe_run_inv [OF pipe_made_inv])
  then have "concat chunks = concat (pt_written s')" using assms(6-8) by (simp add: pipe_inv_def queue_ok_def)
  then have "foldl receive_chunk (r, []) chunks = (r\<lparr>log := log r @ ms\<rparr>, [])"
    using messages_delivered [OF assms(1-3) _ assms(13)] assms(4) by simp
  then show ?thesis using receive_steps [OF assms(10,11,9), of r] assms(12) by simp
qed

theorem pipe_end_to_end_witness:
  "\<exists>receiver'. foldl receive_step (pipe_made 5 6 (- 1) 0, \<lparr>pt_name = [], pt_closed = False, pt_written = [], pt_close_calls = [], log = []\<rparr>)
      [[51], [10, 99, 10, 104]] =
    (receiver', \<lparr>pt_name = [], pt_closed = False, pt_written = [], pt_close_calls = [], log = [(Some [99], [104])]\<rparr>) \<and> in_buffer receiver' = []"
proof -
  let ?r = "\<lparr>pt_name = [], pt_closed = False, pt_written = [], pt_close_calls = [], log = []\<rparr> :: recording_transport"
  let ?calls = "[Do_write [51, 10, 99, 10], Output None (Wrote 2) E_none, Do_write [104], Output None (Wrote 9) E_none]"
  have log: "pipe_log (pipe_run (\<lambda>b _. b) (pipe_made 3 4 (- 1) 0) ?calls) =
      [Queued [51, 10, 99, 10], Wrote_bytes [51, 10], Queued [104], Wrote_bytes [99, 10, 104]] \<and>
      out_queue (pipe_run (\<lambda>b _. b) (pipe_made 3 4 (- 1) 0) ?calls) = []"
    by (simp add: pipe_run_eval dispatch_output_def output_written_def output_iov_def iov_assert_def kernel_takes_def offered_def
        stop_output_def close_maybe_def)
  have "\<exists>receiver'. foldl receive_step (pipe_made 5 6 (- 1) 0, ?r) [[51], [10, 99, 10, 104]] = (receiver', ?r\<lparr>log := log ?r @ [(Some [99], [104])]\<rparr>) \<and>
      in_buffer receiver' = []"
    by (rule pipe_end_to_end [where s = ?r, OF _ _ _ refl refl, where calls = ?calls and infd = 3 and outfd = 4 and errfd = "- 1" and process = 0
          and on_read = "\<lambda>b _. b"])
       (simp_all add: log, simp_all add: valid_channel_def message_body_def cockpit_pipe_transport_send_def pipe_write_def dec_digits.simps
         pipe_run_eval DEF_PACKET_SIZE_def)
  then show ?thesis by simp
qed

end
