(* ===== verification/Template.thy ===== *)
theory Template
  imports Json
begin

text \<open>
  \<^verbatim>\<open>src/common/cockpittemplate.c\<close>: variables between two markers are replaced by what a function says.
  \<open>mem\<close> is the memory from the first byte of the input on; the source looks for markers with \<^verbatim>\<open>strlen\<close>, so
  how far it reads depends on the next NUL and not on the size of the input.  Pointers are offsets into \<open>mem\<close>.
\<close>

section \<open>The expansion\<close>

definition VARCHARS :: bytes where
  "VARCHARS = asc ''ABCDEFGHIJKLMNOPQRSTUVWXYZabcdefghijklmnopqrstuvwxyz0123456789._-''"

definition slice :: "bytes \<Rightarrow> nat \<Rightarrow> nat \<Rightarrow> bytes" where
  "slice mem i j = take (j - i) (drop i mem)"

lemma slice_join: "a \<le> b \<Longrightarrow> b \<le> c \<Longrightarrow> slice m a b @ slice m b c = slice m a c"
proof -
  assume le: "a \<le> b" "b \<le> c"
  then have "drop b m = drop (b - a) (drop a m)" "c - a = (b - a) + (c - b)" by simp_all
  then show ?thesis unfolding slice_def by (metis take_add)
qed

lemma slice_end [simp]: "a \<le> length s \<Longrightarrow> slice (s @ r) a (length s) = drop a s"
  by (simp add: slice_def)

lemma slice_empty [simp]: "slice m a a = []"
  by (simp add: slice_def)

text \<open>\<open>Find_overrun\<close> is a read past the memory that is there.  With two empty markers the loop does not end.\<close>

datatype find_result = Found bytes nat nat | Not_found | Find_overrun | Find_loops

lemma cstr_length_less: "0 \<in> set s \<Longrightarrow> length (cstr s) < length s"
proof -
  assume "0 \<in> set s"
  moreover have "s = cstr s @ drop (length (cstr s)) s" unfolding cstr_def by (simp add: dropWhile_eq_drop [symmetric])
  ultimately have "drop (length (cstr s)) s \<noteq> []" by (metis append_Nil2 zero_notin_cstr)
  then show ?thesis by simp
qed

lemma cstr_prefix: "take (length (cstr s)) s = cstr s"
  unfolding cstr_def by (rule takeWhile_eq_take [symmetric])

lemma strspn_take: "set (take (strspn s accept) s) \<subseteq> set accept"
  unfolding strspn_def takeWhile_eq_take [symmetric] by (auto dest: set_takeWhileD)

lemma memmem_cstr_bound:
  assumes "memmem (cstr (drop i mem)) p = Some k" "0 \<in> set (drop i mem)"
  shows "i + k + length p < length mem"
proof -
  have "k + length p \<le> length (cstr (drop i mem))" using memmem_Some [OF assms(1)] by simp
  also have "\<dots> < length (drop i mem)" by (rule cstr_length_less [OF assms(2)])
  finally show ?thesis by simp
qed

function find_variable :: "bytes \<Rightarrow> bytes \<Rightarrow> bytes \<Rightarrow> nat \<Rightarrow> find_result" where
  "find_variable start_marker end_marker mem data =
     (if 0 \<notin> set (drop data mem) then Find_overrun
      else case memmem (cstr (drop data mem)) start_marker of
        None \<Rightarrow> Not_found
      | Some i \<Rightarrow>
          let a = data + i; b = a + length start_marker in
          if 0 \<notin> set (drop b mem) then Find_overrun
          else case memmem (cstr (drop b mem)) end_marker of
            None \<Rightarrow> Not_found
          | Some j \<Rightarrow>
              let c = b + j; d = c + length end_marker in
              if b \<noteq> c \<and> b + strspn (drop b mem) VARCHARS = c then Found (slice mem b c) a d
              else if start_marker = [] \<and> end_marker = [] then Find_loops
              else find_variable start_marker end_marker mem d)"
  by pat_completeness auto
termination
proof (relation "measure (\<lambda>(_, _, mem, data). length mem - data)", simp, goal_cases)
  case (1 sm em mem data i a b j c d)
  then have "d < length mem" using memmem_cstr_bound [of b mem em j] by simp
  moreover have "data < d" using 1 by auto
  ultimately show ?case by simp
qed

declare find_variable.simps [simp del]

datatype expand_result = Expanded "bytes list" | Expand_overrun | Expand_loops | Expand_assert

fun expand_prepend :: "bytes list \<Rightarrow> expand_result \<Rightarrow> expand_result" where
  "expand_prepend pieces (Expanded rest) = Expanded (pieces @ rest)"
| "expand_prepend pieces failed = failed"

text \<open>What is found lies after where the search began, and in front of a NUL.\<close>

lemma find_variable_Found:
  assumes "find_variable sm em mem data = Found name before after"
  shows "data \<le> before \<and> after = before + length sm + length name + length em \<and> name \<noteq> [] \<and>
    slice mem before after = sm @ name @ em \<and> set name \<subseteq> set VARCHARS \<and> after < length mem"
  using assms
proof (induction sm em mem data rule: find_variable.induct)
  case (1 sm em mem data)
  show ?case
  proof (cases "\<exists>i j. memmem (cstr (drop data mem)) sm = Some i \<and>
      memmem (cstr (drop (data + i + length sm) mem)) em = Some j \<and> 0 \<in> set (drop data mem) \<and> 0 \<in> set (drop (data + i + length sm) mem)")
    case False
    then show ?thesis using "1.prems" by (subst (asm) find_variable.simps) (auto simp: Let_def split: if_splits option.splits)
  next
    case True
    then obtain i j where i: "memmem (cstr (drop data mem)) sm = Some i" "0 \<in> set (drop data mem)"
      and j: "memmem (cstr (drop (data + i + length sm) mem)) em = Some j" "0 \<in> set (drop (data + i + length sm) mem)" by blast
    define b where "b = data + i + length sm"
    have unf: "find_variable sm em mem data = (if b \<noteq> b + j \<and> b + strspn (drop b mem) VARCHARS = b + j
      then Found (slice mem b (b + j)) (data + i) (b + j + length em)
      else if sm = [] \<and> em = [] then Find_loops else find_variable sm em mem (b + j + length em))"
      using i j by (subst find_variable.simps) (simp add: b_def Let_def)
    show ?thesis
    proof (cases "b \<noteq> b + j \<and> b + strspn (drop b mem) VARCHARS = b + j")
      case False
      then have rec: "find_variable sm em mem (b + j + length em) = Found name before after" "\<not> (sm = [] \<and> em = [])"
        using unf "1.prems" by (auto split: if_splits)
      show ?thesis
        using "1.IH" [of i "data + i" b j "b + j" "b + j + length em"] i j rec False unfolding b_def by fastforce
    next
      case True
      then have eqs: "name = slice mem b (b + j)" "before = data + i" "after = b + j + length em" using unf "1.prems" by auto
      have bound: "b + j + length em < length mem" using memmem_cstr_bound [OF j] by (simp add: b_def)
      have len: "length name = j" using eqs bound by (simp add: slice_def)
      have "starts_with (drop i (drop data mem)) sm"
        using memmem_Some [OF i(1)] cstr_prefix [of "drop data mem"]
        by (smt (verit) append_take_drop_id drop_append starts_with_iff append.assoc)
      then have sm: "take (length sm) (drop before mem) = sm" using eqs by (simp add: starts_with_take add.commute)
      have "starts_with (drop j (drop b mem)) em"
        using memmem_Some [OF j(1)] cstr_prefix [of "drop b mem"]
        by (smt (verit) append_take_drop_id drop_append starts_with_iff append.assoc b_def)
      then have em: "take (length em) (drop (b + j) mem) = em" by (simp add: starts_with_take add.commute)
      have "drop before mem = sm @ drop b mem"
        using sm eqs append_take_drop_id [of "length sm" "drop before mem"] by (simp add: b_def add.commute)
      moreover have "drop b mem = name @ drop (b + j) mem"
        using eqs append_take_drop_id [of j "drop b mem"] by (simp add: slice_def add.commute)
      moreover have "drop (b + j) mem = em @ drop (b + j + length em) mem"
        using em append_take_drop_id [of "length em" "drop (b + j) mem"] by (simp add: add.commute add.left_commute)
      ultimately have sl: "drop before mem = sm @ name @ em @ drop (b + j + length em) mem" by simp
      have aft: "after - before = length sm + length name + length em" using eqs len by (simp add: b_def)
      have "slice mem before after = sm @ name @ em" unfolding slice_def aft sl by simp
      moreover have "set name \<subseteq> set VARCHARS"
        using True eqs strspn_take [of "drop b mem" VARCHARS] by (simp add: slice_def)
      ultimately show ?thesis using eqs len bound True by (auto simp: b_def)
    qed
  qed
qed

function expand_loop :: "(bytes \<Rightarrow> bytes option) \<Rightarrow> bytes \<Rightarrow> bytes \<Rightarrow> bytes \<Rightarrow> nat \<Rightarrow> nat \<Rightarrow> expand_result" where
  "expand_loop func start_marker end_marker mem fin data =
     (case find_variable start_marker end_marker mem data of
        Find_overrun \<Rightarrow> Expand_overrun
      | Find_loops \<Rightarrow> Expand_loops
      | Not_found \<Rightarrow>
          if data \<noteq> fin then (if fin > data then Expanded [slice mem data fin] else Expand_assert) else Expanded []
      | Found name before after \<Rightarrow>
          let escaped = (before \<noteq> data \<and> mem ! (before - 1) = 0x5c);
              lead = (if before \<noteq> data then [slice mem data (if escaped then before - 1 else before)] else []);
              bytes = (case (if \<not> escaped then func name else None) of Some v \<Rightarrow> v | None \<Rightarrow> slice mem before after);
              piece = (if length bytes > 0 then [bytes] else [])
          in if after \<le> fin then expand_prepend (lead @ piece) (expand_loop func start_marker end_marker mem fin after)
             else Expand_assert)"
  by pat_completeness auto
termination
  by (relation "measure (\<lambda>(_, _, _, _, fin, data). fin - data)") (auto dest!: find_variable_Found simp flip: length_greater_0_conv)

declare expand_loop.simps [simp del]

definition cockpit_template_expand :: "bytes \<Rightarrow> nat \<Rightarrow> bytes \<Rightarrow> bytes \<Rightarrow> (bytes \<Rightarrow> bytes option) \<Rightarrow> expand_result" where
  "cockpit_template_expand mem len start_marker end_marker func = expand_loop func start_marker end_marker mem len 0"

text \<open>The callback of the walk over a JSON object.  \<open>markers\<close> is the closure.  The strings of json-glib end with a NUL, so
  of the results of the expansion only the first occurs (\<open>template_c_string\<close>).\<close>

definition template_walk_func :: "bytes \<Rightarrow> bytes \<Rightarrow> (bytes \<Rightarrow> bytes option) \<Rightarrow> json \<Rightarrow> json option" where
  "template_walk_func start_marker end_marker func node =
     (case node of
        JString s \<Rightarrow>
          let string = cstr s in
          if memmem string start_marker = None then None
          else (case cockpit_template_expand (string @ [0]) (length string) start_marker end_marker func of
                  Expanded output \<Rightarrow>
                    let result = cstr (concat output) in
                    if result = string then None else Some (JString result)
                | _ \<Rightarrow> None)
      | _ \<Rightarrow> None)"

definition cockpit_template_expand_json :: "members \<Rightarrow> bytes \<Rightarrow> bytes \<Rightarrow> (bytes \<Rightarrow> bytes option) \<Rightarrow> members" where
  "cockpit_template_expand_json object start_marker end_marker func =
     cockpit_json_walk object (template_walk_func start_marker end_marker func)"

section \<open>Inputs that are C strings\<close>

lemma cstr_drop: "0 \<notin> set s \<Longrightarrow> d \<le> length s \<Longrightarrow> cstr (drop d (s @ 0 # r)) = drop d s"
  by (simp add: cstr_append_nul in_set_dropD) (metis cstr_append_nul in_set_dropD)

lemma memmem_c_string:
  assumes "memmem (cstr (drop d (s @ 0 # r))) p = Some k" "d \<le> length s" "0 \<notin> set s"
  shows "d + k + length p \<le> length s"
  using assms memmem_Some [of "drop d s" p k] by (auto simp: cstr_drop simp del: drop_append)

text \<open>In a C string the search ends, and what it finds is inside.\<close>

lemma find_variable_c_string:
  assumes "data \<le> length s" "0 \<notin> set s" "sm \<noteq> [] \<or> em \<noteq> []"
  shows "find_variable sm em (s @ 0 # r) data = Not_found \<or>
    (\<exists>name before after. find_variable sm em (s @ 0 # r) data = Found name before after \<and> after \<le> length s)"
  using assms
proof (induction sm em "s @ 0 # r" data rule: find_variable.induct)
  case (1 sm em data)
  show ?case
  proof (cases "memmem (cstr (drop data (s @ 0 # r))) sm")
    case None
    then show ?thesis using "1.prems" by (subst find_variable.simps) simp
  next
    case i: (Some i)
    define b where "b = data + i + length sm"
    have b: "b \<le> length s" using memmem_c_string [OF i "1.prems"(1,2)] by (simp add: b_def)
    show ?thesis
    proof (cases "memmem (cstr (drop b (s @ 0 # r))) em")
      case None
      then show ?thesis using "1.prems" i b by (subst find_variable.simps) (simp add: b_def Let_def)
    next
      case j: (Some j)
      have d: "b + j + length em \<le> length s" using memmem_c_string [OF j b "1.prems"(2)] by simp
      have "find_variable sm em (s @ 0 # r) data = (if b \<noteq> b + j \<and> b + strspn (drop b (s @ 0 # r)) VARCHARS = b + j
        then Found (slice (s @ 0 # r) b (b + j)) (data + i) (b + j + length em)
        else if sm = [] \<and> em = [] then Find_loops else find_variable sm em (s @ 0 # r) (b + j + length em))"
        using i j b "1.prems"(1) by (subst find_variable.simps) (simp add: b_def Let_def)
      then show ?thesis
        using "1.hyps" [of i "data + i" b j "b + j" "b + j + length em"] i j d b "1.prems" by (auto simp: b_def)
    qed
  qed
qed

lemma expand_loop_c_string:
  assumes "data \<le> length s" "0 \<notin> set s" "sm \<noteq> [] \<or> em \<noteq> []"
  shows "\<exists>out. expand_loop func sm em (s @ 0 # r) (length s) data = Expanded out \<and>
    ((\<forall>n. func n = None) \<and> 0x5c \<notin> set s \<longrightarrow> concat out = drop data s)"
  using assms
proof (induction func sm em "s @ 0 # r" "length s" data rule: expand_loop.induct)
  case (1 func sm em data)
  consider "find_variable sm em (s @ 0 # r) data = Not_found" |
    name before after where "find_variable sm em (s @ 0 # r) data = Found name before after" "after \<le> length s"
    using find_variable_c_string [OF "1.prems"] by blast
  then show ?case
  proof cases
    case 1
    then show ?thesis using "1.prems" by (subst expand_loop.simps) (auto simp: slice_def)
  next
    case (2 name before after)
    note f = find_variable_Found [OF 2(1)]
    define escaped where "escaped = (before \<noteq> data \<and> (s @ 0 # r) ! (before - 1) = 0x5c)"
    obtain out where out: "expand_loop func sm em (s @ 0 # r) (length s) after = Expanded out"
      "(\<forall>n. func n = None) \<and> 0x5c \<notin> set s \<longrightarrow> concat out = drop after s"
      using "1.hyps" [OF 2(1) refl refl refl refl 2(2)] 2(2) "1.prems"(2,3) by blast
    have "escaped \<Longrightarrow> before - 1 < length s \<and> s ! (before - 1) = 0x5c"
      using f 2(2) by (auto simp: escaped_def nth_append split: if_splits)
    then have esc: "0x5c \<notin> set s \<Longrightarrow> \<not> escaped" by (metis nth_mem)
    have "slice (s @ 0 # r) data before @ slice (s @ 0 # r) before after @ drop after s = drop data s"
      using f 2(2) "1.prems"(1) slice_join [of before after "length s" "s @ 0 # r"] slice_join [of data before "length s" "s @ 0 # r"]
      by simp
    then show ?thesis
      using out esc f 2 by (subst expand_loop.simps) (auto simp: Let_def escaped_def split: option.splits)
  qed
qed

section \<open>Rendering\<close>

text \<open>A template is a list of variables, each with the text in front of it and whether it is escaped, and the text at the end.\<close>

type_synonym template = "(bytes \<times> bool \<times> bytes) list"

definition reference_text :: "bytes \<Rightarrow> bytes \<Rightarrow> bytes \<Rightarrow> bytes" where
  "reference_text sm em name = sm @ name @ em"

fun render :: "bytes \<Rightarrow> bytes \<Rightarrow> template \<Rightarrow> bytes \<Rightarrow> bytes" where
  "render sm em [] tail = tail"
| "render sm em ((t, escaped, name) # ts) tail =
     t @ (if escaped then [0x5c] else []) @ reference_text sm em name @ render sm em ts tail"

fun meaning :: "bytes \<Rightarrow> bytes \<Rightarrow> (bytes \<Rightarrow> bytes option) \<Rightarrow> template \<Rightarrow> bytes \<Rightarrow> bytes" where
  "meaning sm em func [] tail = tail"
| "meaning sm em func ((t, escaped, name) # ts) tail =
     t @ (case (if escaped then None else func name) of Some v \<Rightarrow> v | None \<Rightarrow> reference_text sm em name) @
     meaning sm em func ts tail"

text \<open>The markers are separate from names, and no text has a start marker in it or forms one with the marker behind it.\<close>

definition markers_ok :: "bytes \<Rightarrow> bytes \<Rightarrow> bool" where
  "markers_ok sm em \<longleftrightarrow> sm \<noteq> [] \<and> em \<noteq> [] \<and> hd em \<notin> set VARCHARS \<and> 0 \<notin> set sm \<and> 0 \<notin> set em"

definition variable_ok :: "bytes \<Rightarrow> bytes \<times> bool \<times> bytes \<Rightarrow> bool" where
  "variable_ok sm v = (case v of (t, escaped, name) \<Rightarrow>
     name \<noteq> [] \<and> set name \<subseteq> set VARCHARS \<and> 0 \<notin> set t \<and> (escaped \<or> t = [] \<or> last t \<noteq> 0x5c) \<and>
     memmem (t @ (if escaped then [0x5c] else []) @ butlast sm) sm = None)"

definition template_ok :: "bytes \<Rightarrow> template \<Rightarrow> bytes \<Rightarrow> bool" where
  "template_ok sm ts tail \<longleftrightarrow> list_all (variable_ok sm) ts \<and> 0 \<notin> set tail \<and> memmem tail sm = None"

lemma VARCHARS_no_nul [simp]: "0 \<notin> set VARCHARS"
  by (simp add: VARCHARS_def)

lemma memmem_after_text:
  assumes "memmem (t @ butlast sm) sm = None" "sm \<noteq> []"
  shows "memmem (t @ sm @ r) sm = Some (length t)"
proof (rule memmem_unique)
  fix j assume j: "j < length t"
  have "starts_with (drop j (t @ butlast sm)) sm" if "starts_with (drop j (t @ sm @ r)) sm"
  proof -
    have "take (length sm) (drop j t @ sm @ r) = take (length sm) (drop j t @ butlast sm)"
    proof -
      have "sm = butlast sm @ [last sm]" using assms(2) by simp
      then have "drop j t @ sm @ r = (drop j t @ butlast sm) @ last sm # r" by (metis append.assoc append_Cons append_Nil)
      moreover have "length sm \<le> length (drop j t @ butlast sm)" using j assms(2) by simp
      ultimately show ?thesis by (metis take_all_iff take_append diff_is_0_eq' take0 append_Nil2)
    qed
    then show ?thesis using that j by (simp add: starts_with_take)
  qed
  then show "\<not> starts_with (drop j (t @ sm @ r)) sm" using memmem_None [OF assms(1)] by blast
qed simp_all

lemma memmem_after_name:
  assumes "set name \<subseteq> V" "em \<noteq> []" "hd em \<notin> V"
  shows "memmem (name @ em @ r) em = Some (length name)"
proof (rule memmem_unique)
  fix j assume "j < length name"
  then have "drop j (name @ em @ r) = name ! j # drop (Suc j) name @ em @ r" "name ! j \<in> V"
    using assms(1) nth_mem by (auto simp: Cons_nth_drop_Suc [symmetric])
  then show "\<not> starts_with (drop j (name @ em @ r)) em" using assms(2,3) by (cases em) auto
qed simp_all

lemma find_variable_rendered:
  assumes "markers_ok sm em" "memmem (t @ butlast sm) sm = None" "0 \<notin> set t" "name \<noteq> []" "set name \<subseteq> set VARCHARS"
    and "0 \<notin> set rest"
  shows "find_variable sm em (pre @ t @ sm @ name @ em @ rest @ 0 # r) (length pre) =
    Found name (length pre + length t) (length pre + length t + length sm + length name + length em)"
proof -
  let ?mem = "pre @ t @ sm @ name @ em @ rest @ 0 # r" and ?b = "length pre + length t + length sm"
  have m: "sm \<noteq> []" "em \<noteq> []" "hd em \<notin> set VARCHARS" "0 \<notin> set sm" "0 \<notin> set em"
    using assms(1) by (auto simp: markers_ok_def)
  have n: "0 \<notin> set name" using assms(5) VARCHARS_no_nul by blast
  have "cstr (drop (length pre) ?mem) = t @ sm @ name @ em @ rest"
    using m n assms(3,6) cstr_append_nul [of "t @ sm @ name @ em @ rest" r] by simp
  then have a: "memmem (cstr (drop (length pre) ?mem)) sm = Some (length t)"
    using memmem_after_text [OF assms(2) m(1)] by metis
  have d: "drop ?b ?mem = name @ em @ rest @ 0 # r" by simp
  have "cstr (drop ?b ?mem) = name @ em @ rest"
    using d m n assms(6) cstr_append_nul [of "name @ em @ rest" r] by simp
  then have c: "memmem (cstr (drop ?b ?mem)) em = Some (length name)"
    using memmem_after_name [OF assms(5) m(2,3)] by metis
  have "strspn (drop ?b ?mem) VARCHARS = length name"
    unfolding d strspn_def using assms(5) m(2,3) by (cases em) (auto simp: takeWhile_append subset_iff)
  moreover have "0 \<in> set (drop (length pre) ?mem)" by simp
  ultimately show ?thesis
    using a c d assms(4) by (subst find_variable.simps) (simp add: Let_def slice_def del: drop_append)
qed

lemma expand_loop_Found:
  assumes "find_variable sm em mem data = Found name before after" "after \<le> fin"
    and "before \<noteq> data \<and> mem ! (before - 1) = 0x5c \<longleftrightarrow> escaped"
  shows "expand_loop func sm em mem fin data =
    expand_prepend ((if before \<noteq> data then [slice mem data (if escaped then before - 1 else before)] else []) @
      (if length (case (if escaped then None else func name) of Some v \<Rightarrow> v | None \<Rightarrow> slice mem before after) > 0
       then [case (if escaped then None else func name) of Some v \<Rightarrow> v | None \<Rightarrow> slice mem before after] else []))
     (expand_loop func sm em mem fin after)"
  using assms by (subst expand_loop.simps) (cases escaped; cases "func name"; auto simp: Let_def)

lemma expand_loop_rendered:
  assumes "markers_ok sm em" "template_ok sm ts tail"
  shows "\<exists>out. expand_loop func sm em (pre @ render sm em ts tail @ 0 # r) (length (pre @ render sm em ts tail)) (length pre) =
    Expanded out \<and> concat out = meaning sm em func ts tail"
  using assms(2)
proof (induction ts arbitrary: pre)
  case Nil
  then have "cstr (drop (length pre) (pre @ tail @ 0 # r)) = tail" by (simp add: template_ok_def)
  then have "find_variable sm em (pre @ tail @ 0 # r) (length pre) = Not_found"
    using Nil by (subst find_variable.simps) (simp add: template_ok_def)
  then show ?case by (subst expand_loop.simps) (simp add: slice_def)
next
  case (Cons v ts)
  obtain t escaped name where v: "v = (t, escaped, name)" by (cases v)
  define lead where "lead = t @ (if escaped then [0x5c] else [])"
  define rest where "rest = render sm em ts tail"
  define pre' where "pre' = pre @ lead @ sm @ name @ em"
  have ok: "name \<noteq> []" "set name \<subseteq> set VARCHARS" "0 \<notin> set lead" "escaped \<or> t = [] \<or> last t \<noteq> 0x5c"
    "memmem (lead @ butlast sm) sm = None" "template_ok sm ts tail"
    using Cons.prems by (auto simp: v variable_ok_def template_ok_def lead_def)
  have rend: "pre @ render sm em (v # ts) tail = pre' @ rest"
    by (simp add: v lead_def rest_def pre'_def reference_text_def)
  obtain out where out: "expand_loop func sm em (pre' @ rest @ 0 # r) (length (pre' @ rest)) (length pre') = Expanded out"
    "concat out = meaning sm em func ts tail"
    using Cons.IH [OF ok(6), of pre'] by (auto simp: rest_def)
  have "0 \<notin> set rest"
    unfolding rest_def using ok(6) assms(1)
    by (induction ts) (auto simp: template_ok_def markers_ok_def variable_ok_def reference_text_def dest: subsetD [OF _ _, of _ _ 0])
  then have found: "find_variable sm em (pre' @ rest @ 0 # r) (length pre) = Found name (length pre + length lead) (length pre')"
    using find_variable_rendered [OF assms(1) ok(5,3,1,2), of rest pre r] by (simp add: pre'_def)
  have esc: "length pre + length lead \<noteq> length pre \<and> (pre' @ rest @ 0 # r) ! (length pre + length lead - 1) = 0x5c \<longleftrightarrow> escaped"
  proof (cases "lead = []")
    case False
    then have "(pre @ lead @ x) ! (length pre + length lead - 1) = last lead" for x
      by (cases lead rule: rev_cases) (auto simp: nth_append)
    then show ?thesis using False ok(4) by (auto simp: pre'_def lead_def)
  qed (simp add: lead_def split: if_splits)
  have lead_text: "(if length pre + length lead \<noteq> length pre then [slice (pre' @ rest @ 0 # r) (length pre)
      (if escaped then length pre + length lead - 1 else length pre + length lead)] else []) = (if lead = [] then [] else [t])"
    by (auto simp: slice_def pre'_def lead_def)
  have var: "slice (pre' @ rest @ 0 # r) (length pre + length lead) (length pre') = reference_text sm em name"
    by (simp add: slice_def pre'_def reference_text_def)
  define mem where "mem = pre' @ rest @ 0 # r"
  define fin where "fin = length (pre' @ rest)"
  define val where "val = (case (if escaped then None else func name) of Some v \<Rightarrow> v | None \<Rightarrow> reference_text sm em name)"
  have "expand_loop func sm em mem fin (length pre) =
    expand_prepend ((if lead = [] then [] else [t]) @ (if length val > 0 then [val] else [])) (Expanded out)"
    using expand_loop_Found [OF found [folded mem_def] _ esc [folded mem_def], of fin func] out(1)
    unfolding mem_def [symmetric] fin_def [symmetric] lead_text [folded mem_def] var [folded mem_def] val_def [symmetric]
    by (simp add: fin_def)
  moreover have "concat ((if lead = [] then [] else [t]) @ (if length val > 0 then [val] else [])) = t @ val"
    by (simp add: lead_def)
  moreover have "mem = pre @ render sm em (v # ts) tail @ 0 # r" "fin = length (pre @ render sm em (v # ts) tail)"
    using rend by (simp_all add: mem_def fin_def)
  ultimately show ?case using out(2) by (simp add: v val_def)
qed

section \<open>Properties\<close>

text \<open>The expansion of a C string never reads outside it, fails no assertion and ends; if no variable has a value and there is no
  escape character in it, the pieces are the input.\<close>

theorem template_c_string:
  assumes "0 \<notin> set s" "start_marker \<noteq> [] \<or> end_marker \<noteq> []"
  shows "\<exists>out. cockpit_template_expand (s @ 0 # r) (length s) start_marker end_marker func = Expanded out \<and>
    ((\<forall>n. func n = None) \<and> 0x5c \<notin> set s \<longrightarrow> concat out = s)"
  using expand_loop_c_string [of 0 s start_marker end_marker func r] assms by (simp add: cockpit_template_expand_def)

theorem template_c_string_witness:
  "\<exists>out. cockpit_template_expand ([1, 2, 65, 3] @ 0 # [1]) (length [1, 2, 65, 3 :: byte]) [1, 2] [3] (\<lambda>_. None) = Expanded out \<and> concat out = [1, 2, 65, 3]"
  using template_c_string [of "[1, 2, 65, 3]" "[1, 2]" "[3]" "[1]" "\<lambda>_. None"] by simp



section \<open>JSON\<close>

fun map_strings :: "(bytes \<Rightarrow> bytes) \<Rightarrow> json \<Rightarrow> json" where
  "map_strings f (JString s) = JString (f s)"
| "map_strings f (JArray a) = JArray (map (map_strings f) a)"
| "map_strings f (JObject ms) = JObject (map (\<lambda>(k, v). (k, map_strings f v)) ms)"
| "map_strings f v = v"

text \<open>The strings of json-glib are C strings.\<close>

fun c_strings :: "json \<Rightarrow> bool" where
  "c_strings (JString s) = (0 \<notin> set s)"
| "c_strings (JArray a) = (\<forall>v\<in>set a. c_strings v)"
| "c_strings (JObject ms) = (\<forall>(k, v)\<in>set ms. c_strings v)"
| "c_strings v = True"

definition expanded_string :: "bytes \<Rightarrow> bytes \<Rightarrow> (bytes \<Rightarrow> bytes option) \<Rightarrow> bytes \<Rightarrow> bytes" where
  "expanded_string sm em func s =
     (case cockpit_template_expand (s @ [0]) (length s) sm em func of Expanded out \<Rightarrow> cstr (concat out) | _ \<Rightarrow> s)"

lemma expanded_string_none: "memmem s sm = None \<Longrightarrow> 0 \<notin> set s \<Longrightarrow> expanded_string sm em func s = s"
proof -
  assume a: "memmem s sm = None" "0 \<notin> set s"
  then have "find_variable sm em (s @ [0]) 0 = Not_found" by (subst find_variable.simps) simp
  then show ?thesis using a by (simp add: expanded_string_def cockpit_template_expand_def expand_loop.simps)
qed

lemma walk_map_expand:
  assumes "sm \<noteq> [] \<or> em \<noteq> []"
  shows "c_strings v \<Longrightarrow> walk_map (template_walk_func sm em func) v = map_strings (expanded_string sm em func) v"
proof (induction v rule: c_strings.induct)
  case (1 s)
  then have s: "cstr s = s" by simp
  obtain out where "cockpit_template_expand (s @ [0]) (length s) sm em func = Expanded out"
    using expand_loop_c_string [of 0 s sm em func "[]"] assms 1 by (auto simp: cockpit_template_expand_def)
  then show ?case
    using s 1 expanded_string_none [of s sm em func] by (auto simp: template_walk_func_def Let_def expanded_string_def)
qed (auto simp: template_walk_func_def)

lemma walk_as_map:
  assumes "json_wf (JObject object)"
  shows "cockpit_json_walk object f = map (walk_member f) object"
proof (cases "\<exists>(k, v)\<in>set object. walk_changes f v")
  case False
  then have "map (walk_member f) object = object" by (intro map_idI) (auto simp: walk_map_id)
  then show ?thesis using False walk_eq(3) [of object "[]" None f] assms by (auto simp: cockpit_json_walk_def)
next
  case True
  then show ?thesis using walk_eq(3) [of object "[]" None f] assms by (auto simp: cockpit_json_walk_def)
qed

text \<open>Expanding a JSON object replaces every string of it, at every depth, by its expansion, and nothing else.\<close>

theorem template_expand_json_strings:
  assumes "json_wf (JObject object)" "c_strings (JObject object)" "start_marker \<noteq> [] \<or> end_marker \<noteq> []"
  shows "JObject (cockpit_template_expand_json object start_marker end_marker func) =
    map_strings (expanded_string start_marker end_marker func) (JObject object)"
  using assms walk_as_map [OF assms(1)] walk_map_expand [OF assms(3)] by (auto simp: cockpit_template_expand_json_def)

theorem template_expand_json_strings_witness:
  "JObject (cockpit_template_expand_json [([107], JArray [JString (asc ''@@b@@''), JNull])] (asc ''@@'') (asc ''@@'') (\<lambda>_. Some [1])) =
     map_strings (expanded_string (asc ''@@'') (asc ''@@'') (\<lambda>_. Some [1])) (JObject [([107], JArray [JString (asc ''@@b@@''), JNull])])"
  using template_expand_json_strings [of "[([107], JArray [JString (asc ''@@b@@''), JNull])]" "asc ''@@''" "asc ''@@''" "\<lambda>_. Some [1]"]
  by simp

text \<open>An input that is not a C string, as the contents of a mapped file or of a decompressed one are not: without a NUL behind it the search
  reads on, and a variable that it finds behind the end of the input fails an assertion.\<close>

lemma template_reads_on:
  "cockpit_template_expand (asc ''a'') 1 (asc ''@@'') (asc ''@@'') (\<lambda>_. None) = Expand_overrun \<and>
   cockpit_template_expand (asc ''a@@b@@'' @ [0]) 1 (asc ''@@'') (asc ''@@'') (\<lambda>_. None) = Expand_assert"
  by (simp add: cockpit_template_expand_def expand_loop.simps find_variable.simps cstr_def Let_def strspn_def VARCHARS_def)

end
