(* ===== verification/WebResponse.thy ===== *)
theory WebResponse
  imports HttpParse Template
begin

text \<open>
  \<^verbatim>\<open>src/common/cockpitwebresponse.c\<close>, the response to an HTTP request: its output queue, the filters on the body, the header block and the
  one shot functions.

  The record has the fields of the object and a log of what it did: blocks it queued, bytes it wrote, signals it emitted, failed assertions.  The result of each
  non-blocking write is an argument of the callback that does it.  Filters implement an interface; \<open>push\<close> is the function behind it, which gives
  the blocks that the filter passes on.  \<open>io\<close> says that the stream is there, \<open>source\<close> that a source of the main loop waits for it, and
  \<open>flushing\<close> counts the flushes that have not finished.
\<close>

section \<open>State\<close>

datatype cache_type = CACHE_UNSET | NO_CACHE | CACHE

datatype response_event =
    Sent bytes
  | Queued bytes
  | Flow_pressure bool
  | Signal_done bool
  | Response_critical
  | Assertion_failed

record 'f CockpitWebResponse =
  io :: bool
  path :: "bytes option"
  full_path :: "bytes option"
  url_root :: "bytes option"
  req_method :: bytes
  origin :: "bytes option"
  protocol :: bytes
  cache_type :: cache_type
  queue :: "bytes list"
  out_queued :: nat
  out_queueable :: nat
  partial_offset :: nat
  source :: bool
  count :: "32 word"
  complete :: bool
  failed :: bool
  is_done :: bool
  chunked :: bool
  keep_alive :: bool
  filters :: "'f list"
  flushing :: nat
  events :: "response_event list"

definition QUEUE_PRESSURE :: nat where
  "QUEUE_PRESSURE = 1024 * 1024"

definition G_MAXSIZE :: nat where
  "G_MAXSIZE = 2 ^ 64 - 1"

definition note_event :: "response_event \<Rightarrow> 'f CockpitWebResponse \<Rightarrow> 'f CockpitWebResponse" where
  "note_event ev self = self\<lparr>events := events self @ [ev]\<rparr>"

definition response_assert :: "bool \<Rightarrow> 'f CockpitWebResponse \<Rightarrow> 'f CockpitWebResponse" where
  "response_assert b self = (if b then self else note_event Assertion_failed self)"

text \<open>\<open>pollable\<close>: the stream has an output stream that can be polled.\<close>

definition cockpit_web_response_new ::
    "bool \<Rightarrow> bytes option \<Rightarrow> bytes option \<Rightarrow> headers option \<Rightarrow> bytes \<Rightarrow> bytes option \<Rightarrow> 'f CockpitWebResponse" where
  "cockpit_web_response_new pollable original pth in_headers meth proto =
     (let connection = (case in_headers of Some h \<Rightarrow> headers_lookup h (asc ''Connection'') | None \<Rightarrow> None);
          host = (case in_headers of Some h \<Rightarrow> headers_lookup h (asc ''Host'') | None \<Rightarrow> None);
          proto = (case proto of Some p \<Rightarrow> p | None \<Rightarrow> asc ''http'')
      in \<lparr>io = pollable, path = pth, full_path = pth,
          url_root = (case (pth, original) of
             (Some p, Some orig) \<Rightarrow>
               let offset = length orig - length p in
               if length orig > length p \<and> drop offset orig = p then Some (take offset orig) else None
           | _ \<Rightarrow> None),
          req_method = meth,
          origin = map_option (\<lambda>h. proto @ asc ''://'' @ h) host,
          protocol = proto, cache_type = CACHE_UNSET, queue = [], out_queued = 0, out_queueable = G_MAXSIZE,
          partial_offset = 0, source = False, count = 0, complete = False, failed = False, is_done = False, chunked = False,
          keep_alive = (case connection of Some c \<Rightarrow> c = asc ''keep-alive'' | None \<Rightarrow> True),
          filters = [], flushing = 0, events = (if pollable then [] else [Response_critical])\<rparr>)"

section \<open>Output\<close>

definition cockpit_web_response_done :: "'f CockpitWebResponse \<Rightarrow> 'f CockpitWebResponse" where
  "cockpit_web_response_done self =
     (let self = response_assert (\<not> is_done self) self;
          self = self\<lparr>is_done := True, source := False\<rparr>;
          reusable = (complete self \<and> \<not> failed self \<and> keep_alive self);
          self = (if \<not> complete self \<and> \<not> failed self then note_event Response_critical self else self);
          self = note_event (Signal_done reusable) self
      in self\<lparr>io := False\<rparr>)"

definition cockpit_web_response_dispose :: "'f CockpitWebResponse \<Rightarrow> 'f CockpitWebResponse" where
  "cockpit_web_response_dispose self =
     (if \<not> is_done self then cockpit_web_response_done self else self)\<lparr>filters := []\<rparr>"

definition on_output_flushed :: "'f CockpitWebResponse \<Rightarrow> bool \<Rightarrow> 'f CockpitWebResponse" where
  "on_output_flushed self ok =
     (let self = self\<lparr>flushing := flushing self - 1\<rparr>;
          self = (if ok then self else self\<lparr>failed := True\<rparr>)
      in cockpit_web_response_done self)"

datatype output_result = Written nat | Would_block | Output_error

text \<open>The boolean is what the callback returns: whether the main loop keeps the source.\<close>

definition on_response_output :: "'f CockpitWebResponse \<Rightarrow> output_result \<Rightarrow> 'f CockpitWebResponse \<times> bool" where
  "on_response_output self outcome =
     (case queue self of
        block # rest \<Rightarrow>
          let self = response_assert (length block = 0 \<or> partial_offset self < length block) self;
              data = drop (partial_offset self) block;
              before = out_queued self
          in
          (case (if data \<noteq> [] then outcome else Written 0) of
             Would_block \<Rightarrow> (self, True)
           | Output_error \<Rightarrow> (cockpit_web_response_done (self\<lparr>failed := True\<rparr>), False)
           | Written n \<Rightarrow>
               let self = note_event (Sent (take n data)) self;
                   self = (if n = length data then
                             (response_assert (length block \<le> out_queued self) self)
                               \<lparr>partial_offset := 0, queue := rest, out_queued := out_queued self - length block\<rparr>
                           else (response_assert (n < length data) self)\<lparr>partial_offset := partial_offset self + n\<rparr>);
                   self = (if before \<ge> QUEUE_PRESSURE \<and> out_queued self < QUEUE_PRESSURE
                           then note_event (Flow_pressure False) self else self)
               in (self, True))
      | [] \<Rightarrow>
          let self = self\<lparr>source := False\<rparr> in
          (if complete self then self\<lparr>flushing := flushing self + 1\<rparr> else self, False))"

definition queue_bytes :: "'f CockpitWebResponse \<Rightarrow> bytes \<Rightarrow> 'f CockpitWebResponse" where
  "queue_bytes self block =
     (let len = length block; before = out_queued self in
      if \<not> (G_MAXSIZE - len > out_queued self) then note_event Response_critical self
      else
        let self = note_event (Queued block)
                     (self\<lparr>out_queued := out_queued self + len, queue := queue self @ [block], count := count self + 1\<rparr>);
            self = (if \<not> source self then
                      (if io self then self\<lparr>source := True\<rparr> else note_event Response_critical self)
                    else self)
        in if before < QUEUE_PRESSURE \<and> out_queued self \<ge> QUEUE_PRESSURE
           then note_event (Flow_pressure True) self else self)"

text \<open>\<^verbatim>\<open>printf("%x")\<close>.\<close>

definition hex_digit :: "nat \<Rightarrow> byte" where
  "hex_digit d = (if d < 10 then 48 + of_nat d else 87 + of_nat d)"

fun hex_number :: "nat \<Rightarrow> bytes" where
  "hex_number n = (if n < 16 then [hex_digit n] else hex_number (n div 16) @ [hex_digit (n mod 16)])"

declare hex_number.simps [simp del]

definition crlf :: bytes where
  "crlf = [13, 10]"

definition queue_block :: "'f CockpitWebResponse \<Rightarrow> bytes \<Rightarrow> 'f CockpitWebResponse" where
  "queue_block self block =
     (let len = length block in
      if len = 0 then self
      else if out_queueable self < len then note_event Response_critical self
      else
        let self = self\<lparr>out_queueable := out_queueable self - len\<rparr> in
        if \<not> chunked self then queue_bytes self block
        else queue_bytes (queue_bytes (queue_bytes self (hex_number (len mod 2 ^ 32) @ crlf)) block) crlf)"

text \<open>\<^verbatim>\<open>QueueStep.filters\<close> is the rest of the list of filters; \<open>k\<close> is how many there are.\<close>

fun queue_filter :: "('f \<Rightarrow> bytes \<Rightarrow> 'f \<times> bytes list) \<Rightarrow> nat \<Rightarrow> bytes \<Rightarrow> 'f CockpitWebResponse \<Rightarrow> 'f CockpitWebResponse" where
  "queue_filter push 0 block self = queue_block self block"
| "queue_filter push (Suc k) block self =
     (let i = length (filters self) - Suc k;
          (f, out) = push (filters self ! i) block
      in foldl (\<lambda>self b. queue_filter push k b self) (self\<lparr>filters := (filters self)[i := f]\<rparr>) out)"

definition cockpit_web_response_queue ::
    "('f \<Rightarrow> bytes \<Rightarrow> 'f \<times> bytes list) \<Rightarrow> 'f CockpitWebResponse \<Rightarrow> bytes \<Rightarrow> 'f CockpitWebResponse \<times> bool" where
  "cockpit_web_response_queue push self block =
     (if complete self then (note_event Response_critical self, False)
      else if failed self then (self, False)
      else if req_method self = asc ''HEAD'' then (self, True)
      else (queue_filter push (length (filters self)) block self, True))"

definition last_chunk :: bytes where
  "last_chunk = [48] @ crlf @ crlf"

definition cockpit_web_response_complete :: "'f CockpitWebResponse \<Rightarrow> 'f CockpitWebResponse" where
  "cockpit_web_response_complete self =
     (if complete self then note_event Response_critical self
      else if failed self then self
      else
        let self = self\<lparr>complete := True\<rparr>;
            self = (if chunked self then queue_bytes self last_chunk else self)
        in if source self then self else self\<lparr>flushing := flushing self + 1\<rparr>)"

definition cockpit_web_response_abort :: "'f CockpitWebResponse \<Rightarrow> 'f CockpitWebResponse" where
  "cockpit_web_response_abort self =
     (if complete self then note_event Response_critical self
      else if failed self then self
      else cockpit_web_response_done (self\<lparr>complete := True, failed := True\<rparr>))"

datatype CockpitWebResponding = RESPONSE_READY | RESPONSE_QUEUING | RESPONSE_COMPLETE | RESPONSE_SENT

definition cockpit_web_response_get_state :: "'f CockpitWebResponse \<Rightarrow> CockpitWebResponding" where
  "cockpit_web_response_get_state self =
     (if is_done self then RESPONSE_SENT
      else if complete self then RESPONSE_COMPLETE
      else if count self = 0 then RESPONSE_READY
      else RESPONSE_QUEUING)"

definition cockpit_web_response_add_filter :: "'f CockpitWebResponse \<Rightarrow> 'f \<Rightarrow> 'f CockpitWebResponse" where
  "cockpit_web_response_add_filter self filt =
     (if count self \<noteq> 0 then note_event Response_critical self else self\<lparr>filters := filters self @ [filt]\<rparr>)"

definition cockpit_web_response_set_cache_type :: "'f CockpitWebResponse \<Rightarrow> cache_type \<Rightarrow> 'f CockpitWebResponse" where
  "cockpit_web_response_set_cache_type self ct = self\<lparr>cache_type := ct\<rparr>"

section \<open>Headers\<close>

definition cockpit_web_response_is_simple_token :: "bytes \<Rightarrow> bool" where
  "cockpit_web_response_is_simple_token s \<longleftrightarrow> strcspn s [32, 9, 13, 10, 11] = length s"

definition cockpit_web_response_is_header_value :: "bytes \<Rightarrow> bool" where
  "cockpit_web_response_is_header_value s \<longleftrightarrow> strcspn s [13, 10, 11] = length s"

definition HEADER_CONTENT_TYPE :: "32 word" where
  "HEADER_CONTENT_TYPE = 1"

definition HEADER_CONTENT_ENCODING :: "32 word" where
  "HEADER_CONTENT_ENCODING = 2"

definition HEADER_VARY :: "32 word" where
  "HEADER_VARY = 4"

definition HEADER_CACHE_CONTROL :: "32 word" where
  "HEADER_CACHE_CONTROL = 8"

definition HEADER_DNS_PREFETCH_CONTROL :: "32 word" where
  "HEADER_DNS_PREFETCH_CONTROL = 16"

definition HEADER_REFERRER_POLICY :: "32 word" where
  "HEADER_REFERRER_POLICY = 32"

definition HEADER_CONTENT_TYPE_OPTIONS :: "32 word" where
  "HEADER_CONTENT_TYPE_OPTIONS = 64"

definition HEADER_CROSS_ORIGIN_RESOURCE_POLICY :: "32 word" where
  "HEADER_CROSS_ORIGIN_RESOURCE_POLICY = 128"

definition HEADER_X_FRAME_OPTIONS :: "32 word" where
  "HEADER_X_FRAME_OPTIONS = 256"


lemmas header_flags = HEADER_CONTENT_TYPE_def HEADER_CONTENT_ENCODING_def HEADER_VARY_def HEADER_CACHE_CONTROL_def
  HEADER_DNS_PREFETCH_CONTROL_def HEADER_REFERRER_POLICY_def HEADER_CONTENT_TYPE_OPTIONS_def
  HEADER_CROSS_ORIGIN_RESOURCE_POLICY_def HEADER_X_FRAME_OPTIONS_def

definition begin_headers :: "nat \<Rightarrow> bytes \<Rightarrow> bytes" where
  "begin_headers status reason = asc ''HTTP/1.1 '' @ dec_digits status @ [32] @ reason @ crlf"

text \<open>The flag of a header, which is returned even if its value is \<^verbatim>\<open>NULL\<close> and the header is not added.\<close>

definition header_line :: "bytes \<Rightarrow> bytes \<Rightarrow> bytes" where
  "header_line name v = name @ [58, 32] @ v @ crlf"

definition header_flag :: "bytes \<Rightarrow> 32 word" where
  "header_flag name =
     (if str_case_equal (asc ''Content-Type'') name then HEADER_CONTENT_TYPE
      else if str_case_equal (asc ''Cache-Control'') name then HEADER_CACHE_CONTROL
      else if str_case_equal (asc ''Vary'') name then HEADER_VARY
      else if str_case_equal (asc ''Content-Encoding'') name then HEADER_CONTENT_ENCODING
      else if str_case_equal (asc ''X-DNS-Prefetch-Control'') name then HEADER_DNS_PREFETCH_CONTROL
      else if str_case_equal (asc ''Referrer-Policy'') name then HEADER_REFERRER_POLICY
      else if str_case_equal (asc ''X-Content-Type-Options'') name then HEADER_CONTENT_TYPE_OPTIONS
      else if str_case_equal (asc ''Cross-Origin-Resource-Policy'') name then HEADER_CROSS_ORIGIN_RESOURCE_POLICY
      else if str_case_equal (asc ''X-Frame-Options'') name then HEADER_X_FRAME_OPTIONS
      else 0)"

definition append_header :: "bytes \<Rightarrow> bytes \<Rightarrow> bytes option \<Rightarrow> bytes \<times> 32 word" where
  "append_header str name v =
     (case v of
        Some v \<Rightarrow>
          if \<not> cockpit_web_response_is_simple_token name then (str, 0)
          else if \<not> cockpit_web_response_is_header_value v then (str, 0)
          else (str @ header_line name v, header_flag name)
      | None \<Rightarrow> (str, header_flag name))"

text \<open>The table in the order of its iteration, or the variable arguments.\<close>

fun append_table :: "bytes \<Rightarrow> (bytes \<times> bytes option) list \<Rightarrow> bytes \<times> 32 word" where
  "append_table str [] = (str, 0)"
| "append_table str ((name, v) # headers) =
     (let (str, flag) = append_header str name v; (str, seen) = append_table str headers in (str, flag OR seen))"

definition content_types :: "(bytes \<times> bytes) list" where
  "content_types =
     [(asc ''.css'', asc ''text/css''), (asc ''.gif'', asc ''image/gif''), (asc ''.eot'', asc ''application/vnd.ms-fontobject''),
      (asc ''.html'', asc ''text/html''), (asc ''.jpg'', asc ''image/jpg''), (asc ''.js'', asc ''application/javascript''),
      (asc ''.json'', asc ''application/json''), (asc ''.otf'', asc ''font/opentype''), (asc ''.png'', asc ''image/png''),
      (asc ''.svg'', asc ''image/svg+xml''), (asc ''.ttf'', asc ''application/octet-stream''), (asc ''.txt'', asc ''text/plain''),
      (asc ''.wasm'', asc ''application/wasm''), (asc ''.woff'', asc ''application/font-woff''), (asc ''.xml'', asc ''text/xml'')]"

definition ends_with :: "bytes \<Rightarrow> bytes \<Rightarrow> bool" where
  "ends_with s suf \<longleftrightarrow> length suf \<le> length s \<and> drop (length s - length suf) s = suf"

definition cockpit_web_response_content_type :: "bytes \<Rightarrow> bytes option" where
  "cockpit_web_response_content_type pth =
     map_option snd (List.find (\<lambda>(ext, _). ends_with pth ext) content_types)"

definition success_status :: "int \<Rightarrow> bool" where
  "success_status status \<longleftrightarrow> 200 \<le> status \<and> status \<le> 299"

text \<open>A decimal number with its sign, as \<^verbatim>\<open>%zd\<close> prints it.\<close>

definition signed_digits :: "int \<Rightarrow> bytes" where
  "signed_digits n = (if n < 0 then [45] @ dec_digits (nat (- n)) else dec_digits (nat n))"

definition finish_type :: "'f CockpitWebResponse \<Rightarrow> int \<Rightarrow> 32 word \<Rightarrow> bytes" where
  "finish_type self status seen =
     (case full_path self of
        Some p \<Rightarrow>
          if seen AND HEADER_CONTENT_TYPE = 0 \<and> success_status status then
            (case cockpit_web_response_content_type p of Some t \<Rightarrow> header_line (asc ''Content-Type'') t | None \<Rightarrow> [])
          else []
      | None \<Rightarrow> [])"

definition finish_length :: "'f CockpitWebResponse \<Rightarrow> int \<Rightarrow> int \<Rightarrow> 32 word \<Rightarrow> 'f CockpitWebResponse \<times> bytes" where
  "finish_length self len status seen =
     (if status \<noteq> 304 then
        (if len < 0 \<or> seen AND HEADER_CONTENT_ENCODING \<noteq> 0 \<or> filters self \<noteq> []
         then (self\<lparr>chunked := True\<rparr>, header_line (asc ''Transfer-Encoding'') (asc ''chunked''))
         else (self\<lparr>chunked := False, out_queueable := nat len\<rparr>, header_line (asc ''Content-Length'') (signed_digits len)))
      else (self, []))"

definition finish_cache :: "'f CockpitWebResponse \<Rightarrow> int \<Rightarrow> 32 word \<Rightarrow> bytes" where
  "finish_cache self status seen =
     (if seen AND HEADER_CACHE_CONTROL = 0 \<and> success_status status then
        (case cache_type self of
           NO_CACHE \<Rightarrow> header_line (asc ''Cache-Control'') (asc ''no-cache, no-store'')
         | CACHE \<Rightarrow> header_line (asc ''Cache-Control'') (asc ''max-age=86400, private'')
         | CACHE_UNSET \<Rightarrow> [])
      else []) @
     (if seen AND HEADER_VARY = 0 \<and> success_status status \<and> cache_type self = CACHE
      then header_line (asc ''Vary'') (asc ''Cookie'') else [])"

definition unless_seen :: "32 word \<Rightarrow> 32 word \<Rightarrow> bytes \<Rightarrow> bytes" where
  "unless_seen seen flag line = (if seen AND flag = 0 then line else [])"

definition finish_security :: "32 word \<Rightarrow> bytes" where
  "finish_security seen =
     unless_seen seen HEADER_DNS_PREFETCH_CONTROL (header_line (asc ''X-DNS-Prefetch-Control'') (asc ''off'')) @
     unless_seen seen HEADER_REFERRER_POLICY (header_line (asc ''Referrer-Policy'') (asc ''no-referrer'')) @
     unless_seen seen HEADER_CONTENT_TYPE_OPTIONS (header_line (asc ''X-Content-Type-Options'') (asc ''nosniff'')) @
     unless_seen seen HEADER_CROSS_ORIGIN_RESOURCE_POLICY (header_line (asc ''Cross-Origin-Resource-Policy'') (asc ''same-origin'')) @
     unless_seen seen HEADER_X_FRAME_OPTIONS (header_line (asc ''X-Frame-Options'') (asc ''sameorigin''))"

definition finish_headers ::
    "'f CockpitWebResponse \<Rightarrow> bytes \<Rightarrow> int \<Rightarrow> int \<Rightarrow> 32 word \<Rightarrow> 'f CockpitWebResponse \<times> bytes" where
  "finish_headers self str len status seen =
     (case finish_length self len status seen of
        (self', framing) \<Rightarrow>
          (self',
           str @ finish_type self status seen @ framing @ finish_cache self' status seen @
           (if \<not> keep_alive self' then header_line (asc ''Connection'') (asc ''close'') else []) @
           finish_security seen @ crlf))"

text \<open>\<^verbatim>\<open>cockpit_web_response_headers\<close> and \<^verbatim>\<open>cockpit_web_response_headers_full\<close>, which differ in how the headers are passed.\<close>

definition cockpit_web_response_headers ::
    "'f CockpitWebResponse \<Rightarrow> nat \<Rightarrow> bytes \<Rightarrow> int \<Rightarrow> (bytes \<times> bytes option) list \<Rightarrow> 'f CockpitWebResponse" where
  "cockpit_web_response_headers self status reason len headers =
     (if count self > 0 then note_event Response_critical self
      else
        let (str, seen) = append_table (begin_headers status reason) headers;
            (self, block) = finish_headers self str len (int status) seen
        in queue_bytes self block)"

section \<open>One shot responses\<close>

fun queue_blocks ::
    "('f \<Rightarrow> bytes \<Rightarrow> 'f \<times> bytes list) \<Rightarrow> 'f CockpitWebResponse \<Rightarrow> bytes list \<Rightarrow> 'f CockpitWebResponse \<times> bool" where
  "queue_blocks push self [] = (self, True)"
| "queue_blocks push self (b # bs) =
     (case cockpit_web_response_queue push self b of
        (self, True) \<Rightarrow> queue_blocks push self bs
      | (self, False) \<Rightarrow> (self, False))"

definition queue_and_complete ::
    "('f \<Rightarrow> bytes \<Rightarrow> 'f \<times> bytes list) \<Rightarrow> 'f CockpitWebResponse \<Rightarrow> bytes list \<Rightarrow> 'f CockpitWebResponse" where
  "queue_and_complete push self blocks =
     (case queue_blocks push self blocks of
        (self, True) \<Rightarrow> cockpit_web_response_complete self
      | (self, False) \<Rightarrow> self)"

text \<open>The length is a \<^verbatim>\<open>gsize\<close> that is passed as a \<^verbatim>\<open>gssize\<close>.\<close>

definition gssize :: "nat \<Rightarrow> int" where
  "gssize n = sint (word_of_nat n :: 64 word)"

definition cockpit_web_response_content ::
    "('f \<Rightarrow> bytes \<Rightarrow> 'f \<times> bytes list) \<Rightarrow> 'f CockpitWebResponse \<Rightarrow> (bytes \<times> bytes option) list \<Rightarrow> bytes list \<Rightarrow> 'f CockpitWebResponse" where
  "cockpit_web_response_content push self headers blocks =
     queue_and_complete push
       (cockpit_web_response_headers self 200 (asc ''OK'') (gssize (length (concat blocks))) headers) blocks"

definition substitute_message :: "bytes \<Rightarrow> bytes \<Rightarrow> bytes option" where
  "substitute_message message variable = (if variable = asc ''message'' then Some message else None)"

definition substitute_hash_value :: "(bytes \<rightharpoonup> bytes) \<Rightarrow> bytes \<Rightarrow> bytes option" where
  "substitute_hash_value data variable = (case data variable of Some v \<Rightarrow> Some v | None \<Rightarrow> Some [])"

text \<open>\<^verbatim>\<open>g_uri_escape_string\<close> without UTF-8: every byte but the unreserved characters and the ones allowed.\<close>

definition upper_hex :: "nat \<Rightarrow> byte" where
  "upper_hex d = (if d < 10 then 48 + of_nat d else 55 + of_nat d)"

definition g_uri_escape_string :: "bytes \<Rightarrow> bytes \<Rightarrow> bytes" where
  "g_uri_escape_string s allowed =
     concat (map (\<lambda>b. if is_alnum b \<or> b \<in> {45, 46, 95, 126} \<or> b \<in> set allowed then [b]
                      else [37, upper_hex (unat b div 16), upper_hex (unat b mod 16)]) s)"

definition error_message :: "nat \<Rightarrow> bytes" where
  "error_message code =
     (if code = 400 then asc ''Bad request''
      else if code = 401 then asc ''Not Authorized''
      else if code = 403 then asc ''Forbidden''
      else if code = 404 then asc ''Not Found''
      else if code = 405 then asc ''Method Not Allowed''
      else if code = 413 then asc ''Request Entity Too Large''
      else if code = 502 then asc ''Remote Page is Unavailable''
      else if code = 500 then asc ''Internal Server Error''
      else if code < 100 then dec_digits code @ asc '' Continue''
      else if code < 200 then dec_digits code @ asc '' OK''
      else if code < 300 then dec_digits code @ asc '' Moved''
      else dec_digits code @ asc '' Failed'')"

definition html_type :: bytes where
  "html_type = asc ''text/html; charset=utf8''"

text \<open>\<open>fail_html\<close> is the page that the build makes of \<^verbatim>\<open>fail.html\<close>, a C string.\<close>

definition cockpit_web_response_error_with_body ::
    "('f \<Rightarrow> bytes \<Rightarrow> 'f \<times> bytes list) \<Rightarrow> bytes \<Rightarrow> 'f CockpitWebResponse \<Rightarrow> nat \<Rightarrow> bytes option \<Rightarrow> headers option \<Rightarrow> bytes option \<Rightarrow>
     'f CockpitWebResponse" where
  "cockpit_web_response_error_with_body push fail_html self code reason headers body =
     (let message = (case reason of Some r \<Rightarrow> g_uri_escape_string r (asc '' :'') | None \<Rightarrow> error_message code);
          table = (case headers of
                     Some h \<Rightarrow> if headers_lookup h (asc ''Content-Type'') = None then headers_insert h (asc ''Content-Type'') html_type else h
                   | None \<Rightarrow> [(asc ''Content-Type'', html_type)]);
          self = cockpit_web_response_headers self code message (- 1) (map (\<lambda>(n, v). (n, Some v)) table)
      in
      if req_method self = asc ''HEAD'' then cockpit_web_response_complete self
      else case body of
          Some b \<Rightarrow> cockpit_web_response_complete (fst (cockpit_web_response_queue push self b))
        | None \<Rightarrow>
            (case cockpit_template_expand (fail_html @ [0]) (length fail_html) (asc ''@@'') (asc ''@@'') (substitute_message message) of
               Expanded out \<Rightarrow> queue_and_complete push self out
             | _ \<Rightarrow> note_event Assertion_failed self))"

datatype response_error = ERROR_AUTHENTICATION_FAILED | ERROR_PERMISSION_DENIED | ERROR_INVALID_DATA | ERROR_NO_SPACE | ERROR_other

definition cockpit_web_response_gerror ::
    "('f \<Rightarrow> bytes \<Rightarrow> 'f \<times> bytes list) \<Rightarrow> bytes \<Rightarrow> 'f CockpitWebResponse \<Rightarrow> headers option \<Rightarrow> bytes option \<Rightarrow> response_error \<times> bytes \<Rightarrow>
     'f CockpitWebResponse" where
  "cockpit_web_response_gerror push fail_html self headers body err =
     (let code = (case fst err of
                    ERROR_AUTHENTICATION_FAILED \<Rightarrow> 401
                  | ERROR_PERMISSION_DENIED \<Rightarrow> 403
                  | ERROR_INVALID_DATA \<Rightarrow> 400
                  | ERROR_NO_SPACE \<Rightarrow> 413
                  | ERROR_other \<Rightarrow> 500)
      in cockpit_web_response_error_with_body push fail_html self code (Some (snd err)) headers body)"

section \<open>The path of the request\<close>

text \<open>The next component, and the response with the rest of the path.\<close>

definition response_next_path :: "'f CockpitWebResponse \<Rightarrow> 'f CockpitWebResponse \<times> bytes option" where
  "response_next_path self =
     (case path self of
        Some (c # beg) \<Rightarrow>
          if c = 47 then
            (case memchr beg 47 of
               Some i \<Rightarrow> if i = 0 then (self, None) else (self\<lparr>path := Some (drop i beg)\<rparr>, Some (take i beg))
             | None \<Rightarrow> (self\<lparr>path := None\<rparr>, if beg \<noteq> [] then Some beg else None))
          else (self, None)
      | _ \<Rightarrow> (self, None))"

definition cockpit_web_response_skip_path :: "'f CockpitWebResponse \<Rightarrow> 'f CockpitWebResponse \<times> bool" where
  "cockpit_web_response_skip_path self = (case response_next_path self of (self, c) \<Rightarrow> (self, c \<noteq> None))"

definition cockpit_web_response_pop_path :: "'f CockpitWebResponse \<Rightarrow> 'f CockpitWebResponse \<times> bytes option" where
  "cockpit_web_response_pop_path self = response_next_path self"

end
