(* ===== verification/WebServer.thy ===== *)
theory WebServer
  imports WebResponse
begin

text \<open>
  \<^verbatim>\<open>src/common/cockpitwebserver.c\<close>: the HTTP server of \<^verbatim>\<open>cockpit-ws\<close>.  A connection has one request at a time; the request collects bytes until the
  request line, the headers and the announced content are there, and is then answered with an error, redirected to TLS, claimed by a handler of the stream or
  given to the handlers of the resource with a response.  When the response is done, the next request starts on the same stream or the stream is closed.

  The record of a request has the fields of the C structure.  Of its stream it keeps whether it is a TLS connection, whether the local address is a loopback
  address, and the metadata that came with it.  \<open>rq_live\<close> says that the request is in the table of the server; \<open>rq_source\<close> is the source that waits for input.
  The log has what was done to the stream and what was reported.  Handlers are connected by the users of the server and are parameters.
\<close>

section \<open>The server\<close>

record CockpitWebServer =
  certificate :: bool
  ssl_exception_prefix :: bytes
  server_url_root :: bytes
  server_flags :: "32 word"
  protocol_header :: "bytes option"
  forwarded_for_header :: "bytes option"

definition COCKPIT_WEB_SERVER_FOR_TLS_PROXY :: "32 word" where
  "COCKPIT_WEB_SERVER_FOR_TLS_PROXY = 1"

definition COCKPIT_WEB_SERVER_REDIRECT_TLS :: "32 word" where
  "COCKPIT_WEB_SERVER_REDIRECT_TLS = 2"

definition cockpit_webserver_request_maximum :: nat where
  "cockpit_webserver_request_maximum = 8192"

definition cockpit_web_server_new :: "bool \<Rightarrow> 32 word \<Rightarrow> CockpitWebServer" where
  "cockpit_web_server_new cert flags =
     \<lparr>certificate = cert, ssl_exception_prefix = [], server_url_root = [], server_flags = flags,
      protocol_header = None, forwarded_for_header = None\<rparr>"

definition strip_slashes :: "bytes \<Rightarrow> bytes" where
  "strip_slashes str =
     (let str = dropWhile (\<lambda>b. b = 47) str in
      if str \<noteq> [] then rev (dropWhile (\<lambda>b. b = 47) (rev str)) else str)"

definition set_url_root :: "CockpitWebServer \<Rightarrow> bytes option \<Rightarrow> CockpitWebServer" where
  "set_url_root server v =
     (let str = strip_slashes (case v of Some s \<Rightarrow> s | None \<Rightarrow> [])
      in server\<lparr>server_url_root := (if str \<noteq> [] then 47 # str else str)\<rparr>)"

definition set_ssl_exception_prefix :: "CockpitWebServer \<Rightarrow> bytes \<Rightarrow> CockpitWebServer" where
  "set_ssl_exception_prefix server v = server\<lparr>ssl_exception_prefix := v\<rparr>"

definition cockpit_web_server_set_protocol_header :: "CockpitWebServer \<Rightarrow> bytes option \<Rightarrow> CockpitWebServer" where
  "cockpit_web_server_set_protocol_header self h = self\<lparr>protocol_header := h\<rparr>"

definition cockpit_web_server_set_forwarded_for_header :: "CockpitWebServer \<Rightarrow> bytes option \<Rightarrow> CockpitWebServer" where
  "cockpit_web_server_set_forwarded_for_header self h = self\<lparr>forwarded_for_header := h\<rparr>"

section \<open>Cookies\<close>

text \<open>\<^verbatim>\<open>g_uri_unescape_segment\<close>: escaped bytes are decoded; a bad escape, an escaped NUL or a result that is not UTF-8 is an error.\<close>

definition xdigit_value :: "byte \<Rightarrow> nat option" where
  "xdigit_value b =
     (if 48 \<le> b \<and> b \<le> 57 then Some (unat b - 48)
      else if 97 \<le> b \<and> b \<le> 102 then Some (unat b - 87)
      else if 65 \<le> b \<and> b \<le> 70 then Some (unat b - 55)
      else None)"

fun unescape_bytes :: "bytes \<Rightarrow> bytes option" where
  "unescape_bytes [] = Some []"
| "unescape_bytes (b # s) =
     (if b = 37 then
        (case s of
           h # l # s' \<Rightarrow>
             (case (xdigit_value h, xdigit_value l) of
                (Some x, Some y) \<Rightarrow>
                  if 16 * x + y = 0 then None
                  else map_option (Cons (of_nat (16 * x + y))) (unescape_bytes s')
              | _ \<Rightarrow> None)
         | _ \<Rightarrow> None)
      else map_option (Cons b) (unescape_bytes s))"

definition g_uri_unescape_segment :: "bytes \<Rightarrow> bytes option" where
  "g_uri_unescape_segment s = (case unescape_bytes s of Some d \<Rightarrow> if g_utf8_validate d then Some d else None | None \<Rightarrow> None)"

text \<open>The loop that looks back from the name over blanks for a semicolon.  It stops before the first byte of the string.\<close>

fun cookie_at_start :: "bytes \<Rightarrow> nat \<Rightarrow> bool" where
  "cookie_at_start header 0 = False"
| "cookie_at_start header (Suc i) =
     (if i = 0 then False
      else if \<not> g_ascii_isspace (header ! i) then header ! i = 59
      else cookie_at_start header i)"

function parse_cookie_loop :: "bytes \<Rightarrow> bytes \<Rightarrow> bool \<Rightarrow> bytes option" where
  "parse_cookie_loop header name at_start =
     (if name = [] then None
      else case memmem header name of
        None \<Rightarrow> None
      | Some pos \<Rightarrow>
          let at_start = (if pos \<noteq> 0 then cookie_at_start header pos else at_start);
              rest = drop (pos + length name) header
          in
          if rest \<noteq> [] \<and> hd rest = 61 \<and> at_start
          then g_uri_unescape_segment (takeWhile (\<lambda>b. b \<noteq> 59) (tl rest))
          else parse_cookie_loop rest name False)"
  by pat_completeness auto
termination
  by (relation "measure (\<lambda>(header, _, _). length header)") (auto dest!: memmem_Some intro!: diff_less)

declare parse_cookie_loop.simps [simp del]

text \<open>The name of a cookie is not empty.\<close>

definition cockpit_web_server_parse_cookie :: "headers \<Rightarrow> bytes \<Rightarrow> bytes option" where
  "cockpit_web_server_parse_cookie headers name =
     (case headers_lookup headers (asc ''Cookie'') of
        None \<Rightarrow> None
      | Some header \<Rightarrow> parse_cookie_loop header name True)"

section \<open>Accept lists\<close>

text \<open>\<open>strtod\<close> is \<^verbatim>\<open>g_ascii_strtod\<close>, whose numbers are ordered (so not a NaN), and \<open>tenth\<close> is \<^verbatim>\<open>0.1\<close>.\<close>

record 'q Language =
  qvalue :: 'q
  lang_value :: bytes

definition accept_item :: "(bytes \<Rightarrow> 'q :: {linorder, zero, one}) \<Rightarrow> bytes \<Rightarrow> 'q Language" where
  "accept_item strtod item =
     (case memchr item 59 of
        None \<Rightarrow> \<lparr>qvalue = 1, lang_value = item\<rparr>
      | Some pos \<Rightarrow>
          \<lparr>qvalue =
             (if take 2 (drop (pos + 1) item) = asc ''q='' then
                let q = strtod (drop (pos + 3) item) in if q < 0 then 0 else q
              else 1),
           lang_value = take pos item\<rparr>)"

function accept_items :: "bytes \<Rightarrow> bytes list" where
  "accept_items accept =
     (case memchr accept 44 of
        None \<Rightarrow> [accept]
      | Some i \<Rightarrow> take i accept # accept_items (drop (i + 1) accept))"
  by pat_completeness auto
termination
  by (relation "measure length") (auto simp: memchr_Some_iff)

declare accept_items.simps [simp del]

text \<open>\<^verbatim>\<open>g_ptr_array_sort\<close> is stable.\<close>

definition sort_qvalue :: "'q :: linorder Language list \<Rightarrow> 'q Language list" where
  "sort_qvalue langs = rev (sort_key qvalue (rev langs))"

definition base_language :: "'q Language \<Rightarrow> bytes option" where
  "base_language lang =
     (case memchr (lang_value lang) 45 of
        Some pos \<Rightarrow> Some (g_strstrip (map to_lower (take pos (lang_value lang))))
      | None \<Rightarrow> None)"

definition cockpit_web_server_parse_accept_list ::
    "(bytes \<Rightarrow> 'q :: {linorder, zero, one}) \<Rightarrow> 'q \<Rightarrow> bytes option \<Rightarrow> bytes option \<Rightarrow> bytes list" where
  "cockpit_web_server_parse_accept_list strtod tenth accept defawlt =
     (let langs = (case defawlt of Some d \<Rightarrow> [\<lparr>qvalue = tenth, lang_value = d\<rparr>] | None \<Rightarrow> []) @
                  (case accept of Some a \<Rightarrow> map (accept_item strtod) (accept_items a) | None \<Rightarrow> []);
          langs = filter (\<lambda>l. qvalue l > 0) (sort_qvalue langs)
      in map (\<lambda>l. g_strstrip (map to_lower (lang_value l))) langs @
         List.map_filter base_language langs)"

section \<open>Requests\<close>

datatype request_source = No_source | Socket_input | Stream_input

datatype 'f request_event =
    Responded "'f CockpitWebResponse"
  | Stream_claimed
  | Stream_closed
  | Request_critical
  | Request_assertion

record 'f CockpitWebRequest =
  rq_tls :: bool
  rq_local :: bool
  rq_metadata :: "members option"
  rq_buffer :: bytes
  rq_delayed_reply :: nat
  rq_source :: request_source
  rq_timeout :: bool
  rq_check_tls_redirect :: bool
  rq_eof_okay :: bool
  rq_original_path :: "bytes option"
  rq_path :: "bytes option"
  rq_query :: "bytes option"
  rq_host :: "bytes option"
  rq_headers :: "headers option"
  rq_method :: bytes
  rq_live :: bool
  rq_events :: "'f request_event list"

definition log_request :: "'f request_event \<Rightarrow> 'f CockpitWebRequest \<Rightarrow> 'f CockpitWebRequest" where
  "log_request ev self = self\<lparr>rq_events := rq_events self @ [ev]\<rparr>"

definition cockpit_web_request_finish :: "'f CockpitWebRequest \<Rightarrow> 'f CockpitWebRequest" where
  "cockpit_web_request_finish self = self\<lparr>rq_live := False, rq_source := No_source, rq_timeout := False\<rparr>"

text \<open>The value of a header, and whether the lookup complained about a missing table.\<close>

definition lookup_table :: "headers option \<Rightarrow> bytes \<Rightarrow> bytes option \<times> bool" where
  "lookup_table table name = (case table of Some h \<Rightarrow> (headers_lookup h name, False) | None \<Rightarrow> (None, True))"

definition cockpit_web_request_get_protocol :: "CockpitWebServer \<Rightarrow> 'f CockpitWebRequest \<Rightarrow> bytes \<times> bool" where
  "cockpit_web_request_get_protocol web_server self =
     (if rq_tls self then (asc ''https'', False)
      else if server_flags web_server AND COCKPIT_WEB_SERVER_FOR_TLS_PROXY \<noteq> 0 then (asc ''https'', False)
      else case protocol_header web_server of
          Some h \<Rightarrow>
            (case lookup_table (rq_headers self) h of
               (Some proto, bad) \<Rightarrow> (proto, bad)
             | (None, bad) \<Rightarrow> (asc ''http'', bad))
        | None \<Rightarrow> (asc ''http'', False))"

text \<open>The stream of a connection can be polled.  The method is set before the first response is made.\<close>

definition cockpit_web_request_respond ::
    "CockpitWebServer \<Rightarrow> 'f CockpitWebRequest \<Rightarrow> 'f CockpitWebRequest \<times> 'f CockpitWebResponse" where
  "cockpit_web_request_respond web_server self =
     (case cockpit_web_request_get_protocol web_server self of
        (proto, bad) \<Rightarrow>
          (if bad then log_request Request_critical self else self,
           cockpit_web_response_new True (rq_original_path self) (rq_path self) (rq_headers self) (rq_method self) (Some proto)))"

definition response_error ::
    "('f \<Rightarrow> bytes \<Rightarrow> 'f \<times> bytes list) \<Rightarrow> bytes \<Rightarrow> 'f CockpitWebResponse \<Rightarrow> nat \<Rightarrow> 'f CockpitWebResponse" where
  "response_error push fail_html response code =
     cockpit_web_response_error_with_body push fail_html response code None None None"

definition redirect_url :: "headers \<Rightarrow> bytes \<Rightarrow> bytes" where
  "redirect_url headers pth =
     asc ''https://'' @ (case headers_lookup headers (asc ''Host'') of Some h \<Rightarrow> h | None \<Rightarrow> []) @ pth"

definition delayed_response ::
    "('f \<Rightarrow> bytes \<Rightarrow> 'f \<times> bytes list) \<Rightarrow> bytes \<Rightarrow> 'f CockpitWebResponse \<Rightarrow> nat \<Rightarrow> bytes \<Rightarrow> headers \<Rightarrow> 'f CockpitWebResponse" where
  "delayed_response push fail_html response code pth headers =
     (if code = 301 then
        cockpit_web_response_complete
          (cockpit_web_response_headers response 301 (asc ''Moved Permanently'') 0 [(asc ''Location'', Some (redirect_url headers pth))])
      else response_error push fail_html response code)"

definition cockpit_web_request_process_delayed_reply ::
    "CockpitWebServer \<Rightarrow> ('f \<Rightarrow> bytes \<Rightarrow> 'f \<times> bytes list) \<Rightarrow> bytes \<Rightarrow> 'f CockpitWebRequest \<Rightarrow> bytes \<Rightarrow> headers \<Rightarrow> 'f CockpitWebRequest" where
  "cockpit_web_request_process_delayed_reply web_server push fail_html self pth headers =
     (if \<not> rq_delayed_reply self > 299 then log_request Request_assertion self
      else
        case cockpit_web_request_respond web_server self of
          (self, response) \<Rightarrow>
            log_request (Responded (delayed_response push fail_html response (rq_delayed_reply self) pth headers)) self)"

text \<open>The byte behind the prefix: the strings are equal or a slash follows.\<close>

definition path_has_prefix :: "bytes \<Rightarrow> bytes \<Rightarrow> bool" where
  "path_has_prefix pth pfx \<longleftrightarrow>
     pfx \<noteq> [] \<and> starts_with pth pfx \<and>
     (length pth = length pfx \<or> pth ! length pfx = 47)"

text \<open>What is connected to the signals: handlers of the stream, and handlers of the resource with the detail they are connected under.\<close>

record 'f handlers =
  handle_stream :: "'f CockpitWebRequest \<Rightarrow> bool"
  handle_resource :: "(bytes option \<times> ('f CockpitWebRequest \<Rightarrow> 'f CockpitWebResponse \<Rightarrow> 'f CockpitWebResponse \<times> bool)) list"

fun emit_handle_resource ::
    "(bytes option \<times> ('f CockpitWebRequest \<Rightarrow> 'f CockpitWebResponse \<Rightarrow> 'f CockpitWebResponse \<times> bool)) list \<Rightarrow>
     bytes option \<Rightarrow> 'f CockpitWebRequest \<Rightarrow> 'f CockpitWebResponse \<Rightarrow> 'f CockpitWebResponse \<times> bool" where
  "emit_handle_resource [] detail request response = (response, False)"
| "emit_handle_resource ((d, h) # hs) detail request response =
     (if d = None \<or> d = detail then
        (case h request response of
           (response, True) \<Rightarrow> (response, True)
         | (response, False) \<Rightarrow> emit_handle_resource hs detail request response)
      else emit_handle_resource hs detail request response)"

definition resource_detail :: "bytes \<Rightarrow> bytes option" where
  "resource_detail pth =
     (let component_end = 1 + strcspn (drop 1 pth) [47];
          component_end = (if component_end < length pth \<and> pth ! component_end = 47 then component_end + 1 else component_end)
      in if component_end < 100 then Some (take component_end pth) else None)"

definition cockpit_web_server_default_handle_resource ::
    "('f \<Rightarrow> bytes \<Rightarrow> 'f \<times> bytes list) \<Rightarrow> bytes \<Rightarrow> 'f CockpitWebResponse \<Rightarrow> 'f CockpitWebResponse" where
  "cockpit_web_server_default_handle_resource push fail_html response = response_error push fail_html response 404"

definition cockpit_web_server_default_handle_stream ::
    "CockpitWebServer \<Rightarrow> ('f \<Rightarrow> bytes \<Rightarrow> 'f \<times> bytes list) \<Rightarrow> bytes \<Rightarrow> 'f handlers \<Rightarrow> 'f CockpitWebRequest \<Rightarrow> 'f CockpitWebRequest" where
  "cockpit_web_server_default_handle_stream web_server push fail_html handlers request =
     (case cockpit_web_request_respond web_server request of
        (request, response) \<Rightarrow>
          (case rq_path request of
             Some (c # p) \<Rightarrow>
               if c \<noteq> 47 then log_request Request_assertion request
               else
                 let detail = resource_detail (c # p);
                     (response, claimed) = emit_handle_resource (handle_resource handlers) detail request response;
                     response = (if claimed then response else cockpit_web_server_default_handle_resource push fail_html response)
                 in log_request (Responded response) request
           | _ \<Rightarrow> log_request Request_assertion request))"

text \<open>The copy of the path is cut at the question mark; \<open>path\<close> points into it behind the root.\<close>

definition request_paths :: "bytes \<Rightarrow> bytes \<Rightarrow> bytes \<times> bytes \<times> bytes" where
  "request_paths root pth =
     (case memchr pth 63 of
        Some q \<Rightarrow>
          let copy = pth[q := 0]
          in (cstr copy, cstr (drop (length root) copy), drop (q + 1) pth)
      | None \<Rightarrow> (pth, drop (length root) pth, []))"

definition cockpit_web_request_process ::
    "CockpitWebServer \<Rightarrow> ('f \<Rightarrow> bytes \<Rightarrow> 'f \<times> bytes list) \<Rightarrow> bytes \<Rightarrow> 'f handlers \<Rightarrow> 'f CockpitWebRequest \<Rightarrow>
     bytes \<Rightarrow> bytes \<Rightarrow> bytes option \<Rightarrow> headers \<Rightarrow> 'f CockpitWebRequest" where
  "cockpit_web_request_process web_server push fail_html handlers self meth pth host headers =
     (let self = (if server_url_root web_server \<noteq> [] \<and> \<not> path_has_prefix pth (server_url_root web_server)
                  then self\<lparr>rq_delayed_reply := 404\<rparr> else self);
          self = (if rq_delayed_reply self = 0 \<and> rq_check_tls_redirect self then
                    let self = self\<lparr>rq_check_tls_redirect := False\<rparr> in
                    if \<not> path_has_prefix pth (ssl_exception_prefix web_server) \<and> \<not> rq_local self
                    then self\<lparr>rq_delayed_reply := 301\<rparr> else self
                  else self);
          self = self\<lparr>rq_method := meth\<rparr>
      in
      if rq_delayed_reply self \<noteq> 0
      then cockpit_web_request_process_delayed_reply web_server push fail_html self pth headers
      else
        case request_paths (server_url_root web_server) pth of
          (original_path, pth, query) \<Rightarrow>
            let self = self\<lparr>rq_original_path := Some original_path, rq_path := Some pth, rq_headers := Some headers,
                            rq_host := host, rq_query := Some query\<rparr>;
                self = (if handle_stream handlers self then log_request Stream_claimed self
                        else cockpit_web_server_default_handle_stream web_server push fail_html handlers self)
            in self\<lparr>rq_original_path := None, rq_path := None, rq_query := None\<rparr>)"

text \<open>\<^verbatim>\<open>g_ascii_strtoull\<close> on a C string, which has to be used up.  A header that is not there counts as zero.\<close>

definition content_length :: "headers \<Rightarrow> nat option" where
  "content_length headers =
     (case headers_lookup headers (asc ''Content-Length'') of
        None \<Rightarrow> Some 0
      | Some str \<Rightarrow>
          (case g_ascii_strtoull (str @ [0]) of
             Some (len, used) \<Rightarrow> if used = length str then Some len else None
           | None \<Rightarrow> None))"

text \<open>The result says that the request waits for more.\<close>

definition cockpit_web_request_parse_and_process ::
    "CockpitWebServer \<Rightarrow> ('f \<Rightarrow> bytes \<Rightarrow> 'f \<times> bytes list) \<Rightarrow> bytes \<Rightarrow> 'f handlers \<Rightarrow> 'f CockpitWebRequest \<Rightarrow> 'f CockpitWebRequest \<times> bool" where
  "cockpit_web_request_parse_and_process web_server push fail_html handlers self =
     (if length (rq_buffer self) > cockpit_webserver_request_maximum * 2
      then (cockpit_web_request_finish self, False)
      else
      case web_socket_util_parse_req_line (rq_buffer self) of
        Want_more \<Rightarrow> (self, True)
      | Reject \<Rightarrow> (cockpit_web_request_finish (self\<lparr>rq_delayed_reply := 400\<rparr>), False)
      | Message (meth, pth) off1 \<Rightarrow>
          if pth = [] \<or> hd pth \<noteq> 47
          then (cockpit_web_request_finish (self\<lparr>rq_delayed_reply := 400\<rparr>), False)
          else
          (case web_socket_util_parse_headers (drop off1 (rq_buffer self)) of
             Want_more \<Rightarrow> (self, True)
           | Reject \<Rightarrow> (cockpit_web_request_finish (self\<lparr>rq_delayed_reply := 400\<rparr>), False)
           | Message headers off2 \<Rightarrow>
               (case content_length headers of
                  None \<Rightarrow> (cockpit_web_request_finish (self\<lparr>rq_delayed_reply := 400\<rparr>), False)
                | Some len \<Rightarrow>
                    let self = (if len \<noteq> 0 then self\<lparr>rq_delayed_reply := 413\<rparr> else self) in
                    if length (rq_buffer self) < (off1 + off2 + len) mod 2 ^ 64 then (self, True)
                    else
                      let self = (if meth \<noteq> asc ''GET'' \<and> meth \<noteq> asc ''HEAD'' then self\<lparr>rq_delayed_reply := 405\<rparr> else self);
                          host = headers_lookup headers (asc ''Host'');
                          self = (if host = None \<or> host = Some [] then self\<lparr>rq_delayed_reply := 400\<rparr> else self);
                          self = self\<lparr>rq_buffer := drop (off1 + off2) (rq_buffer self)\<rparr>;
                          self = cockpit_web_request_process web_server push fail_html handlers self meth pth host headers
                      in (cockpit_web_request_finish self, False))))"

section \<open>Input\<close>

datatype input_result = Input bytes | Input_would_block | Input_error

definition cockpit_web_request_on_input ::
    "CockpitWebServer \<Rightarrow> ('f \<Rightarrow> bytes \<Rightarrow> 'f \<times> bytes list) \<Rightarrow> bytes \<Rightarrow> 'f handlers \<Rightarrow> 'f CockpitWebRequest \<Rightarrow> input_result \<Rightarrow>
     'f CockpitWebRequest \<times> bool" where
  "cockpit_web_request_on_input web_server push fail_html handlers self inp =
     (case inp of
        Input_would_block \<Rightarrow> (self, True)
      | Input_error \<Rightarrow> (cockpit_web_request_finish self, False)
      | Input data \<Rightarrow>
          let self = self\<lparr>rq_buffer := rq_buffer self @ data\<rparr> in
          if data = [] then
            (cockpit_web_request_finish (if rq_eof_okay self then log_request Stream_closed self else self), False)
          else cockpit_web_request_parse_and_process web_server push fail_html handlers (self\<lparr>rq_eof_okay := False\<rparr>))"

text \<open>Socket and TLS streams can be polled.\<close>

definition cockpit_web_request_start_input :: "'f CockpitWebRequest \<Rightarrow> 'f CockpitWebRequest" where
  "cockpit_web_request_start_input self = self\<lparr>rq_source := Stream_input\<rparr>"

text \<open>The first byte is peeked at; at the end of the stream nothing is read and the byte is whatever the variable held.  \<open>tls_ok\<close> says that the TLS stream
  could be made.\<close>

datatype peek_result = Peek_would_block | Peek_error | Peeked byte "members option"

definition cockpit_web_request_on_socket_input ::
    "CockpitWebServer \<Rightarrow> 'f CockpitWebRequest \<Rightarrow> peek_result \<Rightarrow> bool \<Rightarrow> 'f CockpitWebRequest \<times> bool" where
  "cockpit_web_request_on_socket_input web_server self peek tls_ok =
     (case peek of
        Peek_would_block \<Rightarrow> (self, True)
      | Peek_error \<Rightarrow> (cockpit_web_request_finish self, False)
      | Peeked first_byte metadata \<Rightarrow>
          let self = (case metadata of Some m \<Rightarrow> self\<lparr>rq_metadata := Some m\<rparr> | None \<Rightarrow> self) in
          if first_byte = 22 \<or> first_byte = 0x80 then
            (if \<not> certificate web_server then (cockpit_web_request_finish self, False)
             else if \<not> tls_ok then (cockpit_web_request_finish self, False)
             else (cockpit_web_request_start_input (self\<lparr>rq_tls := True\<rparr>), False))
          else
            (cockpit_web_request_start_input
               (if server_flags web_server AND COCKPIT_WEB_SERVER_REDIRECT_TLS \<noteq> 0
                then self\<lparr>rq_check_tls_redirect := True\<rparr> else self), False))"

definition cockpit_web_request_on_timeout :: "'f CockpitWebRequest \<Rightarrow> 'f CockpitWebRequest" where
  "cockpit_web_request_on_timeout self = cockpit_web_request_finish self"

text \<open>\<open>tls\<close>, \<open>local\<close> and \<open>metadata\<close> describe the stream.\<close>

definition cockpit_web_request_start :: "bool \<Rightarrow> bool \<Rightarrow> members option \<Rightarrow> bool \<Rightarrow> 'f CockpitWebRequest" where
  "cockpit_web_request_start tls loopback metadata first =
     \<lparr>rq_tls = tls, rq_local = loopback, rq_metadata = metadata, rq_buffer = [], rq_delayed_reply = 0,
      rq_source = (if first then Socket_input else Stream_input), rq_timeout = True,
      rq_check_tls_redirect = False, rq_eof_okay = True, rq_original_path = None, rq_path = None, rq_query = None,
      rq_host = None, rq_headers = None, rq_method = [], rq_live = True, rq_events = []\<rparr>"

text \<open>The handler of the end of a response: the next request on the stream, or \<^term>\<open>None\<close> when the stream is closed.\<close>

definition on_web_response_done :: "'f CockpitWebRequest \<Rightarrow> bool \<Rightarrow> 'f CockpitWebRequest option" where
  "on_web_response_done self reusable =
     (if reusable then Some (cockpit_web_request_start (rq_tls self) (rq_local self) (rq_metadata self) False) else None)"

section \<open>What a handler asks a request\<close>

definition cockpit_web_request_lookup_header :: "'f CockpitWebRequest \<Rightarrow> bytes \<Rightarrow> bytes option" where
  "cockpit_web_request_lookup_header self header =
     (case rq_headers self of None \<Rightarrow> None | Some h \<Rightarrow> headers_lookup h header)"

definition cockpit_web_request_parse_cookie :: "'f CockpitWebRequest \<Rightarrow> bytes \<Rightarrow> bytes option" where
  "cockpit_web_request_parse_cookie self name =
     (case rq_headers self of None \<Rightarrow> None | Some h \<Rightarrow> cockpit_web_server_parse_cookie h name)"

text \<open>\<open>remote\<close> is the address of the peer if it is an internet address.  The request has headers.\<close>

definition cockpit_web_request_get_remote_address :: "CockpitWebServer \<Rightarrow> 'f CockpitWebRequest \<Rightarrow> bytes option \<Rightarrow> bytes option" where
  "cockpit_web_request_get_remote_address web_server self remote =
     (let forwarded = (case forwarded_for_header web_server of
                         Some h \<Rightarrow> fst (lookup_table (rq_headers self) h)
                       | None \<Rightarrow> None);
          origin_ip = (case rq_metadata self of
                         Some m \<Rightarrow> cockpit_json_get_string m (asc ''origin-ip'') None
                       | None \<Rightarrow> None)
      in
      if forwarded \<noteq> None \<and> forwarded \<noteq> Some []
      then Some (rev (takeWhile (\<lambda>b. b \<noteq> 32) (rev (the forwarded))))
      else case origin_ip of Some tmp \<Rightarrow> tmp | None \<Rightarrow> remote)"

definition cockpit_web_request_get_client_certificate :: "'f CockpitWebRequest \<Rightarrow> bytes option" where
  "cockpit_web_request_get_client_certificate self =
     (case rq_metadata self of
        None \<Rightarrow> None
      | Some m \<Rightarrow> (case cockpit_json_get_string m (asc ''client-certificate'') None of Some v \<Rightarrow> v | None \<Rightarrow> None))"

definition cockpit_web_request_accepts_encoding ::
    "(bytes \<Rightarrow> 'q :: {linorder, zero, one}) \<Rightarrow> 'q \<Rightarrow> 'f CockpitWebRequest \<Rightarrow> bytes \<Rightarrow> bool" where
  "cockpit_web_request_accepts_encoding strtod tenth self encoding =
     (case fst (lookup_table (rq_headers self) (asc ''Accept-Encoding'')) of
        None \<Rightarrow> True
      | Some accept \<Rightarrow>
          let encodings = cockpit_web_server_parse_accept_list strtod tenth (Some accept) None
          in encoding \<in> set encodings \<or> [42] \<in> set encodings)"

end
