(* ===== verification/WebRequest.thy ===== *)
theory WebRequest
  imports WebServer
begin

text \<open>
  The requests of \<^verbatim>\<open>src/common/cockpitwebserver.c\<close>: the parser of a whole request as a function of the bytes that have arrived, which is an incremental parser like those
  it is made of, and the run of a request over input that comes in pieces.
\<close>

section \<open>The parser of a whole request\<close>

definition request_parse :: "bytes \<Rightarrow> (bytes \<times> bytes \<times> headers) parse" where
  "request_parse data =
     (case web_socket_util_parse_req_line data of
        Want_more \<Rightarrow> Want_more
      | Reject \<Rightarrow> Reject
      | Message (meth, pth) off1 \<Rightarrow>
          if pth = [] \<or> hd pth \<noteq> 47 then Reject
          else
          (case web_socket_util_parse_headers (drop off1 data) of
             Want_more \<Rightarrow> Want_more
           | Reject \<Rightarrow> Reject
           | Message headers off2 \<Rightarrow>
               (case content_length headers of
                  None \<Rightarrow> Reject
                | Some len \<Rightarrow>
                    if length data < (off1 + off2 + len) mod 2 ^ 64 then Want_more
                    else Message (meth, pth, headers) (off1 + off2))))"

definition pending_reply :: "bytes \<Rightarrow> nat" where
  "pending_reply data =
     (case web_socket_util_parse_req_line data of
        Message (meth, pth) off1 \<Rightarrow>
          (case web_socket_util_parse_headers (drop off1 data) of
             Message headers off2 \<Rightarrow> if content_length headers = Some 0 then 0 else 413
           | _ \<Rightarrow> 0)
      | _ \<Rightarrow> 0)"

definition request_verdict :: "bytes \<Rightarrow> headers \<Rightarrow> nat" where
  "request_verdict meth headers =
     (let host = headers_lookup headers (asc ''Host'') in
      if host = None \<or> host = Some [] then 400
      else if meth \<noteq> asc ''GET'' \<and> meth \<noteq> asc ''HEAD'' then 405
      else if content_length headers \<noteq> Some 0 then 413
      else 0)"

lemma request_parse_extend:
  "request_parse s \<noteq> Want_more \<Longrightarrow> request_parse (s @ t) = request_parse s"
proof -
  assume s: "request_parse s \<noteq> Want_more"
  show ?thesis
  proof (cases "web_socket_util_parse_req_line s")
    case Want_more
    then show ?thesis using s by (simp add: request_parse_def)
  next
    case Reject
    then show ?thesis using req_line.reject_extend [OF Reject, of t] by (simp add: request_parse_def)
  next
    case (Message v off1)
    obtain meth pth where v: "v = (meth, pth)" by fastforce
    note line = Message req_line.message_extend [OF Message, of t] v
    have off1: "off1 \<le> length s" using req_line.message_bound [OF Message] by simp
    show ?thesis
    proof (cases "web_socket_util_parse_headers (drop off1 s)")
      case Want_more
      then show ?thesis using s line by (auto simp: request_parse_def split: if_splits)
    next
      case Reject
      then show ?thesis using line off1 header_block.reject_extend [OF Reject, of t] by (simp add: request_parse_def)
    next
      case (Message headers off2)
      then show ?thesis
        using s line off1 header_block.message_extend [OF Message, of t]
        by (auto simp: request_parse_def split: option.splits if_splits)
    qed
  qed
qed

lemma request_parse_bound: "request_parse s = Message v n \<Longrightarrow> 0 < n \<and> n \<le> length s"
  using req_line.message_bound [of s] header_block.message_bound [of "drop _ s"]
  by (fastforce simp: request_parse_def split: parse.splits option.splits if_splits prod.splits)

interpretation whole_request: stream_parser request_parse
  by unfold_locales (metis request_parse_extend request_parse_bound parse.distinct(1,3,5))+


section \<open>Input in any pieces\<close>

definition request_buffer_limit :: nat where
  "request_buffer_limit = cockpit_webserver_request_maximum * 2"

definition answer_request ::
    "CockpitWebServer \<Rightarrow> ('f \<Rightarrow> bytes \<Rightarrow> 'f \<times> bytes list) \<Rightarrow> bytes \<Rightarrow> 'f handlers \<Rightarrow> 'f CockpitWebRequest \<Rightarrow>
     bytes \<Rightarrow> bytes \<Rightarrow> headers \<Rightarrow> bytes \<Rightarrow> 'f CockpitWebRequest" where
  "answer_request web_server push fail_html handlers self meth pth headers rest =
     cockpit_web_request_finish
       (cockpit_web_request_process web_server push fail_html handlers
          (self\<lparr>rq_delayed_reply := request_verdict meth headers, rq_buffer := rest\<rparr>)
          meth pth (headers_lookup headers (asc ''Host'')) headers)"

lemma pending_stays: "pending_reply s \<noteq> 0 \<Longrightarrow> pending_reply (s @ t) = 413 \<and> pending_reply s = 413"
proof -
  assume p: "pending_reply s \<noteq> 0"
  then obtain v off1 h off2 where l: "web_socket_util_parse_req_line s = Message v off1"
    and h: "web_socket_util_parse_headers (drop off1 s) = Message h off2" "content_length h \<noteq> Some 0"
    by (auto simp: pending_reply_def split: parse.splits if_splits)
  have off1: "off1 \<le> length s" using req_line.message_bound [OF l] by simp
  show ?thesis
    using l h off1 req_line.message_extend [OF l, of t] header_block.message_extend [OF h(1), of t]
    by (cases v) (simp add: pending_reply_def)
qed

lemma request_self: "(self :: 'f CockpitWebRequest)\<lparr>rq_delayed_reply := rq_delayed_reply self\<rparr> = self"
  by simp

lemma pending_413: "pending_reply s \<noteq> 0 \<Longrightarrow> request_parse (s @ t) = Message (meth, pth, headers) n \<Longrightarrow> content_length headers \<noteq> Some 0"
proof -
  assume p: "pending_reply s \<noteq> 0" and r: "request_parse (s @ t) = Message (meth, pth, headers) n"
  from p obtain v off1 h off2 where l: "web_socket_util_parse_req_line s = Message v off1"
    and h: "web_socket_util_parse_headers (drop off1 s) = Message h off2" "content_length h \<noteq> Some 0"
    by (auto simp: pending_reply_def split: parse.splits if_splits)
  have off1: "off1 \<le> length s" using req_line.message_bound [OF l] by simp
  have "headers = h"
    using r off1 req_line.message_extend [OF l, of t] header_block.message_extend [OF h(1), of t]
    by (auto simp: request_parse_def split: option.splits if_splits prod.splits)
  then show ?thesis using h(2) by simp
qed

definition request_stage ::
    "CockpitWebServer \<Rightarrow> ('f \<Rightarrow> bytes \<Rightarrow> 'f \<times> bytes list) \<Rightarrow> bytes \<Rightarrow> 'f handlers \<Rightarrow> bytes \<Rightarrow> 'f CockpitWebRequest \<Rightarrow>
     'f CockpitWebRequest \<times> bool" where
  "request_stage web_server push fail_html handlers data self =
     (case request_parse data of
        Want_more \<Rightarrow> (self\<lparr>rq_delayed_reply := pending_reply data\<rparr>, True)
      | Reject \<Rightarrow> (cockpit_web_request_finish (self\<lparr>rq_delayed_reply := 400\<rparr>), False)
      | Message (meth, pth, headers) n \<Rightarrow>
          (answer_request web_server push fail_html handlers self meth pth headers (drop n data), False))"

lemma parse_headers_there:
  fixes self :: "'f CockpitWebRequest"
  assumes "length (s @ t) \<le> request_buffer_limit"
    and "rq_buffer self = s @ t" "rq_delayed_reply self = pending_reply s"
    and line: "web_socket_util_parse_req_line (s @ t) = Message (meth, pth) off1" "\<not> (pth = [] \<or> hd pth \<noteq> 47)"
    and headers: "web_socket_util_parse_headers (drop off1 (s @ t)) = Message headers off2" "content_length headers = Some len"
  shows "cockpit_web_request_parse_and_process web_server push fail_html handlers self =
    request_stage web_server push fail_html handlers (s @ t) self"
proof -
  have limit: "\<not> length (s @ t) > cockpit_webserver_request_maximum * 2"
    using assms(1) by (simp add: request_buffer_limit_def)
  have pending: "pending_reply (s @ t) = (if len = 0 then 0 else 413)"
    using line headers by (simp add: pending_reply_def)
  have zero: "pending_reply s = 0" if "len = 0"
    using pending pending_stays [of s t] that by (cases "pending_reply s = 0") auto
  have same: "self\<lparr>rq_delayed_reply := 0\<rparr> = self" if "len = 0"
    using zero [OF that] assms(3) request_self [of self] by simp
  show ?thesis
  proof (cases "length (s @ t) < (off1 + off2 + len) mod 2 ^ 64")
    case True
    have parsed: "request_parse (s @ t) = Want_more"
      using line headers True by (simp add: request_parse_def)
    have "cockpit_web_request_parse_and_process web_server push fail_html handlers self =
      ((if len \<noteq> 0 then self\<lparr>rq_delayed_reply := 413\<rparr> else self), True)"
      using limit line headers True
      by (cases "len = 0") (simp_all add: cockpit_web_request_parse_and_process_def assms(2) Let_def)
    then show ?thesis using same parsed pending by (simp add: request_stage_def)
  next
    case False
    have parsed: "request_parse (s @ t) = Message (meth, pth, headers) (off1 + off2)"
      using line headers False by (simp add: request_parse_def)
    have "cockpit_web_request_parse_and_process web_server push fail_html handlers self =
      (answer_request web_server push fail_html handlers self meth pth headers (drop (off1 + off2) (s @ t)), False)"
      using limit line headers False same
      by (cases "len = 0") (simp_all del: asc_simps add: cockpit_web_request_parse_and_process_def answer_request_def request_verdict_def assms(2) Let_def)
    then show ?thesis using parsed by (simp add: request_stage_def)
  qed
qed

lemma parse_and_process_stage:
  fixes self :: "'f CockpitWebRequest"
  assumes "length (s @ t) \<le> request_buffer_limit"
    and "rq_buffer self = s @ t" "rq_delayed_reply self = pending_reply s"
  shows "cockpit_web_request_parse_and_process web_server push fail_html handlers self =
    request_stage web_server push fail_html handlers (s @ t) self"
proof -
  have same: "self\<lparr>rq_delayed_reply := pending_reply (s @ t)\<rparr> = self" if "pending_reply (s @ t) = 0"
    using that pending_stays [of s t] assms(3) request_self [of self] by (cases "pending_reply s = 0") auto
  have limit: "\<not> length (s @ t) > cockpit_webserver_request_maximum * 2"
    using assms(1) by (simp add: request_buffer_limit_def)
  note defs = cockpit_web_request_parse_and_process_def request_stage_def request_parse_def pending_reply_def
  show ?thesis
  proof (cases "web_socket_util_parse_req_line (s @ t)")
    case (Message v off1)
    obtain meth pth where v: "v = (meth, pth)" by fastforce
    note line = Message [unfolded v]
    show ?thesis
    proof (cases "pth = [] \<or> hd pth \<noteq> 47")
      case True
      then show ?thesis using limit line by (auto simp: defs assms(2))
    next
      case pth: False
      show ?thesis
      proof (cases "web_socket_util_parse_headers (drop off1 (s @ t))")
        case (Message headers off2)
        then show ?thesis
          using parse_headers_there [OF assms line pth Message] limit line pth
          by (cases "content_length headers") (simp_all add: defs assms(2))
      qed (use same limit line pth in \<open>simp_all add: defs assms(2)\<close>)
    qed
  qed (use same limit in \<open>simp_all add: defs assms(2)\<close>)
qed

text \<open>What the main loop does with a request: input and the timeout, until it is finished.\<close>

datatype web_request_op = On_input input_result | On_timeout

definition web_request_step ::
    "CockpitWebServer \<Rightarrow> ('f \<Rightarrow> bytes \<Rightarrow> 'f \<times> bytes list) \<Rightarrow> bytes \<Rightarrow> 'f handlers \<Rightarrow> 'f CockpitWebRequest \<Rightarrow> web_request_op \<Rightarrow>
     'f CockpitWebRequest" where
  "web_request_step web_server push fail_html handlers self op =
     (if \<not> rq_live self then self
      else case op of
          On_input inp \<Rightarrow> fst (cockpit_web_request_on_input web_server push fail_html handlers self inp)
        | On_timeout \<Rightarrow> cockpit_web_request_on_timeout self)"

definition web_request_run ::
    "CockpitWebServer \<Rightarrow> ('f \<Rightarrow> bytes \<Rightarrow> 'f \<times> bytes list) \<Rightarrow> bytes \<Rightarrow> 'f handlers \<Rightarrow> 'f CockpitWebRequest \<Rightarrow> web_request_op list \<Rightarrow>
     'f CockpitWebRequest" where
  "web_request_run web_server push fail_html handlers self ops =
     foldl (web_request_step web_server push fail_html handlers) self ops"

definition request_input :: "bytes list \<Rightarrow> web_request_op list" where
  "request_input chunks = map (\<lambda>c. On_input (Input c)) chunks"

text \<open>A request before its first byte, and after some bytes that are not a whole request.\<close>

definition request_fresh :: "'f CockpitWebRequest \<Rightarrow> bool" where
  "request_fresh self \<longleftrightarrow>
     rq_live self \<and> rq_buffer self = [] \<and> rq_delayed_reply self = 0 \<and> rq_events self = [] \<and>
     rq_headers self = None \<and> rq_original_path self = None \<and> rq_path self = None"

definition request_waiting :: "'f CockpitWebRequest \<Rightarrow> bytes \<Rightarrow> 'f CockpitWebRequest" where
  "request_waiting self s =
     self\<lparr>rq_delayed_reply := pending_reply s, rq_buffer := s, rq_eof_okay := (s = [] \<and> rq_eof_okay self)\<rparr>"

lemma finished_simps [simp]:
  "rq_live (cockpit_web_request_finish self) = False"
  "rq_events (cockpit_web_request_finish self) = rq_events self"
  "rq_live (answer_request web_server push fail_html handlers self meth pth headers rest) = False"
  by (simp_all add: cockpit_web_request_finish_def answer_request_def)

lemma request_waiting_Nil: "request_fresh self \<Longrightarrow> request_waiting self [] = self"
  by (simp add: request_waiting_def request_fresh_def pending_reply_def web_socket_util_parse_req_line_def)

lemma request_parse_Nil: "request_parse [] = Want_more"
  by (simp add: request_parse_def web_socket_util_parse_req_line_def)

lemma step_dead: "\<not> rq_live self \<Longrightarrow> web_request_step web_server push fail_html handlers self op = self"
  by (simp add: web_request_step_def)

lemma step_chunk:
  fixes self :: "'f CockpitWebRequest"
  assumes "request_fresh self" "c \<noteq> []" "length (s @ c) \<le> request_buffer_limit"
  shows "web_request_step web_server push fail_html handlers (request_waiting self s) (On_input (Input c)) =
    fst (request_stage web_server push fail_html handlers (s @ c) (self\<lparr>rq_delayed_reply := pending_reply s, rq_buffer := s @ c, rq_eof_okay := False\<rparr>))"
proof -
  have "rq_live (request_waiting self s)" using assms(1) by (simp add: request_waiting_def request_fresh_def)
  moreover have "(request_waiting self s)\<lparr>rq_buffer := s @ c, rq_eof_okay := False\<rparr> =
      self\<lparr>rq_delayed_reply := pending_reply s, rq_buffer := s @ c, rq_eof_okay := False\<rparr>" (is "_ = ?next")
    by (simp add: request_waiting_def)
  moreover have "cockpit_web_request_parse_and_process web_server push fail_html handlers ?next =
      request_stage web_server push fail_html handlers (s @ c) ?next"
    by (rule parse_and_process_stage) (use assms(3) in simp_all)
  ultimately show ?thesis
    using assms(2) by (simp add: web_request_step_def cockpit_web_request_on_input_def request_waiting_def)
qed

definition request_result ::
    "CockpitWebServer \<Rightarrow> ('f \<Rightarrow> bytes \<Rightarrow> 'f \<times> bytes list) \<Rightarrow> bytes \<Rightarrow> 'f handlers \<Rightarrow> 'f CockpitWebRequest \<Rightarrow> bytes \<Rightarrow>
     'f CockpitWebRequest \<Rightarrow> bool" where
  "request_result web_server push fail_html handlers self data after \<longleftrightarrow>
     (case request_parse data of
        Want_more \<Rightarrow> after = request_waiting self data
      | Reject \<Rightarrow> \<not> rq_live after \<and> rq_events after = []
      | Message (meth, pth, headers) n \<Rightarrow>
          (\<exists>rest later. drop n data = rest @ later \<and>
             after = answer_request web_server push fail_html handlers (self\<lparr>rq_eof_okay := False\<rparr>) meth pth headers rest))"

lemma run_chunks:
  fixes self :: "'f CockpitWebRequest"
  assumes "request_fresh self" "[] \<notin> set chunks" "length (concat chunks) \<le> request_buffer_limit"
  shows "request_result web_server push fail_html handlers self (concat chunks)
    (web_request_run web_server push fail_html handlers self (request_input chunks))"
  using assms(2,3)
proof (induction chunks rule: rev_induct)
  case Nil
  then show ?case
    using request_waiting_Nil [OF assms(1)] by (simp add: request_result_def request_parse_Nil web_request_run_def request_input_def)
next
  case (snoc c chunks)
  let ?run = "web_request_run web_server push fail_html handlers self (request_input chunks)"
  let ?s = "concat chunks"
  have ih: "request_result web_server push fail_html handlers self ?s ?run" using snoc by simp
  have last: "web_request_run web_server push fail_html handlers self (request_input (chunks @ [c])) =
      web_request_step web_server push fail_html handlers ?run (On_input (Input c))"
    by (simp add: web_request_run_def request_input_def)
  show ?case
  proof (cases "request_parse ?s")
    case Want_more
    then have "?run = request_waiting self ?s" using ih by (simp add: request_result_def)
    moreover have "length (?s @ c) \<le> request_buffer_limit" "c \<noteq> []" using snoc.prems by auto
    ultimately show ?thesis
      using step_chunk [OF assms(1), of c ?s] assms(1) unfolding last
      by (auto simp: request_result_def request_stage_def request_waiting_def request_fresh_def answer_request_def split: parse.splits)
  next
    case Reject
    then show ?thesis
      using ih request_parse_extend [of ?s c] unfolding last by (simp add: request_result_def step_dead)
  next
    case (Message v n)
    then show ?thesis
      using ih request_parse_extend [of ?s c] request_parse_bound [OF Message] unfolding last
      by (cases v) (auto simp: request_result_def step_dead, blast)
  qed
qed

end
