(* ===== verification/WebResponseSafety.thy ===== *)
theory WebResponseSafety
  imports WebResponse
begin

text \<open>
  What every run of a web response keeps: the queue and its counters agree, what was written is a prefix of what was queued, no assertion
  fails and the \<^verbatim>\<open>done\<close> signal comes once.
\<close>

section \<open>Filters\<close>

fun push_list :: "('f \<Rightarrow> bytes \<Rightarrow> 'f \<times> bytes list) \<Rightarrow> 'f \<Rightarrow> bytes list \<Rightarrow> 'f \<times> bytes list" where
  "push_list push f [] = (f, [])"
| "push_list push f (b # bs) =
     (case push f b of (f, out) \<Rightarrow> case push_list push f bs of (f, rest) \<Rightarrow> (f, out @ rest))"

text \<open>The filters one after the other, each on everything that the one before passes on.\<close>

fun filter_blocks :: "('f \<Rightarrow> bytes \<Rightarrow> 'f \<times> bytes list) \<Rightarrow> 'f list \<Rightarrow> bytes list \<Rightarrow> 'f list \<times> bytes list" where
  "filter_blocks push [] bs = ([], bs)"
| "filter_blocks push (f # fs) bs =
     (case push_list push f bs of (f, out) \<Rightarrow> case filter_blocks push fs out of (fs, out) \<Rightarrow> (f # fs, out))"

lemma push_list_append:
  "push_list push f (as @ bs) =
    (case push_list push f as of (f, out) \<Rightarrow> case push_list push f bs of (f, rest) \<Rightarrow> (f, out @ rest))"
  by (induction as arbitrary: f) (auto split: prod.splits)

lemma filter_blocks_append:
  "filter_blocks push fs (as @ bs) =
    (case filter_blocks push fs as of (fs, out) \<Rightarrow> case filter_blocks push fs bs of (fs, rest) \<Rightarrow> (fs, out @ rest))"
  by (induction fs arbitrary: as bs) (auto simp: push_list_append split: prod.splits)

lemma filter_blocks_Nil [simp]: "filter_blocks push fs [] = (fs, [])"
  by (induction fs) auto

lemma length_filter_blocks: "length (fst (filter_blocks push fs bs)) = length fs"
proof (induction fs arbitrary: bs)
  case (Cons f fs)
  show ?case using Cons.IH [of "snd (push_list push f bs)"] by (auto split: prod.splits)
qed simp

lemma queue_bytes_filters [simp]:
  "queue_bytes (self\<lparr>filters := fs\<rparr>) b = (queue_bytes self b)\<lparr>filters := fs\<rparr>"
  "filters (queue_bytes self b) = filters self"
  by (simp_all add: queue_bytes_def note_event_def Let_def)

lemma queue_block_filters [simp]:
  "queue_block (self\<lparr>filters := fs\<rparr>) b = (queue_block self b)\<lparr>filters := fs\<rparr>"
  "filters (queue_block self b) = filters self"
proof -
  have *: "self\<lparr>filters := fs, out_queueable := n\<rparr> = self\<lparr>out_queueable := n, filters := fs\<rparr>" for n by simp
  show "queue_block (self\<lparr>filters := fs\<rparr>) b = (queue_block self b)\<lparr>filters := fs\<rparr>"
    by (simp add: queue_block_def Let_def note_event_def *)
  show "filters (queue_block self b) = filters self"
    by (simp add: queue_block_def note_event_def Let_def)
qed

lemma fold_block_filters [simp]:
  "foldl queue_block (self\<lparr>filters := fs\<rparr>) bs = (foldl queue_block self bs)\<lparr>filters := fs\<rparr>"
  "filters (foldl queue_block self bs) = filters self"
  by (induction bs arbitrary: self) auto

text \<open>The nested callbacks queue the blocks that the filters, one after the other, make of the input.\<close>

lemma queue_filter_staged:
  assumes "k \<le> length (filters self)"
  shows "queue_filter push k b self =
    (case filter_blocks push (drop (length (filters self) - k) (filters self)) [b] of (fs, out) \<Rightarrow>
       (foldl queue_block self out)\<lparr>filters := take (length (filters self) - k) (filters self) @ fs\<rparr>)"
  using assms
proof (induction k arbitrary: b self)
  case (Suc k)
  have many: "foldl (\<lambda>self b. queue_filter push k b self) self bs =
    (case filter_blocks push (drop (length (filters self) - k) (filters self)) bs of (fs, out) \<Rightarrow>
       (foldl queue_block self out)\<lparr>filters := take (length (filters self) - k) (filters self) @ fs\<rparr>)"
    if "k \<le> length (filters self)" for bs self
    using that
  proof (induction bs arbitrary: self)
    case (Cons b bs)
    let ?n = "length (filters self) - k"
    obtain fs out where f: "filter_blocks push (drop ?n (filters self)) [b] = (fs, out)" by fastforce
    have len: "length fs = k" using length_filter_blocks [of push "drop ?n (filters self)" "[b]"] f Cons.prems by simp
    obtain fs' out' where f': "filter_blocks push fs bs = (fs', out')" by fastforce
    have "queue_filter push k b self = (foldl queue_block self out)\<lparr>filters := take ?n (filters self) @ fs\<rparr>"
      using Suc.IH [OF Cons.prems] f by simp
    then show ?case
      using Cons.IH [of "(foldl queue_block self out)\<lparr>filters := take ?n (filters self) @ fs\<rparr>"] len f f' Cons.prems
        filter_blocks_append [of push "drop ?n (filters self)" "[b]" bs] by simp
  qed simp
  let ?i = "length (filters self) - Suc k"
  obtain f out where f: "push (filters self ! ?i) b = (f, out)" by fastforce
  have i: "?i < length (filters self)" "length (filters self) - k = Suc ?i" using Suc.prems by simp_all
  have d: "drop ?i (filters self) = filters self ! ?i # drop (Suc ?i) (filters self)"
    using i(1) by (rule Cons_nth_drop_Suc [symmetric])
  obtain fs' out' where f': "filter_blocks push (drop (Suc ?i) (filters self)) out = (fs', out')" by fastforce
  have "queue_filter push (Suc k) b self =
      foldl (\<lambda>self b. queue_filter push k b self) (self\<lparr>filters := (filters self)[?i := f]\<rparr>) out"
    using f by (simp add: Let_def)
  also have "\<dots> = (foldl queue_block self out')\<lparr>filters := (take ?i (filters self) @ [f]) @ fs'\<rparr>"
    using many [of "self\<lparr>filters := (filters self)[?i := f]\<rparr>" out] f' i Suc.prems by (simp add: take_Suc_conv_app_nth)
  finally show ?case using d f f' by simp
qed (simp split: prod.splits)

lemma queue_filter_all:
  "queue_filter push (length (filters self)) b self =
    (case filter_blocks push (filters self) [b] of (fs, out) \<Rightarrow> (foldl queue_block self out)\<lparr>filters := fs\<rparr>)"
  by (simp add: queue_filter_staged)

section \<open>Runs\<close>

datatype response_op = Queue_block bytes | Complete | Abort | Output output_result | Flushed bool

definition offered :: "'f CockpitWebResponse \<Rightarrow> bytes" where
  "offered self = (case queue self of [] \<Rightarrow> [] | b # _ \<Rightarrow> drop (partial_offset self) b)"

text \<open>A write takes no more than it was offered.\<close>

definition kernel_takes :: "'f CockpitWebResponse \<Rightarrow> output_result \<Rightarrow> output_result" where
  "kernel_takes self r = (case r of Written n \<Rightarrow> Written (min n (length (offered self))) | _ \<Rightarrow> r)"

text \<open>The callbacks come only while their source is attached or the flush is under way.\<close>

fun response_step :: "('f \<Rightarrow> bytes \<Rightarrow> 'f \<times> bytes list) \<Rightarrow> 'f CockpitWebResponse \<Rightarrow> response_op \<Rightarrow> 'f CockpitWebResponse" where
  "response_step push self (Queue_block b) = fst (cockpit_web_response_queue push self b)"
| "response_step push self Complete = cockpit_web_response_complete self"
| "response_step push self Abort = cockpit_web_response_abort self"
| "response_step push self (Output r) =
     (if source self then fst (on_response_output self (kernel_takes self r)) else self)"
| "response_step push self (Flushed ok) = (if flushing self > 0 then on_output_flushed self ok else self)"

definition response_run :: "('f \<Rightarrow> bytes \<Rightarrow> 'f \<times> bytes list) \<Rightarrow> 'f CockpitWebResponse \<Rightarrow> response_op list \<Rightarrow> 'f CockpitWebResponse" where
  "response_run push self ops = foldl (response_step push) self ops"

lemma response_run_simps [simp]:
  "response_run push self [] = self"
  "response_run push self (op # ops) = response_run push (response_step push self op) ops"
  by (simp_all add: response_run_def)

section \<open>The invariant\<close>

fun sent_of :: "response_event \<Rightarrow> bytes" where
  "sent_of (Sent b) = b"
| "sent_of _ = []"

fun queued_of :: "response_event \<Rightarrow> bytes" where
  "queued_of (Queued b) = b"
| "queued_of _ = []"

definition sent :: "'f CockpitWebResponse \<Rightarrow> bytes" where
  "sent self = concat (map sent_of (events self))"

definition queued :: "'f CockpitWebResponse \<Rightarrow> bytes" where
  "queued self = concat (map queued_of (events self))"

definition is_done_event :: "response_event \<Rightarrow> bool" where
  "is_done_event ev \<longleftrightarrow> (\<exists>r. ev = Signal_done r)"

definition dones :: "'f CockpitWebResponse \<Rightarrow> nat" where
  "dones self = length (filter is_done_event (events self))"

fun partial_ok :: "bytes list \<Rightarrow> nat \<Rightarrow> bool" where
  "partial_ok [] n \<longleftrightarrow> n = 0"
| "partial_ok (b # _) n \<longleftrightarrow> n < length b"

lemma partial_ok_snoc: "partial_ok q n \<Longrightarrow> b \<noteq> [] \<Longrightarrow> partial_ok (q @ [b]) n"
  by (cases q) auto

lemma partial_ok_0: "[] \<notin> set q \<Longrightarrow> partial_ok q 0"
  by (cases q) auto

lemma partial_ok_le: "partial_ok q n \<Longrightarrow> n \<le> length (concat q)"
  by (cases q) auto

definition queue_ok :: "'f CockpitWebResponse \<Rightarrow> bool" where
  "queue_ok self \<longleftrightarrow>
     [] \<notin> set (queue self) \<and> out_queued self = length (concat (queue self)) \<and>
     partial_ok (queue self) (partial_offset self) \<and>
     sent self @ drop (partial_offset self) (concat (queue self)) = queued self"

definition flags_ok :: "'f CockpitWebResponse \<Rightarrow> bool" where
  "flags_ok self \<longleftrightarrow>
     (io self \<longleftrightarrow> \<not> is_done self) \<and>
     (is_done self \<longrightarrow> \<not> source self \<and> flushing self = 0 \<and> (complete self \<or> failed self)) \<and>
     (failed self \<longrightarrow> is_done self) \<and>
     (flushing self > 0 \<longrightarrow> flushing self = 1 \<and> complete self \<and> \<not> source self \<and> queue self = []) \<and>
     (\<not> is_done self \<longrightarrow> complete self \<longrightarrow> \<not> source self \<longrightarrow> flushing self = 1) \<and>
     (\<not> is_done self \<and> queue self \<noteq> [] \<longrightarrow> source self)"

definition log_ok :: "'f CockpitWebResponse \<Rightarrow> bool" where
  "log_ok self \<longleftrightarrow>
     Assertion_failed \<notin> set (events self) \<and> dones self = (if is_done self then 1 else 0) \<and>
     (\<forall>r. Signal_done r \<in> set (events self) \<longrightarrow> is_done self) \<and>
     (Signal_done True \<in> set (events self) \<longrightarrow> complete self \<and> \<not> failed self \<and> queue self = [] \<and> keep_alive self)"

definition response_inv :: "'f CockpitWebResponse \<Rightarrow> bool" where
  "response_inv self \<longleftrightarrow> queue_ok self \<and> flags_ok self \<and> log_ok self"

lemmas response_inv_defs = response_inv_def queue_ok_def flags_ok_def log_ok_def sent_def queued_def dones_def is_done_event_def

lemma inv_frame [simp]:
  "response_inv (self\<lparr>out_queueable := n\<rparr>) = response_inv self"
  "response_inv (self\<lparr>filters := fs\<rparr>) = response_inv self"
  "response_inv (self\<lparr>chunked := c\<rparr>) = response_inv self"
  by (simp_all add: response_inv_defs)

lemma queue_bytes_ok:
  assumes "queue_ok self" "log_ok self" "\<not> is_done self" "b \<noteq> []"
  shows "queue_ok (queue_bytes self b)" "log_ok (queue_bytes self b)"
  using assms
  by (auto simp: queue_bytes_def note_event_def response_inv_defs Let_def partial_ok_snoc dest: partial_ok_le)

lemma queue_bytes_fields [simp]:
  "is_done (queue_bytes self b) = is_done self" "complete (queue_bytes self b) = complete self" "failed (queue_bytes self b) = failed self"
  "flushing (queue_bytes self b) = flushing self" "io (queue_bytes self b) = io self" "keep_alive (queue_bytes self b) = keep_alive self"
  "chunked (queue_bytes self b) = chunked self" "req_method (queue_bytes self b) = req_method self"
  "out_queueable (queue_bytes self b) = out_queueable self" "partial_offset (queue_bytes self b) = partial_offset self"
  by (simp_all add: queue_bytes_def note_event_def Let_def)

lemma queue_bytes_source:
  assumes "io self"
  shows "queue (queue_bytes self b) = queue self \<and> source (queue_bytes self b) = source self \<or>
    queue (queue_bytes self b) = queue self @ [b] \<and> source (queue_bytes self b)"
  using assms by (simp add: queue_bytes_def note_event_def Let_def)

lemma queue_bytes_inv:
  assumes "response_inv self" "\<not> is_done self" "\<not> complete self" "b \<noteq> []"
  shows "response_inv (queue_bytes self b)"
proof -
  have "flags_ok (queue_bytes self b)"
    using assms queue_bytes_source [of self b] by (auto simp: response_inv_def flags_ok_def)
  then show ?thesis using assms queue_bytes_ok [of self b] by (simp add: response_inv_def)
qed

lemma crlf_not_Nil [simp]: "crlf \<noteq> []" "last_chunk \<noteq> []"
  by (simp_all add: crlf_def last_chunk_def)

lemma queue_block_fields [simp]:
  "is_done (queue_block self b) = is_done self" "complete (queue_block self b) = complete self" "failed (queue_block self b) = failed self"
  "flushing (queue_block self b) = flushing self" "io (queue_block self b) = io self" "keep_alive (queue_block self b) = keep_alive self"
  "chunked (queue_block self b) = chunked self" "req_method (queue_block self b) = req_method self"
  "partial_offset (queue_block self b) = partial_offset self"
  by (simp_all add: queue_block_def note_event_def Let_def)

lemma critical_inv [simp]: "response_inv (note_event Response_critical self) = response_inv self"
  by (simp add: note_event_def response_inv_defs)

lemma queue_block_inv:
  assumes "response_inv self" "\<not> is_done self" "\<not> complete self"
  shows "response_inv (queue_block self b)"
  using assms by (auto simp: queue_block_def Let_def intro!: queue_bytes_inv)

lemma fold_block_fields [simp]:
  "is_done (foldl queue_block self bs) = is_done self" "complete (foldl queue_block self bs) = complete self"
  "failed (foldl queue_block self bs) = failed self" "io (foldl queue_block self bs) = io self"
  "flushing (foldl queue_block self bs) = flushing self"
  "keep_alive (foldl queue_block self bs) = keep_alive self" "chunked (foldl queue_block self bs) = chunked self"
  "req_method (foldl queue_block self bs) = req_method self"
  by (induction bs arbitrary: self) simp_all

lemma fold_block_inv:
  assumes "response_inv self" "\<not> is_done self" "\<not> complete self"
  shows "response_inv (foldl queue_block self bs)"
  using assms by (induction bs arbitrary: self) (auto simp: queue_block_inv)

section \<open>Every operation keeps it\<close>

lemma queue_inv:
  assumes "response_inv self"
  shows "response_inv (fst (cockpit_web_response_queue push self b))"
proof (cases "complete self \<or> failed self")
  case False
  then have "\<not> is_done self" using assms by (auto simp: response_inv_def flags_ok_def)
  then show ?thesis
    using assms False fold_block_inv by (auto simp: cockpit_web_response_queue_def queue_filter_all split: prod.splits)
qed (use assms in \<open>auto simp: cockpit_web_response_queue_def\<close>)

lemma complete_inv:
  assumes "response_inv self"
  shows "response_inv (cockpit_web_response_complete self)"
proof (cases "complete self \<or> failed self")
  case False
  define c where "c = self\<lparr>complete := True\<rparr>"
  define q where "q = (if chunked c then queue_bytes c last_chunk else c)"
  have fin: "\<not> is_done self" "flushing self = 0" "io self" using assms False by (auto simp: response_inv_def flags_ok_def)
  have c: "queue_ok c" "log_ok c" using assms fin by (auto simp: c_def response_inv_defs)
  have q: "queue_ok q" "log_ok q" using queue_bytes_ok [OF c, of last_chunk] c fin by (auto simp: q_def c_def)
  have fields: "\<not> is_done q" "flushing q = 0" "io q" "\<not> failed q" "complete q" "queue q \<noteq> [] \<longrightarrow> source q"
    using queue_bytes_source [of c last_chunk] fin False assms by (auto simp: q_def c_def response_inv_def flags_ok_def)
  have "cockpit_web_response_complete self = (if source q then q else q\<lparr>flushing := flushing q + 1\<rparr>)"
    using False by (simp add: cockpit_web_response_complete_def q_def c_def Let_def)
  then show ?thesis using q fields by (auto simp: response_inv_def queue_ok_def log_ok_def flags_ok_def sent_def queued_def dones_def)
qed (use assms in \<open>auto simp: cockpit_web_response_complete_def\<close>)

lemma done_inv:
  assumes "queue_ok self" "log_ok self" "\<not> is_done self" "complete self \<or> failed self" "flushing self = 0"
    and "complete self \<and> \<not> failed self \<longrightarrow> queue self = []"
  shows "response_inv (cockpit_web_response_done self)"
  using assms
  by (auto simp: cockpit_web_response_done_def response_assert_def note_event_def response_inv_defs Let_def)

lemma abort_inv:
  assumes "response_inv self"
  shows "response_inv (cockpit_web_response_abort self)"
proof (cases "complete self \<or> failed self")
  case False
  have "response_inv (cockpit_web_response_done (self\<lparr>complete := True, failed := True\<rparr>))"
    using assms False by (intro done_inv) (auto simp: response_inv_defs)
  then show ?thesis using False by (simp add: cockpit_web_response_abort_def)
qed (use assms in \<open>auto simp: cockpit_web_response_abort_def\<close>)

lemma flushed_inv:
  assumes "response_inv self" "flushing self > 0"
  shows "response_inv (on_output_flushed self ok)"
  using assms unfolding on_output_flushed_def Let_def
  by (intro done_inv) (auto simp: response_inv_defs)

lemma output_empty:
  "queue self = [] \<Longrightarrow> on_response_output self r =
    (if complete self then self\<lparr>source := False, flushing := flushing self + 1\<rparr> else self\<lparr>source := False\<rparr>, False)"
  by (simp add: on_response_output_def)

text \<open>What a write that takes \<open>n\<close> bytes does, without the pressure signal.\<close>

definition after_write :: "'f CockpitWebResponse \<Rightarrow> nat \<Rightarrow> 'f CockpitWebResponse" where
  "after_write self n =
     (let self' = note_event (Sent (take n (offered self))) self in
      if n = length (offered self)
      then self'\<lparr>partial_offset := 0, queue := tl (queue self), out_queued := out_queued self - length (hd (queue self))\<rparr>
      else self'\<lparr>partial_offset := partial_offset self + n\<rparr>)"

lemma output_written:
  assumes "queue_ok self" "queue self \<noteq> []" "n \<le> length (offered self)"
  shows "on_response_output self (Written n) =
    (if out_queued self \<ge> QUEUE_PRESSURE \<and> out_queued (after_write self n) < QUEUE_PRESSURE
     then note_event (Flow_pressure False) (after_write self n) else after_write self n, True)"
proof -
  obtain b q where q: "queue self = b # q" using assms(2) by (cases "queue self") auto
  have p: "partial_offset self < length b" "length b \<le> out_queued self" "drop (partial_offset self) b \<noteq> []"
    using assms(1) q by (auto simp: queue_ok_def)
  have o: "offered self = drop (partial_offset self) b" using q by (simp add: offered_def)
  show ?thesis
    using q p assms(3) unfolding o
    by (auto simp: on_response_output_def after_write_def o response_assert_def note_event_def Let_def)
qed

lemma after_write_fields [simp]:
  "is_done (after_write self n) = is_done self" "complete (after_write self n) = complete self" "failed (after_write self n) = failed self"
  "flushing (after_write self n) = flushing self" "io (after_write self n) = io self" "keep_alive (after_write self n) = keep_alive self"
  "chunked (after_write self n) = chunked self" "source (after_write self n) = source self" "filters (after_write self n) = filters self"
  "req_method (after_write self n) = req_method self"
  by (simp_all add: after_write_def note_event_def Let_def)

lemma after_write_queue_ok:
  assumes "queue_ok self" "queue self \<noteq> []" "n \<le> length (offered self)"
  shows "queue_ok (after_write self n)"
proof -
  obtain b q where q: "queue self = b # q" using assms(2) by (cases "queue self") auto
  have o: "offered self = drop (partial_offset self) b" "partial_offset self < length b" using q assms(1) by (simp_all add: offered_def queue_ok_def)
  have cut: "take n (drop (partial_offset self) b) @ drop (partial_offset self + n) b @ r = drop (partial_offset self) b @ r" for r
    by (metis append_take_drop_id drop_drop add.commute append.assoc)
  show ?thesis
    using assms(1,3) q o by (auto simp: cut partial_ok_0 after_write_def note_event_def queue_ok_def sent_def queued_def Let_def)
qed

lemma after_write_inv:
  assumes "response_inv self" "source self" "queue self \<noteq> []" "n \<le> length (offered self)"
  shows "response_inv (after_write self n)"
proof -
  have "log_ok (after_write self n)"
    using assms by (auto simp: after_write_def response_inv_defs note_event_def Let_def)
  moreover have "flags_ok (after_write self n)" using assms(1,2) by (auto simp: response_inv_def flags_ok_def)
  ultimately show ?thesis using assms after_write_queue_ok [of self n] by (simp add: response_inv_def)
qed

lemma pressure_inv [simp]: "response_inv (note_event (Flow_pressure b) self) = response_inv self"
  by (simp add: note_event_def response_inv_defs)

lemma output_failed:
  assumes "queue_ok self" "queue self \<noteq> []"
  shows "on_response_output self Would_block = (self, True)"
    "on_response_output self Output_error = (cockpit_web_response_done (self\<lparr>failed := True\<rparr>), False)"
  using assms by (cases "queue self"; auto simp: on_response_output_def queue_ok_def response_assert_def Let_def)+

lemma output_inv:
  assumes "response_inv self" "source self"
  shows "response_inv (fst (on_response_output self (kernel_takes self r)))"
proof (cases "queue self = []")
  case True
  then show ?thesis using assms by (auto simp: output_empty response_inv_defs)
next
  case False
  have ok: "queue_ok self" using assms(1) by (simp add: response_inv_def)
  have d: "response_inv (cockpit_web_response_done (self\<lparr>failed := True\<rparr>))"
    using assms by (intro done_inv) (auto simp: response_inv_defs)
  have n: "response_inv (fst (on_response_output self (Written n)))" if "n \<le> length (offered self)" for n
    using output_written [OF ok False that] after_write_inv [OF assms False that] by simp
  show ?thesis
    using output_failed [OF ok False] assms(1) d n [OF min.cobounded2] by (cases r) (simp_all add: kernel_takes_def)
qed

lemma response_step_inv: "response_inv self \<Longrightarrow> response_inv (response_step push self op)"
  by (cases op) (simp_all add: queue_inv complete_inv abort_inv output_inv flushed_inv)

lemma run_inv: "response_inv self \<Longrightarrow> response_inv (response_run push self ops)"
  by (induction ops arbitrary: self) (simp_all add: response_step_inv)

section \<open>The start\<close>

text \<open>A response before its headers.\<close>

definition fresh :: "'f CockpitWebResponse \<Rightarrow> bool" where
  "fresh self \<longleftrightarrow>
     io self \<and> queue self = [] \<and> out_queued self = 0 \<and> partial_offset self = 0 \<and> \<not> source self \<and> count self = 0 \<and> \<not> complete self \<and>
     \<not> failed self \<and> \<not> is_done self \<and> flushing self = 0 \<and> events self = [] \<and> \<not> chunked self \<and> out_queueable self = G_MAXSIZE"

lemma fresh_new: "fresh (cockpit_web_response_new True original pth hs meth proto)"
  by (simp add: fresh_def cockpit_web_response_new_def Let_def)

lemma fresh_prepared:
  "fresh self \<Longrightarrow> fresh (cockpit_web_response_add_filter self f)"
  "fresh self \<Longrightarrow> fresh (cockpit_web_response_set_cache_type self ct)"
  "fresh self \<Longrightarrow> fresh (fst (response_next_path self))"
  by (auto simp: fresh_def cockpit_web_response_add_filter_def cockpit_web_response_set_cache_type_def response_next_path_def
      split: option.splits list.splits)

lemma fresh_inv: "fresh self \<Longrightarrow> response_inv self"
  by (simp add: fresh_def response_inv_defs)

lemma finish_length_fields:
  assumes "finish_length self len status seen = (self', framing)"
  shows "response_inv self' = response_inv self" "is_done self' = is_done self" "complete self' = complete self"
    "filters self' = filters self" "events self' = events self" "out_queued self' = out_queued self" "req_method self' = req_method self"
    "keep_alive self' = keep_alive self" "failed self' = failed self" "io self' = io self" "source self' = source self" "queue self' = queue self"
    "flushing self' = flushing self" "cache_type self' = cache_type self"
  using assms by (auto simp: finish_length_def simp del: asc_simps split: if_splits)

lemma finish_headers_framing:
  assumes "finish_headers self str len status seen = (self', block)"
  obtains framing where "finish_length self len status seen = (self', framing)"
    "block = (str @ finish_type self status seen @ framing @ finish_cache self' status seen @
      (if \<not> keep_alive self' then header_line (asc ''Connection'') (asc ''close'') else []) @ finish_security seen) @ crlf"
proof -
  obtain s1 framing where fl: "finish_length self len status seen = (s1, framing)" by fastforce
  have "s1 = self'" and "block = (str @ finish_type self status seen @ framing @ finish_cache s1 status seen @
      (if \<not> keep_alive s1 then header_line (asc ''Connection'') (asc ''close'') else []) @ finish_security seen) @ crlf"
    using assms unfolding finish_headers_def fl prod.case prod.inject append.assoc by blast+
  then show ?thesis using that fl by blast
qed

lemma finish_headers_fields:
  assumes "finish_headers self str len status seen = (self', block)"
  shows "response_inv self' = response_inv self" "is_done self' = is_done self" "complete self' = complete self" "block \<noteq> []"
    "failed self' = failed self"
proof -
  obtain framing where fl: "finish_length self len status seen = (self', framing)" and
    b: "block = (str @ finish_type self status seen @ framing @ finish_cache self' status seen @
      (if \<not> keep_alive self' then header_line (asc ''Connection'') (asc ''close'') else []) @ finish_security seen) @ crlf"
    by (rule finish_headers_framing [OF assms])
  show "response_inv self' = response_inv self" "is_done self' = is_done self" "complete self' = complete self" "failed self' = failed self"
    using finish_length_fields [OF fl] by simp_all
  show "block \<noteq> []" unfolding b by (simp only: append_is_Nil_conv crlf_not_Nil simp_thms)
qed

lemma headers_inv:
  assumes "fresh self"
  shows "response_inv (cockpit_web_response_headers self status reason len hs)"
proof -
  obtain str seen where t: "append_table (begin_headers status reason) hs = (str, seen)" by fastforce
  obtain self' block where f: "finish_headers self str len (int status) seen = (self', block)" by fastforce
  show ?thesis
    using assms t f finish_headers_fields [OF f] fresh_inv [OF assms]
    by (auto simp: cockpit_web_response_headers_def fresh_def intro!: queue_bytes_inv)
qed

section \<open>Properties\<close>

text \<open>C16: Whatever is done with a response after its headers, and whatever the kernel takes of each write: no assertion fails, what was written is a prefix
  of what was queued, in order, the \<^verbatim>\<open>done\<close> signal comes at most once, and when it says that the connection can be used again then everything that was queued was written and the response is complete.\<close>

theorem web_response_run_safe:
  fixes self :: "'f CockpitWebResponse" and push :: "'f \<Rightarrow> bytes \<Rightarrow> 'f \<times> bytes list"
  assumes "fresh self" "s = response_run push (cockpit_web_response_headers self status reason len hs) ops"
  shows "Assertion_failed \<notin> set (events s) \<and> (\<exists>rest. queued s = sent s @ rest) \<and> dones s \<le> 1 \<and>
    (Signal_done True \<in> set (events s) \<longrightarrow> complete s \<and> sent s = queued s)"
proof -
  have inv: "response_inv s" using headers_inv [OF assms(1)] assms(2) by (simp add: run_inv)
  then have "queued s = sent s @ drop (partial_offset s) (concat (queue s))" by (simp add: response_inv_def queue_ok_def)
  with inv show ?thesis by (auto simp: response_inv_def queue_ok_def log_ok_def)
qed

theorem web_response_run_safe_witness:
  "dones (response_run (\<lambda>f b. (f, [b]))
     (cockpit_web_response_headers (cockpit_web_response_new True None None None (asc ''GET'') None :: nat CockpitWebResponse) 200 (asc ''OK'') 1 [])
     [Queue_block [65], Complete, Output (Written 1000), Output (Written 1000), Output (Written 1), Flushed True]) \<le> 1"
  using web_response_run_safe [OF fresh_new refl] by blast

section \<open>A complete response is sent\<close>

definition remaining :: "'f CockpitWebResponse \<Rightarrow> nat" where
  "remaining self = length (concat (queue self)) - partial_offset self"

definition sending :: "'f CockpitWebResponse \<Rightarrow> bool" where
  "sending self \<longleftrightarrow> response_inv self \<and> complete self \<and> \<not> is_done self"

lemma sent_queued: "response_inv self \<Longrightarrow> length (queued self) = length (sent self) + remaining self"
  unfolding remaining_def response_inv_def queue_ok_def by (metis length_append length_drop)

lemma note_fields [simp]:
  "queue (note_event ev self) = queue self" "partial_offset (note_event ev self) = partial_offset self"
  "complete (note_event ev self) = complete self" "is_done (note_event ev self) = is_done self"
  "keep_alive (note_event ev self) = keep_alive self"
  by (simp_all add: note_event_def)

lemma queued_note [simp]:
  "queued (note_event (Sent b) self) = queued self" "queued (note_event (Flow_pressure p) self) = queued self"
  "queued (note_event (Signal_done r) self) = queued self"
  by (simp_all add: queued_def note_event_def)

lemma queued_after_write [simp]: "queued (after_write self n) = queued self"
  by (simp add: after_write_def Let_def note_event_def queued_def)

lemma response_output_progress:
  assumes "sending self" "source self" "queue self \<noteq> []" "0 < n"
  shows "remaining (response_step push self (Output (Written n))) < remaining self \<and>
    sending (response_step push self (Output (Written n))) \<and> queued (response_step push self (Output (Written n))) = queued self \<and>
    keep_alive (response_step push self (Output (Written n))) = keep_alive self"
proof -
  have inv: "response_inv self" and ok: "queue_ok self" using assms(1) by (simp_all add: sending_def response_inv_def)
  obtain b q where q: "queue self = b # q" using assms(3) by (cases "queue self") auto
  define m where "m = min n (length (offered self))"
  have off: "offered self \<noteq> []" "length (offered self) = length b - partial_offset self" "partial_offset self < length b"
    using ok q by (auto simp: offered_def queue_ok_def)
  have m: "0 < m" "m \<le> length (offered self)" using assms(4) off(1) by (auto simp: m_def)
  have "remaining (after_write self m) < remaining self"
    using m off q by (auto simp: remaining_def after_write_def note_event_def Let_def)
  moreover have "response_step push self (Output (Written n)) =
      (if out_queued self \<ge> QUEUE_PRESSURE \<and> out_queued (after_write self m) < QUEUE_PRESSURE
       then note_event (Flow_pressure False) (after_write self m) else after_write self m)"
    using output_written [OF ok assms(3) m(2)] assms(2) by (simp add: kernel_takes_def m_def)
  moreover have "sending (after_write self m)"
    using after_write_inv [OF inv assms(2,3) m(2)] assms(1) by (simp add: sending_def)
  ultimately show ?thesis by (simp add: sending_def remaining_def del: response_step.simps)
qed

lemma response_outputs_drain:
  assumes "sending self" "list_all (\<lambda>n. 0 < n) ns" "remaining self < length ns"
  shows "(\<lambda>s. sending s \<and> flushing s = 1 \<and> queued s = queued self \<and> keep_alive s = keep_alive self \<and> queue s = [])
    (response_run push self (map (\<lambda>n. Output (Written n)) ns))"
  using assms
proof (induction ns arbitrary: self)
  case (Cons n ns)
  have inv: "response_inv self" "complete self" "\<not> is_done self" using Cons.prems(1) by (simp_all add: sending_def)
  have idle: "response_run push s (map (\<lambda>n. Output (Written n)) ns) = s" if "\<not> source s" for s
    using that by (induction ns) simp_all
  consider "source self" "queue self \<noteq> []" | "source self" "queue self = []" | "\<not> source self" by blast
  then show ?case
  proof cases
    case 1
    define s1 where "s1 = response_step push self (Output (Written n))"
    have s1: "remaining s1 < remaining self" "sending s1" "queued s1 = queued self" "keep_alive s1 = keep_alive self"
      using response_output_progress [OF Cons.prems(1) 1, of n push] Cons.prems(2) by (simp_all add: s1_def del: response_step.simps)
    have run: "response_run push self (map (\<lambda>n. Output (Written n)) (n # ns)) = response_run push s1 (map (\<lambda>n. Output (Written n)) ns)"
      by (simp add: s1_def del: response_step.simps)
    show ?thesis
      unfolding run using Cons.IH [OF s1(2)] s1 Cons.prems(2,3) by simp
  next
    case 2
    let ?s = "self\<lparr>source := False, flushing := flushing self + 1\<rparr>"
    have st: "response_step push self (Output (Written n)) = ?s" using 2 inv by (simp add: output_empty)
    then have "response_inv ?s" using response_step_inv [OF inv(1)] by metis
    then have "sending ?s" using inv by (simp add: sending_def)
    moreover have "flushing self = 0" using inv(1) 2(1) by (auto simp: response_inv_def flags_ok_def)
    moreover have "queued ?s = queued self" by (simp add: queued_def)
    ultimately show ?thesis using idle [of ?s] 2(2) st by (simp del: response_step.simps)
  next
    case 3
    have "flags_ok self" using inv by (simp add: response_inv_def)
    then have "flushing self = 1" "queue self = []" using 3 inv unfolding flags_ok_def by blast+
    moreover have "response_run push self (map (\<lambda>n. Output (Written n)) (n # ns)) = self" using 3 idle [of self] by simp
    ultimately show ?thesis using Cons.prems(1) by metis
  qed
qed simp

lemma response_drained:
  fixes self :: "'f CockpitWebResponse" and push :: "'f \<Rightarrow> bytes \<Rightarrow> 'f \<times> bytes list"
  assumes "fresh self" "s = response_run push (cockpit_web_response_headers self status reason len hs) ops"
    and "complete s" "\<not> is_done s" "list_all (\<lambda>n. 0 < n) ns" "length (queued s) - length (sent s) < length ns"
    and "s' = response_run push s (map (\<lambda>n. Output (Written n)) ns @ [Flushed True])"
  shows "is_done s' \<and> sent s' = queued s \<and> Signal_done (keep_alive s) \<in> set (events s')"
proof -
  have inv: "response_inv s" using headers_inv [OF assms(1)] assms(2) by (simp add: run_inv)
  then have send: "sending s" using assms(3,4) by (simp add: sending_def)
  have rem: "remaining s < length ns" using assms(6) sent_queued [OF inv] by simp
  define d where "d = response_run push s (map (\<lambda>n. Output (Written n)) ns)"
  have d: "sending d" "flushing d = 1" "queued d = queued s" "keep_alive d = keep_alive s" "queue d = []"
    using response_outputs_drain [OF send assms(5) rem, of push] by (simp_all add: d_def)
  have s': "s' = on_output_flushed d True" using assms(7) d(2) by (simp add: d_def response_run_def)
  have "sent d = queued d" using d(1,5) by (simp add: sending_def response_inv_def queue_ok_def)
  moreover have "\<not> failed d" using d(1) by (auto simp: sending_def response_inv_def flags_ok_def)
  ultimately show ?thesis
    using d s' by (simp add: on_output_flushed_def cockpit_web_response_done_def response_assert_def note_event_def sending_def sent_def)
qed

text \<open>C17: Once a response is complete, it is sent: if every write takes at least a byte, then after as many writes as there are bytes left, and one more,
  and the flush, everything queued was written, and the \<^verbatim>\<open>done\<close> signal says whether the connection is kept alive.\<close>

theorem web_response_completes:
  fixes self :: "'f CockpitWebResponse" and push :: "'f \<Rightarrow> bytes \<Rightarrow> 'f \<times> bytes list"
  assumes "fresh self" "s = response_run push (cockpit_web_response_headers self status reason len hs) ops"
    and "complete s" "\<not> is_done s" "list_all (\<lambda>n. 0 < n) ns" "length (queued s) - length (sent s) < length ns"
    and "s' = response_run push s (map (\<lambda>n. Output (Written n)) ns @ [Flushed True])"
  shows "is_done s' \<and> sent s' = queued s \<and> Signal_done (keep_alive s) \<in> set (events s')"
  using response_drained [OF assms] .

lemma headers_fields:
  assumes "fresh self"
  shows "\<not> complete (cockpit_web_response_headers self status reason len hs) \<and>
    \<not> failed (cockpit_web_response_headers self status reason len hs) \<and> \<not> is_done (cockpit_web_response_headers self status reason len hs)"
proof -
  obtain str seen where t: "append_table (begin_headers status reason) hs = (str, seen)" by fastforce
  obtain self' block where f: "finish_headers self str len (int status) seen = (self', block)" by fastforce
  show ?thesis using assms t f finish_headers_fields [OF f] by (simp add: cockpit_web_response_headers_def fresh_def)
qed

lemma complete_fields:
  "\<not> complete self \<Longrightarrow> \<not> failed self \<Longrightarrow> complete (cockpit_web_response_complete self) \<and> is_done (cockpit_web_response_complete self) = is_done self"
  by (simp add: cockpit_web_response_complete_def Let_def)

theorem web_response_completes_witness:
  "(\<lambda>s. is_done (response_run (\<lambda>f b. (f, [b])) s (map (\<lambda>n. Output (Written n)) (replicate (Suc (length (queued s))) 1) @ [Flushed True])))
     (response_run (\<lambda>f b. (f, [b]))
       (cockpit_web_response_headers (cockpit_web_response_new True None None None (asc ''GET'') None :: nat CockpitWebResponse) 200 (asc ''OK'') 1 [])
       [Complete])"
proof -
  define self where "self = (cockpit_web_response_new True None None None (asc ''GET'') None :: nat CockpitWebResponse)"
  have fr: "fresh self" unfolding self_def by (rule fresh_new)
  define s where "s = response_run (\<lambda>f b. (f, [b])) (cockpit_web_response_headers self 200 (asc ''OK'') 1 []) [Complete]"
  have "complete s" "\<not> is_done s"
    using headers_fields [OF fr, of 200 "asc ''OK''" 1 "[]"] complete_fields [of "cockpit_web_response_headers self 200 (asc ''OK'') 1 []"]
    by (simp_all add: s_def del: asc_simps)
  moreover have "list_all (\<lambda>n. 0 < n) (replicate (Suc (length (queued s))) (1::nat))" by (simp add: list_all_iff)
  ultimately have "is_done (response_run (\<lambda>f b. (f, [b])) s (map (\<lambda>n. Output (Written n)) (replicate (Suc (length (queued s))) 1) @ [Flushed True]))"
    using web_response_completes [OF fr s_def _ _ _ _ refl, of "replicate (Suc (length (queued s))) 1"] by (simp del: response_run_simps replicate_Suc)
  then show ?thesis unfolding s_def self_def .
qed

end
