(* ===== verification/WebResponseBody.thy ===== *)
theory WebResponseBody
  imports WebResponseSafety WebInject
begin

text \<open>
  The body of a response on the wire.  An independent reader of chunked bodies gets back what the filters made of the blocks that were queued, and for the
  filter of \<open>WebInject\<close> that is the insertion into the whole body.
\<close>

section \<open>Chunks\<close>

definition is_hex :: "byte \<Rightarrow> bool" where
  "is_hex b \<longleftrightarrow> is_digit b \<or> (97 \<le> b \<and> b \<le> 102)"

definition hex_value :: "byte \<Rightarrow> nat" where
  "hex_value b = (if is_digit b then unat b - 48 else unat b - 87)"

definition read_hex :: "bytes \<Rightarrow> (nat \<times> bytes) option" where
  "read_hex s =
     (let ds = takeWhile is_hex s in
      if ds = [] then None else Some (foldl (\<lambda>v b. v * 16 + hex_value b) 0 ds, drop (length ds) s))"

text \<open>A reader of a chunked body: the data, and what comes after it.\<close>

function dechunk :: "bytes \<Rightarrow> (bytes \<times> bytes) option" where
  "dechunk s =
     (case read_hex s of
        None \<Rightarrow> None
      | Some (n, r) \<Rightarrow>
          if \<not> starts_with r crlf then None
          else
            let r = drop 2 r in
            if n = 0 then (if starts_with r crlf then Some ([], drop 2 r) else None)
            else if length r < n \<or> \<not> starts_with (drop n r) crlf then None
            else map_option (\<lambda>(data, rest). (take n r @ data, rest)) (dechunk (drop (n + 2) r)))"
  by pat_completeness auto
termination
proof (relation "measure length", simp, goal_cases)
  case (1 s x n r r')
  have "length r \<le> length s" using 1(1,2) by (auto simp: read_hex_def Let_def split: if_splits)
  moreover have "r' \<noteq> []" using 1 by auto
  ultimately show ?case using 1 by (auto simp: length_greater_0_conv [symmetric] simp del: length_greater_0_conv)
qed

declare dechunk.simps [simp del]

lemma hex_digit_props: "d < 16 \<Longrightarrow> is_hex (hex_digit d) \<and> hex_value (hex_digit d) = d"
proof -
  assume d: "d < 16"
  have "\<forall>d\<in>{..<16}. is_hex (hex_digit d) \<and> hex_value (hex_digit d) = d"
    by (simp add: lessThan_nat_numeral lessThan_Suc is_hex_def hex_digit_def hex_value_def is_digit_def)
  then show ?thesis using d by simp
qed

lemma hex_number_all: "list_all is_hex (hex_number n)"
proof (induction n rule: hex_number.induct)
  case (1 n)
  then show ?case by (subst hex_number.simps) (simp add: hex_digit_props)
qed

lemma hex_number_value: "foldl (\<lambda>v b. v * 16 + hex_value b) 0 (hex_number n) = n"
proof (induction n rule: hex_number.induct)
  case (1 n)
  then show ?case by (subst hex_number.simps) (simp add: hex_digit_props)
qed

lemma hex_number_not_Nil [simp]: "hex_number n \<noteq> []"
  by (subst hex_number.simps) simp

lemma read_hex_number: "read_hex (hex_number n @ crlf @ r) = Some (n, crlf @ r)"
proof -
  have "\<not> is_hex 13" by (simp add: is_hex_def is_digit_def)
  then have "takeWhile is_hex (hex_number n @ crlf @ r) = hex_number n"
    using hex_number_all [of n] by (simp add: crlf_def takeWhile_append list_all_iff)
  then show ?thesis by (simp add: read_hex_def hex_number_value)
qed

definition chunk :: "bytes \<Rightarrow> bytes" where
  "chunk b = hex_number (length b mod 2 ^ 32) @ crlf @ b @ crlf"

lemma dechunk_chunk:
  assumes "b \<noteq> []" "length b < 2 ^ 32"
  shows "dechunk (chunk b @ r) = map_option (\<lambda>(data, rest). (b @ data, rest)) (dechunk r)"
proof -
  have "read_hex (chunk b @ r) = Some (length b, crlf @ b @ crlf @ r)"
    using assms(2) by (simp add: chunk_def read_hex_number)
  then show ?thesis
    using assms(1) by (subst dechunk.simps) (simp add: crlf_def)
qed

lemma dechunk_last: "dechunk (last_chunk @ r) = Some ([], r)"
proof -
  have "hex_number 0 = [48]" by (subst hex_number.simps) (simp add: hex_digit_def)
  then have "read_hex (last_chunk @ r) = Some (0, crlf @ crlf @ r)"
    using read_hex_number [of 0 "crlf @ r"] by (simp add: last_chunk_def)
  then show ?thesis by (subst dechunk.simps) (simp add: crlf_def)
qed

definition encode :: "bool \<Rightarrow> bytes list \<Rightarrow> bytes" where
  "encode ch bs = (if ch then concat (map chunk (filter (\<lambda>b. b \<noteq> []) bs)) else concat bs)"

lemma encode_simps [simp]:
  "encode ch [] = []" "encode ch (as @ bs) = encode ch as @ encode ch bs"
  "encode ch (b # bs) = (if b = [] then [] else if ch then chunk b else b) @ encode ch bs"
  by (simp_all add: encode_def)

lemma dechunk_encode:
  "\<forall>b\<in>set bs. length b < 2 ^ 32 \<Longrightarrow> dechunk (encode True bs @ last_chunk @ r) = Some (concat bs, r)"
proof (induction bs)
  case (Cons b bs)
  then show ?case by (cases "b = []") (simp_all add: dechunk_chunk)
qed (simp add: dechunk_last)

section \<open>What is queued\<close>

definition uncritical :: "'f CockpitWebResponse \<Rightarrow> bool" where
  "uncritical self \<longleftrightarrow> Response_critical \<notin> set (events self)"

lemma uncritical_note [simp]: "uncritical (note_event ev self) \<longleftrightarrow> ev \<noteq> Response_critical \<and> uncritical self"
  by (auto simp: uncritical_def note_event_def)

lemma uncritical_frame [simp]:
  "uncritical (self\<lparr>out_queueable := n\<rparr>) = uncritical self" "uncritical (self\<lparr>filters := fs\<rparr>) = uncritical self"
  "uncritical (self\<lparr>complete := b\<rparr>) = uncritical self" "uncritical (self\<lparr>flushing := k\<rparr>) = uncritical self"
  "queued (self\<lparr>out_queueable := n\<rparr>) = queued self" "queued (self\<lparr>filters := fs\<rparr>) = queued self"
  "queued (self\<lparr>complete := b\<rparr>) = queued self" "queued (self\<lparr>flushing := k\<rparr>) = queued self"
  by (simp_all add: uncritical_def queued_def)

lemma queue_bytes_queued:
  assumes "uncritical (queue_bytes self b)"
  shows "uncritical self \<and> queued (queue_bytes self b) = queued self @ b"
  using assms by (auto simp: queue_bytes_def uncritical_def queued_def note_event_def Let_def split: if_splits)

lemma queue_block_queued:
  assumes "uncritical (queue_block self b)"
  shows "uncritical self \<and> queued (queue_block self b) = queued self @ encode (chunked self) [b] \<and>
    length b + out_queueable (queue_block self b) = out_queueable self"
proof -
  consider "b = []" | "b \<noteq> []" "out_queueable self < length b" | "b \<noteq> []" "\<not> out_queueable self < length b" "\<not> chunked self" |
    "b \<noteq> []" "\<not> out_queueable self < length b" "chunked self" by blast
  then show ?thesis
  proof cases
    case 4
    let ?s = "self\<lparr>out_queueable := out_queueable self - length b\<rparr>"
    let ?h = "hex_number (length b mod 2 ^ 32) @ crlf"
    have eq: "queue_block self b = queue_bytes (queue_bytes (queue_bytes ?s ?h) b) crlf"
      using 4 by (simp add: queue_block_def Let_def)
    note u3 = queue_bytes_queued [OF assms [unfolded eq]]
    note u2 = queue_bytes_queued [OF conjunct1 [OF u3]]
    note u1 = queue_bytes_queued [OF conjunct1 [OF u2]]
    show ?thesis using u1 u2 u3 4 by (simp add: eq chunk_def)
  next
    case 3
    let ?s = "self\<lparr>out_queueable := out_queueable self - length b\<rparr>"
    have eq: "queue_block self b = queue_bytes ?s b" using 3 by (simp add: queue_block_def Let_def)
    show ?thesis using queue_bytes_queued [OF assms [unfolded eq]] 3 by (simp add: eq)
  qed (use assms in \<open>auto simp: queue_block_def Let_def\<close>)
qed

lemma fold_block_queued:
  assumes "uncritical (foldl queue_block self bs)"
  shows "uncritical self \<and> queued (foldl queue_block self bs) = queued self @ encode (chunked self) bs \<and>
    length (concat bs) + out_queueable (foldl queue_block self bs) = out_queueable self"
  using assms
proof (induction bs arbitrary: self)
  case (Cons b bs)
  then have 1: "uncritical (queue_block self b) \<and> queued (foldl queue_block (queue_block self b) bs) =
      queued (queue_block self b) @ encode (chunked self) bs \<and>
      length (concat bs) + out_queueable (foldl queue_block (queue_block self b) bs) = out_queueable (queue_block self b)"
    by simp
  then show ?case using queue_block_queued [of self b] by simp
qed simp

section \<open>Runs\<close>

fun queued_blocks :: "response_op list \<Rightarrow> bytes list" where
  "queued_blocks [] = []"
| "queued_blocks (Queue_block b # ops) = b # queued_blocks ops"
| "queued_blocks (_ # ops) = queued_blocks ops"

lemma queued_blocks_append [simp]: "queued_blocks (as @ bs) = queued_blocks as @ queued_blocks bs"
  by (induction as rule: queued_blocks.induct) auto

text \<open>What the run has to have queued when nothing went wrong: the filters on the blocks so far, and the last chunk.\<close>

definition framed :: "('f \<Rightarrow> bytes \<Rightarrow> 'f \<times> bytes list) \<Rightarrow> 'f CockpitWebResponse \<Rightarrow> bytes list \<Rightarrow> 'f CockpitWebResponse \<Rightarrow> bool" where
  "framed push start bs self \<longleftrightarrow>
     chunked self = chunked start \<and> req_method self = req_method start \<and> keep_alive self = keep_alive start \<and>
     (let (fs, out) = (if req_method start = asc ''HEAD'' then (filters start, []) else filter_blocks push (filters start) bs) in
      filters self = fs \<and>
      queued self = queued start @ encode (chunked start) out @ (if complete self \<and> chunked start then last_chunk else []) \<and>
      length (concat out) + out_queueable self = out_queueable start)"

lemma done_frame:
  "uncritical (cockpit_web_response_done self) \<Longrightarrow> uncritical self \<and> queued (cockpit_web_response_done self) = queued self"
  "failed (cockpit_web_response_done self) = failed self" "complete (cockpit_web_response_done self) = complete self"
  "chunked (cockpit_web_response_done self) = chunked self" "filters (cockpit_web_response_done self) = filters self"
  "req_method (cockpit_web_response_done self) = req_method self" "keep_alive (cockpit_web_response_done self) = keep_alive self"
  "out_queueable (cockpit_web_response_done self) = out_queueable self"
  by (auto simp: cockpit_web_response_done_def response_assert_def note_event_def uncritical_def queued_def Let_def split: if_splits)

lemma framed_done:
  assumes "framed push start bs self" "uncritical (cockpit_web_response_done self)"
  shows "framed push start bs (cockpit_web_response_done self)"
  using assms by (simp add: framed_def done_frame)

lemma framed_frame [simp]:
  "framed push start bs (self\<lparr>source := b\<rparr>) = framed push start bs self"
  "framed push start bs (self\<lparr>flushing := k\<rparr>) = framed push start bs self"
  "framed push start bs (self\<lparr>failed := b\<rparr>) = framed push start bs self"
  "framed push start bs (note_event (Flow_pressure p) self) = framed push start bs self"
  by (simp_all add: framed_def queued_def note_event_def)

lemma framed_after_write [simp]: "framed push start bs (after_write self n) = framed push start bs self"
proof -
  have "out_queueable (after_write self n) = out_queueable self" by (simp add: after_write_def note_event_def Let_def)
  then show ?thesis by (simp add: framed_def)
qed

lemma framed_output:
  assumes "framed push start bs self" "queue_ok self" "uncritical (response_step push self (Output r))"
  shows "framed push start bs (response_step push self (Output r))"
proof (cases "source self \<and> queue self \<noteq> []")
  case False
  then show ?thesis using assms(1) by (auto simp: output_empty)
next
  case True
  have w: "framed push start bs (fst (on_response_output self (Written n)))" if "n \<le> length (offered self)" for n
    using output_written [OF assms(2) _ that] assms(1) True by simp
  show ?thesis
  proof (cases r)
    case (Written n)
    then show ?thesis using True w [OF min.cobounded2] by (simp add: kernel_takes_def)
  next
    case Would_block
    then show ?thesis using True assms(1) output_failed [OF assms(2)] by (simp add: kernel_takes_def)
  next
    case Output_error
    then show ?thesis
      using True assms output_failed [OF assms(2)] framed_done [of push start bs "self\<lparr>failed := True\<rparr>"] by (simp add: kernel_takes_def)
  qed
qed

lemma framed_queue:
  assumes "framed push start bs self" "uncritical (response_step push self (Queue_block b))" "\<not> failed self"
  shows "framed push start (bs @ [b]) (response_step push self (Queue_block b))"
proof -
  have nc: "\<not> complete self" using assms(2) by (auto simp: cockpit_web_response_queue_def)
  show ?thesis
  proof (cases "req_method start = asc ''HEAD''")
    case True
    then show ?thesis using assms nc by (simp add: framed_def cockpit_web_response_queue_def)
  next
    case False
    obtain fs out where f: "filter_blocks push (filters start) bs = (fs, out)" by fastforce
    obtain fs' out' where f': "filter_blocks push fs [b] = (fs', out')" by fastforce
    have self: "filters self = fs" "req_method self = req_method start" "chunked self = chunked start"
      using assms(1) False f by (simp_all add: framed_def)
    have step: "response_step push self (Queue_block b) = (foldl queue_block self out')\<lparr>filters := fs'\<rparr>"
      using nc assms(3) False self f' queue_filter_all [of push self b] by (simp add: cockpit_web_response_queue_def)
    have "uncritical (foldl queue_block self out')" using assms(2) unfolding step by simp
    then show ?thesis
      using fold_block_queued [of self out'] assms(1) nc False f f' unfolding step
      by (simp add: framed_def filter_blocks_append)
  qed
qed

lemma framed_complete:
  assumes "framed push start bs self" "uncritical (cockpit_web_response_complete self)" "\<not> failed self"
  shows "framed push start bs (cockpit_web_response_complete self)"
proof -
  have nc: "\<not> complete self" using assms(2) by (auto simp: cockpit_web_response_complete_def)
  define q where "q = (if chunked self then queue_bytes (self\<lparr>complete := True\<rparr>) last_chunk else self\<lparr>complete := True\<rparr>)"
  have step: "cockpit_web_response_complete self = (if source q then q else q\<lparr>flushing := flushing q + 1\<rparr>)"
    using nc assms(3) by (simp add: cockpit_web_response_complete_def q_def Let_def)
  then have "uncritical q" using assms(2) by (simp split: if_splits)
  then have "framed push start bs q"
    using assms(1) nc queue_bytes_queued [of "self\<lparr>complete := True\<rparr>" last_chunk] by (auto simp: framed_def q_def split: if_splits)
  then show ?thesis unfolding step by simp
qed

text \<open>Nothing that went wrong is forgotten.\<close>

lemma failed_stays:
  assumes "failed self"
  shows "failed (response_step push self op)"
proof (cases op)
  case (Output r)
  show ?thesis
  proof (cases "queue self")
    case (Cons b q)
    then show ?thesis
      using assms Output by (auto simp: on_response_output_def done_frame response_assert_def note_event_def Let_def split: output_result.splits)
  qed (use assms Output in \<open>simp add: output_empty\<close>)
qed (use assms in \<open>auto simp: cockpit_web_response_queue_def cockpit_web_response_complete_def cockpit_web_response_abort_def on_output_flushed_def
  done_frame note_event_def Let_def\<close>)

lemma critical_stays:
  assumes "uncritical (response_step push self op)" "response_inv self"
  shows "uncritical self"
proof (cases op)
  case (Queue_block b)
  obtain fs out where f: "filter_blocks push (filters self) [b] = (fs, out)" by fastforce
  show ?thesis
    using assms(1) f fold_block_queued [of self out] queue_filter_all [of push self b] unfolding Queue_block
    by (auto simp: cockpit_web_response_queue_def split: if_splits)
next
  case Complete
  then show ?thesis
    using assms(1) queue_bytes_queued [of "self\<lparr>complete := True\<rparr>" last_chunk]
    by (auto simp: cockpit_web_response_complete_def Let_def split: if_splits)
next
  case Abort
  then show ?thesis
    using assms(1) done_frame(1) [of "self\<lparr>complete := True, failed := True\<rparr>"]
    by (auto simp: cockpit_web_response_abort_def uncritical_def note_event_def split: if_splits)
next
  case (Output r)
  have ok: "queue_ok self" using assms(2) by (simp add: response_inv_def)
  have aw: "uncritical (after_write self n) = uncritical self" for n
    by (auto simp: after_write_def uncritical_def note_event_def Let_def)
  have w: "uncritical self" if "uncritical (fst (on_response_output self (Written n)))" "queue self \<noteq> []" "n \<le> length (offered self)" for n
    using that output_written [OF ok that(2,3)] by (simp add: aw split: if_splits)
  show ?thesis
  proof (cases "source self \<and> queue self \<noteq> []")
    case True
    then show ?thesis
      using assms(1) Output w [OF _ _ min.cobounded2] output_failed [OF ok] done_frame(1) [of "self\<lparr>failed := True\<rparr>"]
      by (cases r) (auto simp: kernel_takes_def uncritical_def)
  qed (use assms(1) Output in \<open>auto simp: output_empty uncritical_def split: if_splits\<close>)
next
  case (Flushed ok)
  then show ?thesis
    using assms(1) done_frame(1) [of "self\<lparr>flushing := flushing self - 1\<rparr>"] done_frame(1) [of "self\<lparr>flushing := flushing self - 1, failed := True\<rparr>"]
    by (auto simp: on_output_flushed_def uncritical_def Let_def split: if_splits)
qed

lemma critical_stays_run: "response_inv self \<Longrightarrow> uncritical (response_run push self ops) \<Longrightarrow> uncritical self"
proof (induction ops arbitrary: self)
  case (Cons op ops)
  then show ?case using response_step_inv [OF Cons.prems(1)] critical_stays [of push self op] by simp
qed simp

lemma framed_step:
  assumes "framed push start bs self" "response_inv self" "uncritical (response_step push self op)" "\<not> failed (response_step push self op)"
  shows "framed push start (bs @ queued_blocks [op]) (response_step push self op)"
proof -
  have nf: "\<not> failed self" using assms(4) failed_stays by blast
  have ok: "queue_ok self" using assms(2) by (simp add: response_inv_def)
  show ?thesis
  proof (cases op)
    case (Queue_block b)
    then show ?thesis using framed_queue assms(1,3) nf by (simp del: response_step.simps)
  next
    case Complete
    then show ?thesis using framed_complete assms(1,3) nf by simp
  next
    case Abort
    then show ?thesis using assms(3,4) nf by (auto simp: cockpit_web_response_abort_def done_frame split: if_splits)
  next
    case (Output r)
    then show ?thesis using framed_output assms(1,3) ok by (simp del: response_step.simps)
  next
    case (Flushed ok)
    then show ?thesis
      using assms framed_done [of push start bs "self\<lparr>flushing := flushing self - 1\<rparr>"]
        framed_done [of push start bs "self\<lparr>flushing := flushing self - 1, failed := True\<rparr>"]
      by (auto simp: on_output_flushed_def Let_def)
  qed
qed

lemma framed_run:
  assumes "response_inv start" "\<not> complete start" "uncritical (response_run push start ops)" "\<not> failed (response_run push start ops)"
  shows "framed push start (queued_blocks ops) (response_run push start ops)"
  using assms(3,4)
proof (induction ops rule: rev_induct)
  case Nil
  then show ?case using assms(2) by (simp add: framed_def)
next
  case (snoc op ops)
  let ?s = "response_run push start ops"
  have st: "response_run push start (ops @ [op]) = response_step push ?s op" by (simp add: response_run_def)
  have inv: "response_inv ?s" using assms(1) by (rule run_inv)
  have "uncritical ?s" "\<not> failed ?s"
    using snoc.prems critical_stays [OF _ inv] failed_stays unfolding st by blast+
  then show ?case using framed_step [OF snoc.IH inv] snoc.prems unfolding st by simp
qed

section \<open>Filters as functions on bodies\<close>

text \<open>A filter whose output, put together, depends on its input put together.\<close>

locale stream_filter =
  fixes push :: "'f \<Rightarrow> bytes \<Rightarrow> 'f \<times> bytes list"
    and starts :: "'f \<Rightarrow> bool"
    and effect :: "'f \<Rightarrow> bytes \<Rightarrow> bytes"
  assumes effect: "starts f \<Longrightarrow> concat (snd (push_list push f bs)) = effect f (concat bs)"
begin

lemma chain_effect: "list_all starts fs \<Longrightarrow> concat (snd (filter_blocks push fs bs)) = foldl (\<lambda>body f. effect f body) (concat bs) fs"
proof (induction fs arbitrary: bs)
  case (Cons f fs)
  then show ?case using effect [of f bs] by (auto split: prod.splits) (metis snd_conv)
qed simp

end

definition inject_starts :: "CockpitWebInject \<Rightarrow> bool" where
  "inject_starts f \<longleftrightarrow>
     cockpit_web_inject_new (marker f) (inject f) (maximum f) = Some f \<and> (unbordered (marker f) \<or> maximum f \<le> 1)"

definition inject_effect :: "CockpitWebInject \<Rightarrow> bytes \<Rightarrow> bytes" where
  "inject_effect f = inject_reference (marker f) (inject f) (maximum f)"

lemma inject_new_count: "cockpit_web_inject_new m d n = Some f \<Longrightarrow> injected f = 0"
  by (auto simp: cockpit_web_inject_new_def split: if_splits)

lemma push_list_inject: "push_list cockpit_web_inject_push f bs = push_all f bs"
  by (induction bs arbitrary: f) (auto split: prod.splits)

interpretation web_inject: stream_filter cockpit_web_inject_push inject_starts inject_effect
proof
  fix f bs
  assume f: "inject_starts f"
  then have "injected f = 0" using inject_new_count [of "marker f" "inject f" "maximum f" f] by (simp add: inject_starts_def)
  then show "concat (snd (push_list cockpit_web_inject_push f bs)) = inject_effect f (concat bs)"
    using f push_all_rest [OF inject_inv_new, of "marker f" "inject f" "maximum f" f bs]
    by (simp add: push_list_inject inject_effect_def inject_starts_def inject_rest_Nil)
qed

section \<open>The response on the wire\<close>

definition header_block :: "'f CockpitWebResponse \<Rightarrow> nat \<Rightarrow> bytes \<Rightarrow> int \<Rightarrow> (bytes \<times> bytes option) list \<Rightarrow> bytes" where
  "header_block self status reason len hs =
     (case append_table (begin_headers status reason) hs of (str, seen) \<Rightarrow> snd (finish_headers self str len (int status) seen))"

lemma headers_queued:
  assumes "fresh self" "uncritical (cockpit_web_response_headers self status reason len hs)"
  defines "h \<equiv> cockpit_web_response_headers self status reason len hs"
  shows "queued h = header_block self status reason len hs \<and> filters h = filters self \<and> req_method h = req_method self \<and>
    keep_alive h = keep_alive self \<and> (\<not> chunked h \<longrightarrow> status \<noteq> 304 \<longrightarrow> int (out_queueable h) = len)"
proof -
  obtain str seen where t: "append_table (begin_headers status reason) hs = (str, seen)" by fastforce
  obtain self' block where f: "finish_headers self str len (int status) seen = (self', block)" by fastforce
  obtain framing where fl: "finish_length self len (int status) seen = (self', framing)" by (rule finish_headers_framing [OF f])
  have h: "h = queue_bytes self' block" using assms(1) t f by (simp add: h_def cockpit_web_response_headers_def fresh_def)
  have "queued self' = []" using finish_length_fields(5) [OF fl] assms(1) by (simp add: queued_def fresh_def)
  moreover have "\<not> chunked self' \<longrightarrow> status \<noteq> 304 \<longrightarrow> int (out_queueable self') = len"
    using fl by (auto simp: finish_length_def simp del: asc_simps split: if_splits)
  ultimately show ?thesis
    using queue_bytes_queued [of self' block] assms(2) t f finish_length_fields [OF fl]
    by (simp add: h header_block_def flip: h_def)
qed

lemma reusable_run:
  assumes "fresh self" "s = response_run push (cockpit_web_response_headers self status reason len hs) ops"
    and "Signal_done True \<in> set (events s)" "uncritical s"
  shows "framed push (cockpit_web_response_headers self status reason len hs) (queued_blocks ops) s"
    and "complete s" "sent s = queued s" "uncritical (cockpit_web_response_headers self status reason len hs)"
proof -
  let ?h = "cockpit_web_response_headers self status reason len hs"
  have inv: "response_inv ?h" using assms(1) by (rule headers_inv)
  then have invs: "response_inv s" using assms(2) by (simp add: run_inv)
  show c: "complete s" "sent s = queued s" using invs assms(3) by (auto simp: response_inv_def log_ok_def queue_ok_def)
  have nf: "\<not> failed s" using invs assms(3) by (auto simp: response_inv_def log_ok_def)
  show "framed push ?h (queued_blocks ops) s"
    using framed_run [OF inv, of push ops] headers_fields [OF assms(1), of status reason len hs] assms(2,4) nf by simp
  show "uncritical ?h" using critical_stays_run [OF inv, of push ops] assms(2,4) by simp
qed

text \<open>The body on the wire, for any filters.\<close>

lemma response_wire:
  assumes "fresh self" "s = response_run push (cockpit_web_response_headers self status reason len hs) ops"
    and "Signal_done True \<in> set (events s)" "uncritical s"
    and "blocks = (if req_method self = asc ''HEAD'' then [] else snd (filter_blocks push (filters self) (queued_blocks ops)))"
  shows "sent s = header_block self status reason len hs @ encode (chunked s) blocks @ (if chunked s then last_chunk else []) \<and>
    (\<not> chunked s \<longrightarrow> status \<noteq> 304 \<longrightarrow> int (length (concat blocks)) \<le> len)"
proof -
  let ?h = "cockpit_web_response_headers self status reason len hs"
  note run = reusable_run [OF assms(1-4)]
  note h = headers_queued [OF assms(1) run(4)]
  obtain fs out where f: "filter_blocks push (filters self) (queued_blocks ops) = (fs, out)" by fastforce
  have fr: "queued s = queued ?h @ encode (chunked ?h) blocks @ (if complete s \<and> chunked ?h then last_chunk else [])"
    "length (concat blocks) + out_queueable s = out_queueable ?h" "chunked s = chunked ?h"
    using run(1) h f assms(5) by (auto simp: framed_def simp del: asc_simps split: if_splits)
  have "\<not> chunked s \<longrightarrow> status \<noteq> 304 \<longrightarrow> int (length (concat blocks)) \<le> len" using fr(2,3) h by linarith
  then show ?thesis using fr h run(2,3) by simp
qed

text \<open>C15: When a response is done and its connection can be used again, and nothing was reported as a misuse, what was written is the header block and the body that the
  filters make of the whole of what was queued: read by an independent reader of chunks, or as it is and no longer than the length that was announced.\<close>

theorem web_response_delivers:
  assumes "fresh self" "req_method self \<noteq> asc ''HEAD''" "list_all inject_starts (filters self)"
    and "s = response_run cockpit_web_inject_push (cockpit_web_response_headers self status reason len hs) ops"
    and "Signal_done True \<in> set (events s)" "Response_critical \<notin> set (events s)"
    and "list_all (\<lambda>b. length b < 2 ^ 32) (snd (filter_blocks cockpit_web_inject_push (filters self) (queued_blocks ops)))"
    and "content = foldl (\<lambda>body f. inject_effect f body) (concat (queued_blocks ops)) (filters self)"
  shows "\<exists>body. sent s = header_block self status reason len hs @ body \<and>
    (if chunked s then dechunk body = Some (content, []) else body = content \<and> (status = 304 \<or> int (length content) \<le> len))"
proof -
  let ?out = "snd (filter_blocks cockpit_web_inject_push (filters self) (queued_blocks ops))"
  have w: "sent s = header_block self status reason len hs @ encode (chunked s) ?out @ (if chunked s then last_chunk else []) \<and>
      (\<not> chunked s \<longrightarrow> status \<noteq> 304 \<longrightarrow> int (length (concat ?out)) \<le> len)"
    using response_wire [OF assms(1,4,5)] assms(2,6) by (simp add: uncritical_def)
  have c: "concat ?out = content" using web_inject.chain_effect [OF assms(3)] assms(8) by simp
  have "dechunk (encode True ?out @ last_chunk) = Some (concat ?out, [])"
    using dechunk_encode [of ?out "[]"] assms(7) by (simp add: list_all_iff)
  then show ?thesis
    using w c by (cases "chunked s") (auto simp: encode_def)
qed

lemmas header_eval = cockpit_web_response_headers_def cockpit_web_response_new_def begin_headers_def finish_headers_def finish_length_def
  finish_type_def finish_cache_def finish_security_def unless_seen_def header_line_def crlf_def success_status_def signed_digits_def
  dec_digits.simps header_flags

lemmas output_eval = on_response_output_def kernel_takes_def offered_def response_assert_def note_event_def QUEUE_PRESSURE_def Let_def

text \<open>A small response, step by step.\<close>

lemma small_response:
  assumes "\<not> complete h" "\<not> failed h" "\<not> is_done h" "req_method h = asc ''GET''" "filters h = []" "queue h = [blk]" "partial_offset h = 0"
    and "source h" "io h" "\<not> chunked h" "out_queued h = length blk" "0 < length blk" "length blk < 1000" "out_queueable h = 1" "flushing h = 0"
    and "events h = [Queued blk]" "keep_alive h"
  shows "(\<lambda>s. Signal_done True \<in> set (events s) \<and> Response_critical \<notin> set (events s) \<and> \<not> chunked s)
    (response_run push h [Queue_block [65], Complete, Output (Written 1000), Output (Written 1), Output (Written 1), Flushed True])"
proof -
  define h1 where "h1 = response_step push h (Queue_block [65])"
  have h1: "\<not> complete h1" "\<not> failed h1" "\<not> is_done h1" "queue h1 = [blk, [65]]" "partial_offset h1 = 0" "source h1" "io h1" "\<not> chunked h1"
    "out_queued h1 = length blk + 1" "flushing h1 = 0" "events h1 = [Queued blk, Queued [65]]" "keep_alive h1"
    using assms by (simp_all add: h1_def cockpit_web_response_queue_def queue_block_def queue_bytes_def note_event_def QUEUE_PRESSURE_def G_MAXSIZE_def)
  define h2 where "h2 = response_step push h1 Complete"
  have h2: "complete h2" "\<not> failed h2" "\<not> is_done h2" "queue h2 = [blk, [65]]" "partial_offset h2 = 0" "source h2" "\<not> chunked h2"
    "out_queued h2 = length blk + 1" "flushing h2 = 0" "events h2 = [Queued blk, Queued [65]]" "keep_alive h2"
    using h1 by (simp_all add: h2_def cockpit_web_response_complete_def)
  define h3 where "h3 = response_step push h2 (Output (Written 1000))"
  have h3: "complete h3" "\<not> failed h3" "\<not> is_done h3" "queue h3 = [[65]]" "partial_offset h3 = 0" "source h3" "\<not> chunked h3"
    "out_queued h3 = 1" "flushing h3 = 0" "events h3 = [Queued blk, Queued [65], Sent blk]" "keep_alive h3"
    using h2 assms(12,13) by (simp_all add: h3_def output_eval)
  define h4 where "h4 = response_step push h3 (Output (Written 1))"
  have h4: "complete h4" "\<not> failed h4" "\<not> is_done h4" "queue h4 = []" "source h4" "\<not> chunked h4"
    "flushing h4 = 0" "events h4 = [Queued blk, Queued [65], Sent blk, Sent [65]]" "keep_alive h4"
    using h3 by (simp_all add: h4_def output_eval)
  define h5 where "h5 = response_step push h4 (Output (Written 1))"
  have h5: "complete h5" "\<not> failed h5" "\<not> is_done h5" "\<not> chunked h5" "flushing h5 = 1"
    "events h5 = [Queued blk, Queued [65], Sent blk, Sent [65]]" "keep_alive h5"
    using h4 by (simp_all add: h5_def output_eval)
  have "response_run push h [Queue_block [65], Complete, Output (Written 1000), Output (Written 1), Output (Written 1), Flushed True] =
      on_output_flushed h5 True"
    using h5(5) by (simp add: h1_def h2_def h3_def h4_def h5_def del: response_step.simps(1-4))
  then show ?thesis using h5 by (simp add: on_output_flushed_def cockpit_web_response_done_def response_assert_def note_event_def)
qed

theorem web_response_delivers_witness:
  "\<exists>body. sent (response_run cockpit_web_inject_push
     (cockpit_web_response_headers (cockpit_web_response_new True None None None (asc ''GET'') None) 200 (asc ''OK'') 1 [])
     [Queue_block [65], Complete, Output (Written 1000), Output (Written 1), Output (Written 1), Flushed True]) =
   header_block (cockpit_web_response_new True None None None (asc ''GET'') None :: CockpitWebInject CockpitWebResponse) 200 (asc ''OK'') 1 [] @ body \<and>
   body = [65]"
proof -
  define self where "self = (cockpit_web_response_new True None None None (asc ''GET'') None :: CockpitWebInject CockpitWebResponse)"
  define h where "h = cockpit_web_response_headers self 200 (asc ''OK'') 1 []"
  let ?ops = "[Queue_block [65], Complete, Output (Written 1000), Output (Written 1), Output (Written 1), Flushed True]"
  have fr: "fresh self" unfolding self_def by (rule fresh_new)
  have f: "filters self = []" "req_method self = asc ''GET''" by (simp_all add: self_def cockpit_web_response_new_def del: asc_simps)
  have fields: "\<not> complete h" "\<not> failed h" "\<not> is_done h" "req_method h = asc ''GET''" "filters h = []" "partial_offset h = 0"
    "source h" "io h" "\<not> chunked h" "out_queueable h = 1" "flushing h = 0" "keep_alive h"
    "\<exists>blk. queue h = [blk] \<and> out_queued h = length blk \<and> events h = [Queued blk] \<and> 0 < length blk \<and> length blk < 1000"
    unfolding h_def self_def
    by (simp_all add: header_eval queue_bytes_def note_event_def QUEUE_PRESSURE_def G_MAXSIZE_def del: asc_simps)
  then have run: "Signal_done True \<in> set (events (response_run cockpit_web_inject_push h ?ops)) \<and>
      Response_critical \<notin> set (events (response_run cockpit_web_inject_push h ?ops)) \<and> \<not> chunked (response_run cockpit_web_inject_push h ?ops)"
    using small_response [of h] by blast
  have small: "snd (filter_blocks cockpit_web_inject_push (filters self) (queued_blocks ?ops)) = [[65]]" by (simp add: f)
  have ne: "req_method self \<noteq> asc ''HEAD''" by (simp add: f)
  have "\<exists>body. sent (response_run cockpit_web_inject_push h ?ops) = header_block self 200 (asc ''OK'') 1 [] @ body \<and>
      (if chunked (response_run cockpit_web_inject_push h ?ops)
       then dechunk body = Some (foldl (\<lambda>body f. inject_effect f body) (concat (queued_blocks ?ops)) (filters self), [])
       else body = foldl (\<lambda>body f. inject_effect f body) (concat (queued_blocks ?ops)) (filters self) \<and>
         (200 = (304::nat) \<or> int (length (foldl (\<lambda>body f. inject_effect f body) (concat (queued_blocks ?ops)) (filters self))) \<le> 1))"
    by (rule web_response_delivers [OF fr ne _ h_def [THEN arg_cong [where f = "\<lambda>h. response_run cockpit_web_inject_push h ?ops"]] _ _ _ refl])
      (use run f in \<open>simp_all del: response_run_simps add: small\<close>)
  then show ?thesis using run f unfolding h_def self_def by (simp del: response_run_simps asc_simps)
qed

text \<open>To a \<^verbatim>\<open>HEAD\<close> request with a response that is chunked, such as an error, the last chunk is sent although there is no body, on a connection that is used again.\<close>

lemma web_response_head_body:
  assumes "fresh self" "req_method self = asc ''HEAD''" "s = response_run push (cockpit_web_response_headers self status reason len hs) ops"
    and "Signal_done True \<in> set (events s)" "uncritical s" "chunked s"
  shows "sent s = header_block self status reason len hs @ last_chunk"
  using response_wire [OF assms(1,3,4,5) refl] assms(2,6) by (simp del: asc_simps)

end
