(* ===== verification/WebResponseHeaders.thy ===== *)
theory WebResponseHeaders
  imports WebResponseBody
begin

text \<open>
  The header block of a response, read by the parsers that the client side of the web socket uses: the status, the reason, and a table with the headers
  of the caller and the ones that are added.
\<close>

section \<open>The block as a list of headers\<close>

definition accepted :: "(bytes \<times> bytes option) list \<Rightarrow> headers" where
  "accepted hs =
     concat (map (\<lambda>(n, v). case v of
       Some v \<Rightarrow> if cockpit_web_response_is_simple_token n \<and> cockpit_web_response_is_header_value v then [(n, v)] else []
     | None \<Rightarrow> []) hs)"

fun seen_flags :: "(bytes \<times> bytes option) list \<Rightarrow> 32 word" where
  "seen_flags [] = 0"
| "seen_flags ((n, v) # hs) = snd (append_header [] n v) OR seen_flags hs"

lemma header_line_print: "header_line n v = print_header (n, v)"
  by (simp add: header_line_def print_header_def crlf_def)

lemma append_table_print:
  "append_table str hs = (str @ concat (map print_header (accepted hs)), seen_flags hs)"
proof (induction hs arbitrary: str)
  case (Cons h hs)
  obtain n v where "h = (n, v)" by fastforce
  then show ?case using Cons by (cases v) (simp_all add: accepted_def append_header_def header_line_print)
qed (simp add: accepted_def)

definition type_field :: "'f CockpitWebResponse \<Rightarrow> int \<Rightarrow> 32 word \<Rightarrow> headers" where
  "type_field self status seen =
     (case full_path self of
        Some p \<Rightarrow>
          if seen AND HEADER_CONTENT_TYPE = 0 \<and> success_status status then
            (case cockpit_web_response_content_type p of Some t \<Rightarrow> [(asc ''Content-Type'', t)] | None \<Rightarrow> [])
          else []
      | None \<Rightarrow> [])"

definition framing_field :: "'f CockpitWebResponse \<Rightarrow> int \<Rightarrow> int \<Rightarrow> 32 word \<Rightarrow> headers" where
  "framing_field self len status seen =
     (if status = 304 then []
      else if len < 0 \<or> seen AND HEADER_CONTENT_ENCODING \<noteq> 0 \<or> filters self \<noteq> [] then [(asc ''Transfer-Encoding'', asc ''chunked'')]
      else [(asc ''Content-Length'', dec_digits (nat len))])"

definition cache_fields :: "'f CockpitWebResponse \<Rightarrow> int \<Rightarrow> 32 word \<Rightarrow> headers" where
  "cache_fields self status seen =
     (if seen AND HEADER_CACHE_CONTROL = 0 \<and> success_status status then
        (case cache_type self of
           NO_CACHE \<Rightarrow> [(asc ''Cache-Control'', asc ''no-cache, no-store'')]
         | CACHE \<Rightarrow> [(asc ''Cache-Control'', asc ''max-age=86400, private'')]
         | CACHE_UNSET \<Rightarrow> [])
      else []) @
     (if seen AND HEADER_VARY = 0 \<and> success_status status \<and> cache_type self = CACHE then [(asc ''Vary'', asc ''Cookie'')] else []) @
     (if \<not> keep_alive self then [(asc ''Connection'', asc ''close'')] else [])"

definition security_defaults :: "(32 word \<times> bytes \<times> bytes) list" where
  "security_defaults =
     [(HEADER_DNS_PREFETCH_CONTROL, asc ''X-DNS-Prefetch-Control'', asc ''off''),
      (HEADER_REFERRER_POLICY, asc ''Referrer-Policy'', asc ''no-referrer''),
      (HEADER_CONTENT_TYPE_OPTIONS, asc ''X-Content-Type-Options'', asc ''nosniff''),
      (HEADER_CROSS_ORIGIN_RESOURCE_POLICY, asc ''Cross-Origin-Resource-Policy'', asc ''same-origin''),
      (HEADER_X_FRAME_OPTIONS, asc ''X-Frame-Options'', asc ''sameorigin'')]"

definition security_fields :: "32 word \<Rightarrow> headers" where
  "security_fields seen = map snd (filter (\<lambda>(flag, _). seen AND flag = 0) security_defaults)"

definition added_fields :: "'f CockpitWebResponse \<Rightarrow> int \<Rightarrow> int \<Rightarrow> 32 word \<Rightarrow> headers" where
  "added_fields self len status seen =
     type_field self status seen @ framing_field self len status seen @ cache_fields self status seen @ security_fields seen"

lemma finish_type_print: "finish_type self status seen = concat (map print_header (type_field self status seen))"
proof (cases "full_path self")
  case None
  then show ?thesis by (simp add: finish_type_def type_field_def)
next
  case (Some p)
  then show ?thesis
    unfolding finish_type_def type_field_def header_line_print
    by (cases "cockpit_web_response_content_type p"; cases "seen AND HEADER_CONTENT_TYPE = 0 \<and> success_status status")
      (simp_all only: option.case if_True if_False list.map concat.simps append_Nil2 simp_thms)
qed

lemma finish_length_print:
  "finish_length self len status seen = (self', framing) \<Longrightarrow> framing = concat (map print_header (framing_field self len status seen))"
  by (auto simp: finish_length_def framing_field_def header_line_print signed_digits_def simp del: asc_simps split: if_splits)

lemma finish_cache_print:
  "finish_cache self status seen @ (if \<not> keep_alive self then header_line (asc ''Connection'') (asc ''close'') else []) =
    concat (map print_header (cache_fields self status seen))"
  by (auto simp: finish_cache_def cache_fields_def header_line_print simp del: asc_simps split: cache_type.split)

lemma finish_security_print: "finish_security seen = concat (map print_header (security_fields seen))"
  by (simp add: finish_security_def security_fields_def security_defaults_def unless_seen_def header_line_print del: asc_simps)

lemma header_block_print:
  "header_block self status reason len hs =
    begin_headers status reason @ concat (map print_header (accepted hs @ added_fields self len (int status) (seen_flags hs))) @ crlf"
proof -
  let ?str = "begin_headers status reason @ concat (map print_header (accepted hs))" and ?seen = "seen_flags hs"
  obtain self' block where f: "finish_headers self ?str len (int status) ?seen = (self', block)" by fastforce
  then obtain framing where fl: "finish_length self len (int status) ?seen = (self', framing)" and
    b: "block = (?str @ finish_type self (int status) ?seen @ framing @ finish_cache self' (int status) ?seen @
      (if \<not> keep_alive self' then header_line (asc ''Connection'') (asc ''close'') else []) @ finish_security ?seen) @ crlf"
    by (rule finish_headers_framing)
  have "cache_fields self' (int status) ?seen = cache_fields self (int status) ?seen"
    using finish_length_fields [OF fl] by (simp add: cache_fields_def del: asc_simps)
  then have "block = begin_headers status reason @ concat (map print_header (accepted hs @ added_fields self len (int status) ?seen)) @ crlf"
    unfolding b finish_type_print finish_security_print finish_length_print [OF fl] added_fields_def
    using finish_cache_print [of self' "int status" ?seen] by (simp del: asc_simps)
  then show ?thesis by (simp add: header_block_def append_table_print f)
qed

section \<open>Names\<close>

abbreviation lower :: "bytes \<Rightarrow> bytes" where
  "lower \<equiv> map to_lower"

lemma header_flag_cong: "lower n = lower m \<Longrightarrow> header_flag n = header_flag m"
  by (simp add: header_flag_def str_case_equal_def del: asc_simps)

lemma flag_or_zero: "(a OR b) AND (f :: 32 word) = 0 \<longleftrightarrow> a AND f = 0 \<and> b AND f = 0"
  by (simp add: bit.conj_disj_distrib2 or_eq_0_iff)

lemma seen_flag:
  assumes "seen_flags hs AND f = 0" "(n, v) \<in> set (accepted hs)" "header_flag m = f" "f \<noteq> 0"
  shows "lower n \<noteq> lower m"
  using assms(1,2)
proof (induction hs)
  case (Cons h hs)
  obtain n' v' where h: "h = (n', v')" by fastforce
  have z: "snd (append_header [] n' v') AND f = 0" "seen_flags hs AND f = 0"
    using Cons.prems(1) by (simp_all add: h flag_or_zero)
  show ?case
  proof (cases "(n, v) \<in> set (accepted hs)")
    case False
    then have "n' = n" "v' = Some v" "cockpit_web_response_is_simple_token n" "cockpit_web_response_is_header_value v"
      using Cons.prems(2) by (auto simp: h accepted_def split: option.splits if_splits)
    then have "header_flag n AND f = 0" using z(1) by (simp add: append_header_def)
    then show ?thesis using assms(3,4) header_flag_cong [of n m] by auto
  qed (use Cons.IH z(2) in blast)
qed (simp add: accepted_def)

lemma known_flags:
  "header_flag (asc ''Content-Type'') = HEADER_CONTENT_TYPE" "header_flag (asc ''Cache-Control'') = HEADER_CACHE_CONTROL"
  "header_flag (asc ''Vary'') = HEADER_VARY"
  "list_all (\<lambda>(flag, name, v). header_flag name = flag \<and> flag \<noteq> 0) security_defaults"
  by (simp_all add: header_flag_def str_case_equal_def to_lower_def is_upper_def security_defaults_def header_flags)

lemma plain_header:
  assumes "list_all (\<lambda>b. 32 < b \<and> b < 127 \<and> b \<noteq> 58) name" "list_all (\<lambda>b. 32 \<le> b \<and> b < 127) v" "v \<noteq> [] \<longrightarrow> hd v \<noteq> 32 \<and> last v \<noteq> 32"
  shows "header_ok (name, v)"
proof -
  have chars: "b \<noteq> 10 \<and> (g_ascii_isspace b \<longrightarrow> b = 32) \<and> b \<noteq> 0 \<and> b < 128" if "b \<in> set v" for b
    using assms(2) that by (auto simp: list_all_iff g_ascii_isspace_def word_le_nat_alt word_less_nat_alt)
  have "g_utf8_validate v" using chars by (intro validate_ascii) (auto simp: list_all_iff)
  moreover have "g_strstrip v = v"
  proof (cases "v = []")
    case False
    then have "\<not> g_ascii_isspace (hd v)" "\<not> g_ascii_isspace (last v)" using chars [of "hd v"] chars [of "last v"] assms(3) by auto
    moreover have "dropWhile g_ascii_isspace w = w" if "w \<noteq> []" "\<not> g_ascii_isspace (hd w)" for w using that by (cases w) auto
    ultimately have "dropWhile g_ascii_isspace v = v" "dropWhile g_ascii_isspace (rev v) = rev v"
      using False by (simp_all add: hd_rev)
    then show ?thesis by (simp add: g_strstrip_def)
  qed (simp add: g_strstrip_def)
  ultimately show ?thesis using assms(1) chars by (auto simp: header_ok_def)
qed

lemma digits_header: "header_ok (asc ''Content-Length'', dec_digits n)"
proof (rule plain_header)
  show "list_all (\<lambda>b. 32 \<le> b \<and> b < 127) (dec_digits n)"
    by (fastforce simp: list_all_iff is_digit_def word_le_nat_alt word_less_nat_alt dest: dec_digits_all)
  have "b \<noteq> 32" if "b \<in> set (dec_digits n)" for b using dec_digits_all [OF that] by (auto simp: is_digit_def)
  then show "dec_digits n \<noteq> [] \<longrightarrow> hd (dec_digits n) \<noteq> 32 \<and> last (dec_digits n) \<noteq> 32" by (metis hd_in_set last_in_set)
qed simp

lemma content_types_ok: "list_all (\<lambda>(ext, t). header_ok (asc ''Content-Type'', t)) content_types"
  unfolding content_types_def by (simp add: plain_header)

lemma type_field_ok: "list_all header_ok (type_field self status seen)"
proof -
  have "header_ok (asc ''Content-Type'', t)" if "cockpit_web_response_content_type p = Some t" for p t
    using that content_types_ok by (auto simp: cockpit_web_response_content_type_def list_all_iff find_Some_iff simp del: asc_simps dest!: nth_mem)
  then show ?thesis by (auto simp: type_field_def simp del: asc_simps split: option.splits)
qed

lemma added_fields_ok: "list_all header_ok (added_fields self len status seen)"
proof -
  have "list_all header_ok (framing_field self len status seen)"
    using digits_header [of "nat len"] plain_header [of "asc ''Transfer-Encoding''" "asc ''chunked''"] by (simp add: framing_field_def)
  moreover have "list_all header_ok (cache_fields self status seen)"
    by (auto simp: cache_fields_def plain_header split: cache_type.split)
  moreover have "list_all (\<lambda>(_, h). header_ok h) security_defaults" by (simp add: security_defaults_def plain_header)
  then have "list_all header_ok (security_fields seen)" by (auto simp: security_fields_def list_all_iff)
  ultimately show ?thesis using type_field_ok by (simp add: added_fields_def)
qed

section \<open>No name twice\<close>

definition reserved :: "bytes list" where
  "reserved = [lower (asc ''Transfer-Encoding''), lower (asc ''Content-Length''), lower (asc ''Connection'')]"

definition names_of :: "headers \<Rightarrow> bytes list" where
  "names_of hs = map (lower \<circ> fst) hs"

lemma names_of_append [simp]: "names_of (a @ b) = names_of a @ names_of b"
  by (simp add: names_of_def)

lemma security_names: "distinct (map (lower \<circ> fst \<circ> snd) security_defaults)"
  by (simp add: security_defaults_def to_lower_def is_upper_def)

lemma security_field_names: "set (names_of (security_fields seen)) \<subseteq> set (map (lower \<circ> fst \<circ> snd) security_defaults)"
  "distinct (names_of (security_fields seen))"
proof -
  show "set (names_of (security_fields seen)) \<subseteq> set (map (lower \<circ> fst \<circ> snd) security_defaults)"
    by (auto simp: names_of_def security_fields_def)
  have "distinct (map (lower \<circ> fst \<circ> snd) (filter P security_defaults))" for P
    using security_names by (rule distinct_map_filter)
  then show "distinct (names_of (security_fields seen))" by (simp add: names_of_def security_fields_def comp_assoc)
qed

definition among :: "bytes list \<Rightarrow> bytes list \<Rightarrow> bool" where
  "among names allowed \<longleftrightarrow> distinct names \<and> set names \<subseteq> set allowed"

lemma among_append:
  "among a xs \<Longrightarrow> among b ys \<Longrightarrow> set xs \<inter> set ys = {} \<Longrightarrow> among (a @ b) (xs @ ys)"
  by (auto simp: among_def)

lemma among_simps: "among [] xs" "among [x] [x]" "among [x] [x, y]" "among [y] [x, y]"
  by (simp_all add: among_def)

lemma field_names:
  "among (names_of (type_field self status seen)) [lower (asc ''Content-Type'')]"
  "among (names_of (framing_field self len status seen)) [lower (asc ''Transfer-Encoding''), lower (asc ''Content-Length'')]"
  "among (names_of (cache_fields self status seen)) ([lower (asc ''Cache-Control'')] @ [lower (asc ''Vary'')] @ [lower (asc ''Connection'')])"
  "among (names_of (security_fields seen)) (map (lower \<circ> fst \<circ> snd) security_defaults)"
proof -
  show "among (names_of (type_field self status seen)) [lower (asc ''Content-Type'')]"
    unfolding type_field_def names_of_def by (auto simp: among_simps simp del: asc_simps split: option.split)
  show "among (names_of (framing_field self len status seen)) [lower (asc ''Transfer-Encoding''), lower (asc ''Content-Length'')]"
    unfolding framing_field_def names_of_def by (simp add: among_simps del: asc_simps)
  show "among (names_of (cache_fields self status seen)) ([lower (asc ''Cache-Control'')] @ [lower (asc ''Vary'')] @ [lower (asc ''Connection'')])"
    unfolding cache_fields_def names_of_append
  proof (intro among_append)
    show "set [lower (asc ''Cache-Control'')] \<inter> set ([lower (asc ''Vary'')] @ [lower (asc ''Connection'')]) = {}"
      "set [lower (asc ''Vary'')] \<inter> set [lower (asc ''Connection'')] = {}" by (simp_all add: to_lower_def is_upper_def)
  qed (auto simp: names_of_def among_simps simp del: asc_simps split: cache_type.split)
  show "among (names_of (security_fields seen)) (map (lower \<circ> fst \<circ> snd) security_defaults)"
    using security_field_names unfolding among_def by blast
qed

definition added_names :: "bytes list" where
  "added_names = [lower (asc ''Content-Type'')] @ [lower (asc ''Transfer-Encoding''), lower (asc ''Content-Length'')] @
     ([lower (asc ''Cache-Control'')] @ [lower (asc ''Vary'')] @ [lower (asc ''Connection'')]) @ map (lower \<circ> fst \<circ> snd) security_defaults"

lemma added_among: "among (names_of (added_fields self len status seen)) added_names"
proof -
  have disj: "set [lower (asc ''Content-Type'')] \<inter> set ([lower (asc ''Transfer-Encoding''), lower (asc ''Content-Length'')] @
      ([lower (asc ''Cache-Control'')] @ [lower (asc ''Vary'')] @ [lower (asc ''Connection'')]) @ map (lower \<circ> fst \<circ> snd) security_defaults) = {}"
    "set [lower (asc ''Transfer-Encoding''), lower (asc ''Content-Length'')] \<inter>
      set (([lower (asc ''Cache-Control'')] @ [lower (asc ''Vary'')] @ [lower (asc ''Connection'')]) @ map (lower \<circ> fst \<circ> snd) security_defaults) = {}"
    "set ([lower (asc ''Cache-Control'')] @ [lower (asc ''Vary'')] @ [lower (asc ''Connection'')]) \<inter> set (map (lower \<circ> fst \<circ> snd) security_defaults) = {}"
    by (simp_all add: security_defaults_def to_lower_def is_upper_def)
  show ?thesis unfolding added_fields_def names_of_append added_names_def by (intro among_append field_names disj)
qed

lemma seen_name:
  assumes "seen_flags hs AND header_flag m = 0" "header_flag m \<noteq> 0"
  shows "lower m \<notin> set (names_of (accepted hs))"
  using seen_flag [OF assms(1) _ refl assms(2)] by (fastforce simp: names_of_def)

lemma flag_nonzero: "HEADER_CONTENT_TYPE \<noteq> 0" "HEADER_CACHE_CONTROL \<noteq> 0" "HEADER_VARY \<noteq> 0"
  by (simp_all add: header_flags)

lemma cache_fresh:
  assumes "seen AND HEADER_CACHE_CONTROL = 0 \<Longrightarrow> lower (asc ''Cache-Control'') \<notin> A"
    and "seen AND HEADER_VARY = 0 \<Longrightarrow> lower (asc ''Vary'') \<notin> A" "lower (asc ''Connection'') \<notin> A"
  shows "A \<inter> set (names_of (cache_fields self status seen)) = {}"
  using assms unfolding cache_fields_def
  by (auto simp: names_of_def simp del: asc_simps split: cache_type.splits if_splits)

lemma added_fresh:
  assumes "set (names_of (accepted hs)) \<inter> set reserved = {}"
  shows "set (names_of (accepted hs)) \<inter> set (names_of (added_fields self len status (seen_flags hs))) = {}"
proof -
  let ?A = "set (names_of (accepted hs))"
  have res: "lower (asc ''Transfer-Encoding'') \<notin> ?A" "lower (asc ''Content-Length'') \<notin> ?A" "lower (asc ''Connection'') \<notin> ?A"
    using assms unfolding reserved_def by (auto simp del: asc_simps)
  note known = seen_name [of hs "asc ''Content-Type''", unfolded known_flags] seen_name [of hs "asc ''Cache-Control''", unfolded known_flags]
    seen_name [of hs "asc ''Vary''", unfolded known_flags]
  have "?A \<inter> set (names_of (type_field self status (seen_flags hs))) = {}"
  proof (cases "seen_flags hs AND HEADER_CONTENT_TYPE = 0")
    case True
    then have "lower (asc ''Content-Type'') \<notin> ?A" using known(1) flag_nonzero(1) by blast
    then show ?thesis using field_names(1) [of self status "seen_flags hs"] unfolding among_def by (auto simp del: asc_simps)
  next
    case False
    then have "type_field self status (seen_flags hs) = []" unfolding type_field_def by (cases "full_path self") simp_all
    then show ?thesis by (simp add: names_of_def)
  qed
  moreover have "?A \<inter> set (names_of (framing_field self len status (seen_flags hs))) = {}"
    using res field_names(2) [of self len status "seen_flags hs"] unfolding among_def by (auto simp del: asc_simps)
  moreover have "?A \<inter> set (names_of (cache_fields self status (seen_flags hs))) = {}"
    using known(2,3) flag_nonzero(2,3) res(3) by (intro cache_fresh) blast+
  moreover have "?A \<inter> set (names_of (security_fields (seen_flags hs))) = {}"
  proof -
    have "lower n \<notin> ?A" if "(f, n, v) \<in> set security_defaults" "seen_flags hs AND f = 0" for f n v
      using that known_flags(4) seen_name [of hs n] by (auto simp: list_all_iff)
    moreover have "\<exists>f n v. x = lower n \<and> (f, n, v) \<in> set security_defaults \<and> seen_flags hs AND f = 0"
      if "x \<in> set (names_of (security_fields (seen_flags hs)))" for x
      using that by (fastforce simp: security_fields_def names_of_def)
    ultimately show ?thesis by blast
  qed
  ultimately show ?thesis unfolding added_fields_def names_of_append set_append by blast
qed

section \<open>The security headers\<close>

lemma security_flag_name:
  "list_all (\<lambda>(flag, name, v). header_flag n AND flag \<noteq> 0 \<longrightarrow> lower name = lower n) security_defaults"
  unfolding security_defaults_def header_flag_def str_case_equal_def
  by (simp add: header_flags del: asc_simps)

lemma seen_flags_some:
  "seen_flags hs AND f \<noteq> 0 \<Longrightarrow> list_all (\<lambda>(n, v). v \<noteq> None) hs \<Longrightarrow> \<exists>(n, v)\<in>set (accepted hs). header_flag n AND f \<noteq> 0"
proof (induction hs)
  case (Cons h hs)
  obtain n v where h: "h = (n, Some v)" using Cons.prems(2) by auto
  then show ?case
    using Cons by (auto simp: h flag_or_zero append_header_def accepted_def split: if_splits)
qed simp

lemma lookup_names: "lower k \<in> set (names_of hs) \<Longrightarrow> headers_lookup hs k \<noteq> None"
  by (induction hs k rule: headers_lookup.induct) (auto simp: names_of_def str_case_equal_def)

lemma security_present:
  assumes "list_all (\<lambda>(n, v). v \<noteq> None) hs" "(flag, name, v) \<in> set security_defaults"
  shows "headers_lookup (accepted hs @ added_fields self len status (seen_flags hs)) name \<noteq> None"
proof (rule lookup_names, cases "seen_flags hs AND flag = 0")
  case True
  then have "(name, v) \<in> set (security_fields (seen_flags hs))" using assms(2) by (force simp: security_fields_def)
  then show "lower name \<in> set (names_of (accepted hs @ added_fields self len status (seen_flags hs)))"
    by (force simp: added_fields_def names_of_def)
next
  case False
  then obtain n w where n: "(n, w) \<in> set (accepted hs)" "header_flag n AND flag \<noteq> 0" using seen_flags_some assms(1) by fastforce
  then have "lower name = lower n" using security_flag_name [of n] assms(2) by (auto simp: list_all_iff)
  then show "lower name \<in> set (names_of (accepted hs @ added_fields self len status (seen_flags hs)))"
    using n(1) by (force simp: names_of_def)
qed

section \<open>The status line\<close>

lemma strtoull_digits:
  assumes "0 < n" "n < 2 ^ 64" "r \<noteq> []" "\<not> is_digit (hd r)"
  shows "g_ascii_strtoull (dec_digits n @ r) = Some (n, length (dec_digits n))"
proof -
  have d: "is_digit b" if "b \<in> set (dec_digits n)" for b using that by (rule dec_digits_all)
  have ns: "\<not> is_space b \<and> b \<noteq> 45 \<and> b \<noteq> 43" if "is_digit b" for b
    using that by (auto simp: is_digit_def is_space_def word_le_nat_alt)
  obtain c cs where cs: "dec_digits n = c # cs" by (cases "dec_digits n") auto
  have c: "\<not> is_space c" "c \<noteq> 45" "c \<noteq> 43" using ns [of c] d [of c] cs by auto
  have tw: "takeWhile is_digit (dec_digits n @ r) = dec_digits n"
    using d assms(3,4) by (cases r) (auto simp: takeWhile_append)
  have "takeWhile is_space (dec_digits n @ r) = []" using cs c by simp
  then show ?thesis
    using c tw assms(2,3) by (simp add: g_ascii_strtoull_def Let_def cs [symmetric]) (simp add: cs)
qed

lemma strstrip_cr: "g_strstrip (v @ [13]) = g_strstrip v"
proof (cases "\<forall>b\<in>set v. g_ascii_isspace b")
  case True
  moreover have "g_ascii_isspace 13" by (simp add: g_ascii_isspace_def)
  ultimately have e: "dropWhile g_ascii_isspace v = []" "dropWhile g_ascii_isspace (v @ [13]) = []"
    by (simp_all add: dropWhile_eq_Nil_conv)
  show ?thesis by (simp only: g_strstrip_def e)
next
  case False
  then have "dropWhile g_ascii_isspace (v @ [13]) = dropWhile g_ascii_isspace v @ [13]" by (auto simp: dropWhile_append)
  then show ?thesis by (simp add: g_strstrip_def) (simp add: g_ascii_isspace_def)
qed

lemma status_line_read:
  assumes "0 < status" "status < 2 ^ 32" "0 \<notin> set reason" "10 \<notin> set reason" "g_strstrip reason = reason" "reason \<noteq> []"
  shows "web_socket_util_parse_status_line (begin_headers status reason @ r) = Status_line status reason (length (begin_headers status reason))"
proof -
  define ds where "ds = dec_digits status"
  have nd: "b \<noteq> 10 \<and> b \<noteq> 32" if "b \<in> set ds" for b
    using dec_digits_all [of b status] that by (auto simp: ds_def is_digit_def)
  define line where "line = asc ''HTTP/1.1 '' @ ds @ [32] @ reason @ [13]"
  have data: "begin_headers status reason @ r = line @ 10 # r" by (simp add: begin_headers_def crlf_def line_def ds_def)
  have "10 \<notin> set line" using nd assms(4) by (auto simp: line_def)
  then have nl: "memchr (line @ 10 # r) 10 = Some (length line)" by (rule memchr_notin)
  have hr: "hd reason \<noteq> 32"
  proof
    assume "hd reason = 32"
    then obtain cs where "reason = 32 # cs" using assms(6) by (cases reason) auto
    then have "length (g_strstrip reason) \<le> length cs"
      unfolding g_strstrip_def by (simp add: g_ascii_isspace_def) (metis length_dropWhile_le length_rev le_trans)
    then show False using assms(5) \<open>reason = 32 # cs\<close> by simp
  qed
  have n: "parse_version line = 8" by (simp add: line_def parse_version_def)
  have d9: "drop 9 (line @ 10 # r) = ds @ 32 # reason @ 13 # 10 # r" by (simp add: line_def)
  have dep: "drop (9 + length ds) (line @ 10 # r) = 32 # reason @ 13 # 10 # r"
    using d9 by (metis append_eq_conv_conj drop_drop add.commute)
  have s1: "takeWhile (\<lambda>b. b = 32) (take (length line - 8) (drop 8 (line @ 10 # r))) = [32]"
    using nd by (cases ds) (auto simp: line_def ds_def)
  have m: "memchr (take (length line - 9) (drop 9 (line @ 10 # r))) 32 \<noteq> None"
    unfolding d9 memchr_None_iff by (simp add: line_def)
  have num: "g_ascii_strtoull (drop 9 (line @ 10 # r)) = Some (status, length ds)"
    unfolding d9 ds_def using assms(1,2) by (intro strtoull_digits) (simp_all add: is_digit_def)
  have ep: "(line @ 10 # r) ! (9 + length ds) = 32" by (simp add: line_def nth_append)
  have s2: "takeWhile (\<lambda>b. b = 32) (take (length line - (9 + length ds)) (drop (9 + length ds) (line @ 10 # r))) = [32]"
    using hr assms(6) unfolding dep by (cases reason) (auto simp: line_def take_Cons')
  have rest: "take (length line - (9 + length ds + 1)) (drop (9 + length ds + 1) (line @ 10 # r)) = reason @ [13]"
  proof -
    have e: "9 + length ds + 1 = 1 + (9 + length ds)" by simp
    have "drop 1 (drop (9 + length ds) (line @ 10 # r)) = reason @ 13 # 10 # r" unfolding dep by simp
    then have "drop (9 + length ds + 1) (line @ 10 # r) = reason @ 13 # 10 # r" unfolding e by (simp only: drop_drop)
    moreover have "length line - (9 + length ds + 1) = length (reason @ [13])" by (simp add: line_def)
    ultimately show ?thesis by (metis append.assoc append_Cons append_Nil append_eq_conv_conj)
  qed
  have strip: "g_strstrip (cstr (reason @ [13])) = reason"
    using assms(3,5) by (simp add: strstrip_cr)
  show ?thesis
    unfolding data using nl n s1 m num ep s2 rest strip assms(1,2)
    by (simp add: web_socket_util_parse_status_line_def Let_def) (simp add: begin_headers_def crlf_def line_def ds_def)
qed

section \<open>The client reads what was meant\<close>

definition field_ok :: "bytes \<times> bytes \<Rightarrow> bool" where
  "field_ok h \<longleftrightarrow> header_ok h \<and> 13 \<notin> set (snd h) \<and> 11 \<notin> set (snd h) \<and> lower (fst h) \<notin> set reserved"

lemma accepted_fields:
  assumes "list_all field_ok flds"
  shows "accepted (map (\<lambda>(n, v). (n, Some v)) flds) = flds"
  using assms
proof (induction flds)
  case (Cons h flds)
  obtain n v where h: "h = (n, v)" by fastforce
  have ok: "list_all (\<lambda>b. 32 < b \<and> b < 127 \<and> b \<noteq> 58) n" "10 \<notin> set v" "13 \<notin> set v" "11 \<notin> set v"
    using Cons.prems by (auto simp: field_ok_def header_ok_def h)
  have "cockpit_web_response_is_simple_token n"
    using ok(1) unfolding cockpit_web_response_is_simple_token_def strcspn_def by (subst takeWhile_eq_all_conv [THEN iffD2]) (auto simp: list_all_iff)
  moreover have "cockpit_web_response_is_header_value v"
    using ok(2-4) unfolding cockpit_web_response_is_header_value_def strcspn_def by (subst takeWhile_eq_all_conv [THEN iffD2]) auto
  ultimately show ?case
    using Cons by (simp add: h accepted_def)
qed (simp add: accepted_def)



end
