(* ===== verification/WebServerProperties.thy ===== *)
theory WebServerProperties
  imports WebRequest WebResponseHeaders
begin

text \<open>
  What the server of \<^verbatim>\<open>src/common/cockpitwebserver.c\<close> makes of a request: the responses of its own, which status a request gets, what the handlers see, and the invariant of
  every run of a request.
\<close>

section \<open>The responses of the server\<close>

text \<open>What is queued stays in front.\<close>

definition queued_on :: "'f CockpitWebResponse \<Rightarrow> 'f CockpitWebResponse \<Rightarrow> bool" where
  "queued_on s s' \<longleftrightarrow> (\<exists>more. queued s' = queued s @ more)"

lemma queued_on_refl [simp]: "queued_on s s"
  by (simp add: queued_on_def)

lemma queued_on_trans: "queued_on s s' \<Longrightarrow> queued_on s' s'' \<Longrightarrow> queued_on s s''"
  by (auto simp: queued_on_def)

lemma queued_on_fields [simp]:
  "queued_on s (s'\<lparr>out_queueable := n\<rparr>) = queued_on s s'" "queued_on s (s'\<lparr>filters := fs\<rparr>) = queued_on s s'"
  "queued_on s (s'\<lparr>flushing := k\<rparr>) = queued_on s s'" "queued_on s (s'\<lparr>complete := c\<rparr>) = queued_on s s'"
  "queued_on (s\<lparr>out_queueable := n\<rparr>) s' = queued_on s s'" "queued_on (s\<lparr>complete := c\<rparr>) s' = queued_on s s'"
  by (simp_all add: queued_on_def queued_def)

lemma queued_on_note: "queued_on s (note_event ev s)"
  by (simp add: queued_on_def queued_def note_event_def)

lemma queued_on_bytes: "queued_on s (queue_bytes s b)"
  by (simp add: queued_on_def queued_def queue_bytes_def note_event_def Let_def)

lemma queued_on_block: "queued_on s (queue_block s b)"
proof -
  have grow: "queued_on s (queue_bytes s' b')" if "queued_on s s'" for s' b'
    using that queued_on_bytes queued_on_trans by blast
  show ?thesis by (simp add: queue_block_def Let_def grow queued_on_note)
qed

lemma queued_on_blocks: "queued_on s (foldl queue_block s bs)"
  by (induction bs arbitrary: s) (auto intro: queued_on_trans queued_on_block)

lemma queued_on_queue: "queued_on s (fst (cockpit_web_response_queue push s b))"
  using queued_on_blocks queued_on_note
  by (auto simp: cockpit_web_response_queue_def queue_filter_all simp del: asc_simps split: prod.split)

lemma queued_on_complete: "queued_on s (cockpit_web_response_complete s)"
  using queued_on_note queued_on_bytes [of "s\<lparr>complete := True\<rparr>"]
  by (auto simp: cockpit_web_response_complete_def Let_def)

text \<open>A one shot response is a run of the response.\<close>

lemma queue_fields [simp]:
  "complete (fst (cockpit_web_response_queue push s b)) = complete s" "failed (fst (cockpit_web_response_queue push s b)) = failed s"
  "is_done (fst (cockpit_web_response_queue push s b)) = is_done s" "keep_alive (fst (cockpit_web_response_queue push s b)) = keep_alive s"
  by (auto simp: cockpit_web_response_queue_def queue_filter_all note_event_def simp del: asc_simps split: prod.split)

lemma queue_and_complete_run:
  assumes "\<not> complete s" "\<not> failed s"
  shows "queue_and_complete push s blocks = response_run push s (map Queue_block blocks @ [Complete])"
  using assms
proof (induction blocks arbitrary: s)
  case Nil
  then show ?case by (simp add: queue_and_complete_def)
next
  case (Cons b blocks)
  obtain s' ok where q: "cockpit_web_response_queue push s b = (s', ok)" by fastforce
  then have ok using Cons.prems by (auto simp: cockpit_web_response_queue_def split: if_splits)
  then show ?case
    using q Cons.IH [of s'] Cons.prems queue_fields [of push s b] by (simp add: queue_and_complete_def)
qed

lemma completed_run:
  assumes "\<not> complete s" "\<not> failed s" "\<not> is_done s" "r = response_run push s (map Queue_block blocks @ [Complete])"
  shows "complete r \<and> \<not> is_done r \<and> keep_alive r = keep_alive s \<and> queued_on s r"
  using assms
proof (induction blocks arbitrary: s)
  case Nil
  then show ?case
    using queued_on_complete [of s] by (simp add: cockpit_web_response_complete_def Let_def)
next
  case (Cons b blocks)
  then show ?case
    using Cons.IH [of "fst (cockpit_web_response_queue push s b)"] queued_on_queue [of s push b] by (auto intro: queued_on_trans)
qed

text \<open>The header block of a response of the server itself fits into the queue.\<close>

abbreviation bare_response :: "bytes \<Rightarrow> bytes \<Rightarrow> 'f CockpitWebResponse" where
  "bare_response meth proto \<equiv> cockpit_web_response_new True None None None meth (Some proto)"

lemma printed_filter: "length (concat (map (f \<circ> snd) (filter P xs))) \<le> length (concat (map (f \<circ> snd) xs))"
  by (induction xs) auto

lemma security_size: "length (concat (map print_header (security_fields seen))) \<le> 1000"
proof -
  have "length (concat (map (print_header \<circ> snd) security_defaults)) \<le> 1000"
    by (simp add: security_defaults_def print_header_def)
  then show ?thesis
    using printed_filter [of print_header "\<lambda>(flag, _). seen AND flag = 0" security_defaults] by (simp add: security_fields_def)
qed

lemma bare_block_size:
  assumes "len = - 1 \<or> len = 0"
  shows "length (header_block (bare_response meth proto :: 'f CockpitWebResponse) status reason len hs) \<le>
    length (begin_headers status reason) + length (concat (map print_header (accepted hs))) + 2000"
proof -
  have new: "full_path (bare_response meth proto :: 'f CockpitWebResponse) = None" "cache_type (bare_response meth proto :: 'f CockpitWebResponse) = CACHE_UNSET"
    "keep_alive (bare_response meth proto :: 'f CockpitWebResponse)"
    by (simp_all add: cockpit_web_response_new_def Let_def)
  have "length (concat (map print_header (framing_field (bare_response meth proto :: 'f CockpitWebResponse) len (int status) seen))) \<le> 100" for seen
    using assms length_dec_digits [of 0 1] by (auto simp: framing_field_def print_header_def)
  from this [of "seen_flags hs"] security_size [of "seen_flags hs"] show ?thesis
    unfolding header_block_print by (auto simp: added_fields_def type_field_def cache_fields_def new crlf_def)
qed

lemma headers_uncritical:
  assumes "fresh self" "length (header_block self status reason len hs) < G_MAXSIZE"
  shows "uncritical (cockpit_web_response_headers self status reason len hs)"
proof -
  obtain str seen where t: "append_table (begin_headers status reason) hs = (str, seen)" by fastforce
  obtain self' block where f: "finish_headers self str len (int status) seen = (self', block)" by fastforce
  obtain framing where fl: "finish_length self len (int status) seen = (self', framing)" by (rule finish_headers_framing [OF f])
  have "length block < G_MAXSIZE" using assms(2) t f by (simp add: header_block_def)
  then have "uncritical (queue_bytes self' block)"
    using finish_length_fields [OF fl] assms(1) by (simp add: queue_bytes_def uncritical_def note_event_def Let_def fresh_def)
  then show ?thesis using assms(1) t f by (simp add: cockpit_web_response_headers_def fresh_def)
qed

lemma bare_headers_queued:
  fixes h :: "'f CockpitWebResponse"
  assumes "len = - 1 \<or> len = 0" "length reason < 2 ^ 16" "status < 1000" "length (concat (map print_header (accepted hs))) < 2 ^ 20"
    and "h = cockpit_web_response_headers (bare_response meth proto) status reason len hs"
  shows "keep_alive h \<and> (\<exists>rest. queued h = asc ''HTTP/1.1 '' @ dec_digits status @ [32] @ rest)"
proof -
  let ?new = "bare_response meth proto :: 'f CockpitWebResponse"
  have "length (dec_digits status) \<le> 3" using assms(3) length_dec_digits [of status 3] by simp
  then have "length (begin_headers status reason) < 2 ^ 17" using assms(2) by (simp add: begin_headers_def crlf_def)
  moreover have "length (header_block ?new status reason len hs) \<le>
      length (begin_headers status reason) + length (concat (map print_header (accepted hs))) + 2000"
    by (rule bare_block_size [OF assms(1)])
  ultimately have "length (header_block ?new status reason len hs) < G_MAXSIZE" using assms(4) by (simp add: G_MAXSIZE_def)
  then have "uncritical (cockpit_web_response_headers ?new status reason len hs)"
    using headers_uncritical [OF fresh_new] by blast
  from headers_queued [OF fresh_new this] show ?thesis
    unfolding assms(5) header_block_print begin_headers_def
    by (auto simp: cockpit_web_response_new_def Let_def simp del: asc_simps)
qed

definition reply_codes :: "nat set" where
  "reply_codes = {301, 400, 404, 405, 413}"

text \<open>Every reply of the server to a request it refuses is a run of the response that ends complete and has the status in its first line.\<close>

definition answers :: "('f \<Rightarrow> bytes \<Rightarrow> 'f \<times> bytes list) \<Rightarrow> nat \<Rightarrow> 'f CockpitWebResponse \<Rightarrow> bool" where
  "answers push code r \<longleftrightarrow>
     (\<exists>new reason len hs ops. fresh new \<and> r = response_run push (cockpit_web_response_headers new code reason len hs) ops) \<and>
     complete r \<and> \<not> is_done r \<and> keep_alive r \<and> (\<exists>rest. queued r = asc ''HTTP/1.1 '' @ dec_digits code @ [32] @ rest)"

lemma answered_run:
  fixes r :: "'f CockpitWebResponse"
  assumes "h = cockpit_web_response_headers (bare_response meth proto) status reason len hs"
    and "len = - 1 \<or> len = 0" "length reason < 2 ^ 16" "status < 1000" "length (concat (map print_header (accepted hs))) < 2 ^ 20"
    and "r = response_run push h (map Queue_block blocks @ [Complete])"
  shows "answers push status r"
proof -
  have h: "\<not> complete h \<and> \<not> failed h \<and> \<not> is_done h" unfolding assms(1) by (rule headers_fields [OF fresh_new])
  have "complete r \<and> \<not> is_done r \<and> keep_alive r \<and> (\<exists>rest. queued r = asc ''HTTP/1.1 '' @ dec_digits status @ [32] @ rest)"
    using completed_run [of h r push blocks] assms(6) h bare_headers_queued [OF assms(2-5,1)] by (auto simp: queued_on_def)
  then show ?thesis using assms(1,6) fresh_new unfolding answers_def by blast
qed

lemma error_page_answers:
  fixes push :: "'f \<Rightarrow> bytes \<Rightarrow> 'f \<times> bytes list"
  assumes "code \<in> reply_codes" "0 \<notin> set fail_html"
  shows "answers push code (response_error push fail_html (bare_response meth proto) code)"
proof -
  let ?hs = "[(asc ''Content-Type'', Some html_type)]"
  define h where "h = cockpit_web_response_headers (bare_response meth proto :: 'f CockpitWebResponse) code (error_message code) (- 1) ?hs"
  have fields: "\<not> complete h \<and> \<not> failed h \<and> \<not> is_done h" unfolding h_def by (rule headers_fields [OF fresh_new])
  obtain out where out: "cockpit_template_expand (fail_html @ [0]) (length fail_html) (asc ''@@'') (asc ''@@'') (substitute_message (error_message code)) = Expanded out"
    using expand_loop_c_string [of 0 fail_html "asc ''@@''" "asc ''@@''" "substitute_message (error_message code)" "[]"] assms(2)
    by (auto simp: cockpit_template_expand_def)
  have "\<exists>blocks. response_error push fail_html (bare_response meth proto) code = response_run push h (map Queue_block blocks @ [Complete])"
  proof (cases "req_method h = asc ''HEAD''")
    case True
    then have "response_error push fail_html (bare_response meth proto) code = response_run push h (map Queue_block [] @ [Complete])"
      by (simp add: response_error_def cockpit_web_response_error_with_body_def Let_def h_def del: asc_simps)
    then show ?thesis by blast
  next
    case False
    then have "response_error push fail_html (bare_response meth proto) code = queue_and_complete push h out"
      using out by (simp add: response_error_def cockpit_web_response_error_with_body_def Let_def h_def del: asc_simps)
    then show ?thesis using queue_and_complete_run [of h push out] fields by metis
  qed
  then obtain blocks where r: "response_error push fail_html (bare_response meth proto) code = response_run push h (map Queue_block blocks @ [Complete])" by blast
  have "length (error_message code) < 2 ^ 16" "code < 1000" using assms(1) length_dec_digits [of 301 3] by (auto simp: reply_codes_def error_message_def)
  moreover have "length (concat (map print_header (accepted ?hs))) < 2 ^ 20"
    by (simp add: accepted_def print_header_def html_type_def)
  ultimately show ?thesis using answered_run [OF h_def _ _ _ _ r] by blast
qed

lemma redirect_answers:
  fixes push :: "'f \<Rightarrow> bytes \<Rightarrow> 'f \<times> bytes list"
  assumes "length (redirect_url headers pth) < 2 ^ 16"
  shows "answers push 301 (delayed_response push fail_html (bare_response meth proto) 301 pth headers)"
proof -
  let ?hs = "[(asc ''Location'', Some (redirect_url headers pth))]"
  define h where "h = cockpit_web_response_headers (bare_response meth proto :: 'f CockpitWebResponse) 301 (asc ''Moved Permanently'') 0 ?hs"
  have r: "delayed_response push fail_html (bare_response meth proto) 301 pth headers = response_run push h (map Queue_block [] @ [Complete])"
    by (simp add: delayed_response_def h_def del: asc_simps)
  have "length (concat (map print_header (accepted ?hs))) < 2 ^ 20"
    using assms by (auto simp: accepted_def print_header_def)
  moreover have "length (asc ''Moved Permanently'') < 2 ^ 16" by simp
  ultimately show ?thesis using answered_run [OF h_def _ _ _ _ r] by (simp del: asc_simps)
qed

lemma delayed_answers:
  assumes "code \<in> reply_codes" "0 \<notin> set fail_html" "length (redirect_url headers pth) < 2 ^ 16"
  shows "answers push code (delayed_response push fail_html (bare_response meth proto) code pth headers)"
  using error_page_answers [OF assms(1,2)] redirect_answers [OF assms(3)]
  by (cases "code = 301") (auto simp: delayed_response_def)

section \<open>What a request gets\<close>

text \<open>The status of a request that is refused or redirected, in the order of precedence; zero for one that goes to the handlers.\<close>

definition request_status :: "CockpitWebServer \<Rightarrow> 'f CockpitWebRequest \<Rightarrow> bytes \<Rightarrow> bytes \<Rightarrow> headers \<Rightarrow> nat" where
  "request_status web_server self meth pth headers =
     (if server_url_root web_server \<noteq> [] \<and> \<not> path_has_prefix pth (server_url_root web_server) then 404
      else if request_verdict meth headers \<noteq> 0 then request_verdict meth headers
      else if rq_check_tls_redirect self \<and> \<not> path_has_prefix pth (ssl_exception_prefix web_server) \<and> \<not> rq_local self then 301
      else 0)"

lemma request_status_codes: "request_status web_server self meth pth headers = 0 \<or> request_status web_server self meth pth headers \<in> reply_codes"
  by (simp add: request_status_def request_verdict_def reply_codes_def Let_def)

lemma status_reply: "request_status web_server self meth pth headers \<noteq> 0 \<Longrightarrow> request_status web_server self meth pth headers > 299"
  using request_status_codes [of web_server self meth pth headers] by (auto simp: reply_codes_def)

lemma request_swap:
  "(self :: 'f CockpitWebRequest)\<lparr>rq_delayed_reply := a, rq_buffer := b\<rparr> = self\<lparr>rq_buffer := b, rq_delayed_reply := a\<rparr>"
  by simp

lemma get_protocol_cong:
  assumes "rq_tls a = rq_tls b" "rq_headers a = rq_headers b"
  shows "cockpit_web_request_get_protocol web_server a = cockpit_web_request_get_protocol web_server b"
  unfolding cockpit_web_request_get_protocol_def assms ..

lemma answer_refused:
  fixes self :: "'f CockpitWebRequest"
  assumes "request_fresh self" "code = request_status web_server self meth pth headers" "code \<noteq> 0"
  shows "\<exists>crit. set crit \<subseteq> {Request_critical} \<and>
    rq_events (answer_request web_server push fail_html handlers self meth pth headers rest) =
      crit @ [Responded (delayed_response push fail_html
                (bare_response meth (fst (cockpit_web_request_get_protocol web_server self))) code pth headers)]"
proof -
  define fin where "fin = self\<lparr>rq_delayed_reply := code, rq_buffer := rest, rq_method := meth,
    rq_check_tls_redirect := rq_check_tls_redirect self \<and> code \<noteq> 301\<rparr>"
  have "answer_request web_server push fail_html handlers self meth pth headers rest =
      cockpit_web_request_finish (cockpit_web_request_process_delayed_reply web_server push fail_html fin pth headers)"
  proof (cases "server_url_root web_server \<noteq> [] \<and> \<not> path_has_prefix pth (server_url_root web_server) \<or> request_verdict meth headers \<noteq> 0")
    case True
    then have "fin = self\<lparr>rq_buffer := rest, rq_delayed_reply := code, rq_method := meth\<rparr>"
      using assms(2) by (auto simp: fin_def request_status_def request_verdict_def Let_def)
    with True show ?thesis
      using assms(2,3) by (auto simp: answer_request_def cockpit_web_request_process_def Let_def request_status_def request_swap)
  next
    case False
    then have "fin = self\<lparr>rq_buffer := rest, rq_check_tls_redirect := False, rq_delayed_reply := 301, rq_method := meth\<rparr>"
      using assms(2,3) by (auto simp: fin_def request_status_def)
    with False show ?thesis
      using assms(2,3) by (auto simp: answer_request_def cockpit_web_request_process_def Let_def request_status_def request_swap split: if_splits)
  qed
  moreover obtain proto bad where proto: "cockpit_web_request_get_protocol web_server self = (proto, bad)" by fastforce
  moreover have "cockpit_web_request_get_protocol web_server fin = (proto, bad)"
    using proto get_protocol_cong [of fin self web_server] by (simp add: fin_def)
  moreover have "rq_events fin = []" "rq_original_path fin = None" "rq_path fin = None" "rq_headers fin = None" "rq_method fin = meth"
    "rq_delayed_reply fin = code" "code > 299"
    using assms status_reply [of web_server self meth pth headers] by (simp_all add: fin_def request_fresh_def)
  ultimately show ?thesis
    by (intro exI [of _ "if bad then [Request_critical] else []"])
      (simp add: cockpit_web_request_process_delayed_reply_def cockpit_web_request_respond_def log_request_def)
qed

text \<open>The request as the handlers see it.\<close>

definition dispatched :: "CockpitWebServer \<Rightarrow> 'f CockpitWebRequest \<Rightarrow> bytes \<Rightarrow> bytes \<Rightarrow> headers \<Rightarrow> bytes \<Rightarrow> 'f CockpitWebRequest" where
  "dispatched web_server self meth pth headers rest =
     (case request_paths (server_url_root web_server) pth of
        (original, sub, query) \<Rightarrow>
          self\<lparr>rq_buffer := rest, rq_check_tls_redirect := False, rq_delayed_reply := 0, rq_method := meth,
               rq_original_path := Some original, rq_path := Some sub, rq_query := Some query,
               rq_host := headers_lookup headers (asc ''Host''), rq_headers := Some headers\<rparr>)"

definition resource_response ::
    "CockpitWebServer \<Rightarrow> ('f \<Rightarrow> bytes \<Rightarrow> 'f \<times> bytes list) \<Rightarrow> bytes \<Rightarrow> 'f handlers \<Rightarrow> 'f CockpitWebRequest \<Rightarrow> 'f CockpitWebResponse" where
  "resource_response web_server push fail_html handlers request =
     (let response = cockpit_web_response_new True (rq_original_path request) (rq_path request) (rq_headers request) (rq_method request)
                       (Some (fst (cockpit_web_request_get_protocol web_server request)));
          (response, claimed) = emit_handle_resource (handle_resource handlers) (resource_detail (the (rq_path request))) request response
      in if claimed then response else response_error push fail_html response 404)"

lemma default_handle_stream_log:
  fixes request :: "'f CockpitWebRequest"
  assumes "rq_headers request = Some headers"
  shows "cockpit_web_server_default_handle_stream web_server push fail_html handlers request =
    log_request (case rq_path request of
        Some (c # p) \<Rightarrow> if c = 47 then Responded (resource_response web_server push fail_html handlers request) else Request_assertion
      | _ \<Rightarrow> Request_assertion) request"
proof -
  obtain proto bad where p: "cockpit_web_request_get_protocol web_server request = (proto, bad)" by fastforce
  have "\<not> bad" using p assms by (auto simp: cockpit_web_request_get_protocol_def lookup_table_def split: if_splits option.splits)
  then show ?thesis
    using p by (auto simp: cockpit_web_server_default_handle_stream_def cockpit_web_request_respond_def resource_response_def
        cockpit_web_server_default_handle_resource_def Let_def simp del: asc_simps split: option.splits list.splits prod.splits)
qed

lemma answer_dispatched:
  fixes self :: "'f CockpitWebRequest" and rest :: bytes
  assumes "request_fresh self" "request_status web_server self meth pth headers = 0"
  defines "request \<equiv> dispatched web_server self meth pth headers rest"
  shows "rq_events (answer_request web_server push fail_html handlers self meth pth headers rest) =
    [if handle_stream handlers request then Stream_claimed
     else case the (rq_path request) of
         c # p \<Rightarrow> if c = 47 then Responded (resource_response web_server push fail_html handlers request) else Request_assertion
       | [] \<Rightarrow> Request_assertion]"
proof -
  let ?handled = "if handle_stream handlers request then log_request Stream_claimed request
    else cockpit_web_server_default_handle_stream web_server push fail_html handlers request"
  obtain original sub query where paths: "request_paths (server_url_root web_server) pth = (original, sub, query)"
    by (cases "request_paths (server_url_root web_server) pth") auto
  have "answer_request web_server push fail_html handlers self meth pth headers rest =
      cockpit_web_request_finish (?handled\<lparr>rq_original_path := None, rq_path := None, rq_query := None\<rparr>)"
    using assms(2) paths unfolding request_def
    by (cases self) (auto simp: answer_request_def cockpit_web_request_process_def dispatched_def request_status_def Let_def
        simp del: asc_simps split: if_splits)
  moreover have "rq_headers request = Some headers" "rq_path request = Some sub" "rq_events request = []"
    using paths assms(1) by (simp_all add: request_def dispatched_def request_fresh_def del: asc_simps)
  ultimately show ?thesis
    by (simp add: default_handle_stream_log log_request_def split: list.split)
qed

lemma request_paths_slash:
  assumes "pth \<noteq> []" "hd pth = 47" "root = [] \<or> path_has_prefix pth root" "pth \<noteq> root"
  shows "\<exists>original p query. request_paths root pth = (original, 47 # p, query)"
proof -
  have len: "length root < length pth"
  proof (cases "root = []")
    case False
    then have "starts_with pth root" using assms(3) by (simp add: path_has_prefix_def)
    then obtain r where "pth = root @ r" by (auto simp: starts_with_iff)
    then show ?thesis using assms(4) by (cases r) auto
  qed (use assms(1) in simp)
  have at_root: "pth ! length root = 47"
    using assms(2,3) len by (cases "root = []") (auto simp: path_has_prefix_def hd_conv_nth)
  have slash: "drop (length root) xs = 47 # drop (Suc (length root)) xs" if "length xs = length pth" "xs ! length root = 47" for xs :: bytes
    using that len Cons_nth_drop_Suc [of "length root" xs] by simp
  show ?thesis
  proof (cases "memchr pth 63")
    case None
    then show ?thesis using slash [of pth] at_root by (simp add: request_paths_def)
  next
    case (Some q)
    then have "pth ! q = 63" by (simp add: memchr_Some_iff)
    then have "pth[q := 0] ! length root = 47" using at_root by (cases "q = length root") auto
    then show ?thesis using Some slash [of "pth[q := 0]"] by (simp add: request_paths_def cstr_def Let_def)
  qed
qed

lemma request_paths_root:
  "\<exists>original query. request_paths root root = (original, [], query)"
  by (auto simp: request_paths_def cstr_def split: option.split)

section \<open>Every run of a request\<close>

text \<open>What a finished request has in its log: nothing, a closed stream, or what its answer left there.\<close>

definition request_over ::
    "CockpitWebServer \<Rightarrow> ('f \<Rightarrow> bytes \<Rightarrow> 'f \<times> bytes list) \<Rightarrow> bytes \<Rightarrow> 'f handlers \<Rightarrow> 'f CockpitWebRequest \<Rightarrow>
     'f CockpitWebRequest \<Rightarrow> bool" where
  "request_over web_server push fail_html handlers self after \<longleftrightarrow>
     \<not> rq_live after \<and>
     (rq_events after = [] \<or> rq_events after = [Stream_closed] \<or>
      (\<exists>meth pth headers rest. pth \<noteq> [] \<and> hd pth = 47 \<and>
         rq_events after = rq_events (answer_request web_server push fail_html handlers (self\<lparr>rq_eof_okay := False\<rparr>) meth pth headers rest)))"

definition request_inv ::
    "CockpitWebServer \<Rightarrow> ('f \<Rightarrow> bytes \<Rightarrow> 'f \<times> bytes list) \<Rightarrow> bytes \<Rightarrow> 'f handlers \<Rightarrow> 'f CockpitWebRequest \<Rightarrow>
     'f CockpitWebRequest \<Rightarrow> bool" where
  "request_inv web_server push fail_html handlers self after \<longleftrightarrow>
     (\<exists>s. after = request_waiting self s \<and> length s \<le> request_buffer_limit) \<or>
     request_over web_server push fail_html handlers self after"

lemma request_parse_path: "request_parse s = Message (meth, pth, headers) n \<Longrightarrow> pth \<noteq> [] \<and> hd pth = 47"
  by (auto simp: request_parse_def split: parse.splits option.splits if_splits prod.splits)

lemma fresh_events: "request_fresh self \<Longrightarrow> rq_events (request_waiting self s) = [] \<and> rq_live (request_waiting self s)"
  by (simp add: request_waiting_def request_fresh_def)

lemma over_finish: "request_fresh self \<Longrightarrow>
  request_over web_server push fail_html handlers self (cockpit_web_request_finish (request_waiting self s))"
  using fresh_events [of self s] by (simp add: request_over_def)

lemma stage_inv:
  fixes self :: "'f CockpitWebRequest"
  assumes "request_fresh self" "length (s @ c) \<le> request_buffer_limit" "c \<noteq> []"
  shows "request_inv web_server push fail_html handlers self
    (fst (request_stage web_server push fail_html handlers (s @ c) (self\<lparr>rq_delayed_reply := pending_reply s, rq_buffer := s @ c, rq_eof_okay := False\<rparr>)))"
proof (cases "request_parse (s @ c)")
  case Want_more
  then show ?thesis using assms by (auto simp: request_stage_def request_inv_def request_waiting_def intro!: exI [of _ "s @ c"])
next
  case Reject
  then show ?thesis using assms by (simp add: request_stage_def request_inv_def request_over_def request_fresh_def)
next
  case (Message v n)
  obtain meth pth headers where v: "v = (meth, pth, headers)" by (cases v)
  have "answer_request web_server push fail_html handlers (self\<lparr>rq_delayed_reply := pending_reply s, rq_buffer := s @ c, rq_eof_okay := False\<rparr>) meth pth headers rest =
      answer_request web_server push fail_html handlers (self\<lparr>rq_eof_okay := False\<rparr>) meth pth headers rest" for rest
    by (simp add: answer_request_def)
  then show ?thesis
    using Message v request_parse_path [of "s @ c"] by (fastforce simp: request_stage_def request_inv_def request_over_def)
qed

lemma request_step_inv:
  fixes self :: "'f CockpitWebRequest"
  assumes "request_fresh self" "request_inv web_server push fail_html handlers self after"
  shows "request_inv web_server push fail_html handlers self (web_request_step web_server push fail_html handlers after op)"
proof (cases "rq_live after")
  case False
  then show ?thesis using assms(2) by (simp add: step_dead)
next
  case True
  then obtain s where s: "after = request_waiting self s" "length s \<le> request_buffer_limit"
    using assms(2) by (auto simp: request_inv_def request_over_def)
  note ends = over_finish [OF assms(1), of web_server push fail_html handlers s] fresh_events [OF assms(1), of s]
  show ?thesis
  proof (cases op)
    case On_timeout
    then show ?thesis using True ends s by (simp add: web_request_step_def cockpit_web_request_on_timeout_def request_inv_def)
  next
    case (On_input inp)
    show ?thesis
    proof (cases inp)
      case (Input c)
      show ?thesis
      proof (cases "c = [] \<or> length (s @ c) > request_buffer_limit")
        case True
        then show ?thesis
          using On_input Input s(1) ends
          by (auto simp: web_request_step_def cockpit_web_request_on_input_def cockpit_web_request_parse_and_process_def request_inv_def
              request_over_def request_buffer_limit_def request_waiting_def log_request_def Let_def)
      next
        case False
        then show ?thesis
          using step_chunk [OF assms(1), of c s] stage_inv [OF assms(1), of s c] On_input Input s(1) by simp
      qed
    next
      case Input_would_block
      then show ?thesis using assms(2) On_input by (simp add: web_request_step_def cockpit_web_request_on_input_def)
    next
      case Input_error
      then show ?thesis using True ends s On_input by (simp add: web_request_step_def cockpit_web_request_on_input_def request_inv_def)
    qed
  qed
qed

lemma request_run_inv:
  assumes "request_fresh self"
  shows "request_inv web_server push fail_html handlers self (web_request_run web_server push fail_html handlers self ops)"
proof (induction ops rule: rev_induct)
  case Nil
  then show ?case using request_waiting_Nil [OF assms] by (auto simp: web_request_run_def request_inv_def intro!: exI [of _ "[]"])
next
  case (snoc op ops)
  then show ?case using request_step_inv [OF assms] by (simp add: web_request_run_def)
qed

lemma answer_shape:
  fixes self :: "'f CockpitWebRequest"
  assumes "request_fresh self" "pth \<noteq> []" "hd pth = 47"
  shows "\<exists>crit ev. rq_events (answer_request web_server push fail_html handlers self meth pth headers rest) = crit @ [ev] \<and>
    set crit \<subseteq> {Request_critical} \<and> ev \<noteq> Request_critical \<and>
    (ev = Request_assertion \<longrightarrow> server_url_root web_server \<noteq> [] \<and> pth = server_url_root web_server)"
proof (cases "request_status web_server self meth pth headers = 0")
  case True
  have "\<exists>p. the (rq_path (dispatched web_server self meth pth headers rest)) = 47 # p"
    if "server_url_root web_server = [] \<or> pth \<noteq> server_url_root web_server"
    using request_paths_slash [OF assms(2,3), of "server_url_root web_server"] True that assms(2)
    by (fastforce simp: dispatched_def request_status_def simp del: asc_simps split: if_splits)
  then show ?thesis
    using answer_dispatched [OF assms(1) True, of push fail_html handlers rest]
    by (intro exI [of _ "[]"]) (auto simp del: asc_simps split: list.splits)
next
  case False
  then show ?thesis using answer_refused [OF assms(1) refl False, of push fail_html handlers rest] by auto
qed

lemma fresh_eof: "request_fresh self \<Longrightarrow> request_fresh (self\<lparr>rq_eof_okay := b\<rparr>)"
  by (simp add: request_fresh_def)

lemma eof_same:
  "request_status web_server (self\<lparr>rq_eof_okay := b\<rparr>) meth pth hs = request_status web_server self meth pth hs"
  "cockpit_web_request_get_protocol web_server (self\<lparr>rq_eof_okay := b\<rparr>) = cockpit_web_request_get_protocol web_server self"
  by (simp add: request_status_def) (rule get_protocol_cong; simp)

text \<open>A request in the format of HTTP.\<close>

definition print_request :: "bytes \<Rightarrow> bytes \<Rightarrow> bytes \<Rightarrow> headers \<Rightarrow> bytes" where
  "print_request meth pth version hs =
     meth @ [32] @ pth @ [32] @ version @ [13, 10] @ concat (map print_header hs) @ [13, 10]"

definition request_ok :: "bytes \<Rightarrow> bytes \<Rightarrow> bytes \<Rightarrow> headers \<Rightarrow> bool" where
  "request_ok meth pth version hs \<longleftrightarrow>
     visible meth \<and> meth \<noteq> [] \<and> visible pth \<and> pth \<noteq> [] \<and> hd pth = 47 \<and>
     (version = asc ''HTTP/1.0'' \<or> version = asc ''HTTP/1.1'') \<and>
     list_all header_ok hs \<and> distinct (map (map to_lower \<circ> fst) hs)"

lemma request_parse_printed:
  assumes "request_ok meth pth version hs" "content_length hs = Some len" "len \<le> length body"
  shows "request_parse (print_request meth pth version hs @ body) = Message (meth, pth, hs) (length (print_request meth pth version hs))"
proof -
  let ?data = "print_request meth pth version hs @ body"
  let ?headers = "concat (map print_header hs) @ [13, 10] @ body"
  have ok: "visible meth" "meth \<noteq> []" "visible pth" "pth \<noteq> []" "hd pth = 47" "version = asc ''HTTP/1.0'' \<or> version = asc ''HTTP/1.1''"
    "list_all header_ok hs" "distinct (map (map to_lower \<circ> fst) hs)" "length version = 8"
    using assms(1) by (auto simp: request_ok_def)
  have data: "?data = meth @ [32] @ pth @ [32] @ version @ [13, 10] @ ?headers" by (simp add: print_request_def)
  have line: "web_socket_util_parse_req_line ?data = Message (meth, pth) (length meth + length pth + 12)"
    unfolding data by (rule req_line_printed [OF ok(1-4,6)])
  define start where "start = meth @ [32] @ pth @ [32] @ version @ [13, 10]"
  have "?data = start @ ?headers" "length start = length meth + length pth + 12" using ok(9) unfolding data start_def by simp_all
  then have "drop (length meth + length pth + 12) ?data = ?headers" by (metis append_eq_conv_conj)
  then have headers: "web_socket_util_parse_headers (drop (length meth + length pth + 12) ?data) = Message hs (length (concat (map print_header hs)) + 2)"
    using headers_printed [OF ok(7,8)] by simp
  have size: "length (print_request meth pth version hs) = length meth + length pth + 12 + (length (concat (map print_header hs)) + 2)"
    using ok(9) by (simp add: print_request_def)
  have "\<not> length ?data < (length meth + length pth + 12 + (length (concat (map print_header hs)) + 2) + len) mod 2 ^ 64"
    unfolding size [symmetric] using mod_less_eq_dividend [of "length (print_request meth pth version hs) + len" "2 ^ 64"] assms(3) by simp
  then show ?thesis
    unfolding request_parse_def line headers parse.case prod.case assms(2) option.case size using ok(4,5) by (simp only: if_False simp_thms)
qed

lemma redirect_url_size: "list_all header_ok hs \<Longrightarrow> length (redirect_url hs pth) \<le> length (concat (map print_header hs)) + length pth + 8"
proof -
  have "length v \<le> length (concat (map print_header hs))" if "headers_lookup hs k = Some v" for k v
    using that by (induction hs) (auto simp: print_header_def split: if_splits)
  then show ?thesis by (cases "headers_lookup hs (asc ''Host'')") (fastforce simp: redirect_url_def simp del: asc_simps)+
qed

lemma printed_result:
  fixes self :: "'f CockpitWebRequest"
  assumes "request_fresh self" "request_ok meth pth version hs" "content_length hs = Some len" "len \<le> length body"
    and "concat chunks = print_request meth pth version hs @ body" "[] \<notin> set chunks" "length (concat chunks) \<le> request_buffer_limit"
  shows "\<exists>rest. web_request_run web_server push fail_html handlers self (request_input chunks) =
    answer_request web_server push fail_html handlers (self\<lparr>rq_eof_okay := False\<rparr>) meth pth hs rest \<and> (\<exists>later. body = rest @ later)"
  using run_chunks [OF assms(1,6,7), of web_server push fail_html handlers] request_parse_printed [OF assms(2-4)]
  unfolding assms(5) by (auto simp: request_result_def)

section \<open>Properties\<close>

text \<open>C11: The answer to a request does not depend on how its bytes arrive: within the limit of the buffer, input that is not a whole request yet is kept and
  nothing else happens, input that can not be a request ends it without an answer, and a whole request is processed once with its method, path and headers and is over;
  what is left in the buffer is some of what followed it.\<close>

theorem web_request_any_chunks:
  fixes self :: "'f CockpitWebRequest"
  assumes "request_fresh self" "[] \<notin> set chunks" "length (concat chunks) \<le> request_buffer_limit"
    and "after = web_request_run web_server push fail_html handlers self (request_input chunks)"
  shows "case request_parse (concat chunks) of
      Want_more \<Rightarrow> after = request_waiting self (concat chunks)
    | Reject \<Rightarrow> \<not> rq_live after \<and> rq_events after = []
    | Message (meth, pth, headers) n \<Rightarrow>
        (\<exists>rest later. drop n (concat chunks) = rest @ later \<and>
           after = answer_request web_server push fail_html handlers (self\<lparr>rq_eof_okay := False\<rparr>) meth pth headers rest)"
  using run_chunks [OF assms(1-3), of web_server push fail_html handlers] unfolding assms(4) request_result_def .

text \<open>C14: Whatever arrives and whenever the timeout comes, a request that is not over has at most the limit in its buffer and has done nothing yet; a request is
  answered, claimed or closed at most once; and no assertion fails if there is no root of the URLs.\<close>

theorem web_request_run_safe:
  fixes self :: "'f CockpitWebRequest"
  assumes "request_fresh self" "after = web_request_run web_server push fail_html handlers self ops"
  shows "(rq_live after \<longrightarrow> rq_events after = [] \<and> length (rq_buffer after) \<le> request_buffer_limit) \<and>
    length (filter (\<lambda>ev. ev \<noteq> Request_critical) (rq_events after)) \<le> 1 \<and>
    (Request_assertion \<in> set (rq_events after) \<longrightarrow> server_url_root web_server \<noteq> [])"
proof -
  have crit: "filter (\<lambda>ev. ev \<noteq> Request_critical) crit = []" if "set crit \<subseteq> {Request_critical}" for crit :: "'f request_event list"
    using that by (auto simp: filter_empty_conv)
  have "request_inv web_server push fail_html handlers self after" unfolding assms(2) by (rule request_run_inv [OF assms(1)])
  then consider s where "after = request_waiting self s" "length s \<le> request_buffer_limit"
    | "\<not> rq_live after" "rq_events after = [] \<or> rq_events after = [Stream_closed]"
    | crit ev where "\<not> rq_live after" "rq_events after = crit @ [ev]" "set crit \<subseteq> {Request_critical}"
      "ev = Request_assertion \<longrightarrow> server_url_root web_server \<noteq> []"
    unfolding request_inv_def request_over_def using answer_shape [OF fresh_eof [OF assms(1)]] by metis
  then show ?thesis
  proof cases
    case 1
    then show ?thesis using fresh_events [OF assms(1)] by (simp add: request_waiting_def)
  next
    case 2
    then show ?thesis by auto
  next
    case 3
    then show ?thesis using crit [of crit] by auto
  qed
qed

text \<open>The response to a request that is refused.\<close>

definition refusal ::
    "CockpitWebServer \<Rightarrow> ('f \<Rightarrow> bytes \<Rightarrow> 'f \<times> bytes list) \<Rightarrow> bytes \<Rightarrow> 'f CockpitWebRequest \<Rightarrow> bytes \<Rightarrow> bytes \<Rightarrow> headers \<Rightarrow> 'f CockpitWebResponse" where
  "refusal web_server push fail_html self meth pth headers =
     delayed_response push fail_html (bare_response meth (fst (cockpit_web_request_get_protocol web_server self)))
       (request_status web_server self meth pth headers) pth headers"

text \<open>C12: A request in the format of HTTP, in any pieces, that is refused (no host, a method other than GET and HEAD, content, a path outside the root, or no TLS) is
  answered with exactly one response that is sent completely if the kernel takes bytes: it starts with the status that the precedence gives, the stream can be
  used again, and the next request starts afresh.\<close>

theorem web_request_refused:
  fixes self :: "'f CockpitWebRequest"
  assumes "request_fresh self" "request_ok meth pth version hs" "content_length hs = Some len" "len \<le> length body"
    and "concat chunks = print_request meth pth version hs @ body" "[] \<notin> set chunks" "length (concat chunks) \<le> request_buffer_limit"
    and "request_status web_server self meth pth hs = code" "code \<noteq> 0" "0 \<notin> set fail_html"
    and "after = web_request_run web_server push fail_html handlers self (request_input chunks)"
    and "r = refusal web_server push fail_html self meth pth hs"
    and "list_all (\<lambda>n. 0 < n) ns" "length (queued r) - length (sent r) < length ns"
    and "r' = response_run push r (map (\<lambda>n. Output (Written n)) ns @ [Flushed True])"
  shows "\<not> rq_live after \<and> filter (\<lambda>ev. ev \<noteq> Request_critical) (rq_events after) = [Responded r] \<and>
    is_done r' \<and> Signal_done True \<in> set (events r') \<and> (\<exists>rest. sent r' = asc ''HTTP/1.1 '' @ dec_digits code @ [32] @ rest) \<and>
    (\<exists>next. on_web_response_done after True = Some next \<and> request_fresh next)"
proof -
  let ?eof = "self\<lparr>rq_eof_okay := False\<rparr>"
  obtain rest where after: "after = answer_request web_server push fail_html handlers ?eof meth pth hs rest"
    using printed_result [OF assms(1-7), of web_server push fail_html handlers] assms(11) by blast
  have same: "request_status web_server ?eof meth pth hs = code" "cockpit_web_request_get_protocol web_server ?eof = cockpit_web_request_get_protocol web_server self"
    using assms(8) by (simp_all add: eof_same)
  have log: "filter (\<lambda>ev. ev \<noteq> Request_critical) (rq_events after) = [Responded r]"
    using answer_refused [OF fresh_eof [OF assms(1)] same(1) [symmetric] assms(9), of push fail_html handlers rest] assms(8,12) same(2)
    unfolding after refusal_def by (fastforce simp: filter_empty_conv)
  have "length pth + length (concat (map print_header hs)) \<le> request_buffer_limit"
    using assms(5,7) by (simp add: print_request_def)
  then have "length (redirect_url hs pth) < 2 ^ 16"
    using redirect_url_size [of hs pth] assms(2) by (simp add: request_ok_def request_buffer_limit_def cockpit_webserver_request_maximum_def)
  moreover have "code \<in> reply_codes" using request_status_codes [of web_server self meth pth hs] assms(8,9) by simp
  ultimately have "answers push code r"
    using delayed_answers assms(8,10,12) unfolding refusal_def by blast
  then obtain new reason len' hs' ops where "fresh new" "r = response_run push (cockpit_web_response_headers new code reason len' hs') ops"
    and r: "complete r" "\<not> is_done r" "keep_alive r" "\<exists>rest. queued r = asc ''HTTP/1.1 '' @ dec_digits code @ [32] @ rest"
    unfolding answers_def by blast
  then have "is_done r' \<and> sent r' = queued r \<and> Signal_done True \<in> set (events r')"
    using response_drained [OF _ _ r(1,2) assms(13,14,15)] r(3) by metis
  then show ?thesis
    using log r(4) after by (simp add: on_web_response_done_def request_fresh_def cockpit_web_request_start_def)
qed

text \<open>C13: A request in the format of HTTP, in any pieces, that is not refused goes to the handlers once: with the root taken off its path, the query behind the question mark,
  its headers, method and host; a handler of the stream claims it, or it gets the response that the handlers of the resource make, or the default page for what is not there.\<close>

theorem web_request_dispatched:
  fixes self :: "'f CockpitWebRequest"
  assumes "request_fresh self" "request_ok meth pth version hs" "content_length hs = Some len" "len \<le> length body"
    and "concat chunks = print_request meth pth version hs @ body" "[] \<notin> set chunks" "length (concat chunks) \<le> request_buffer_limit"
    and "request_status web_server self meth pth hs = 0"
    and "pth = server_url_root web_server @ sub @ tail" "sub \<noteq> []" "hd sub = 47" "63 \<notin> set (server_url_root web_server @ sub)"
    and "tail = [] \<and> query = [] \<or> tail = 63 # query"
    and "after = web_request_run web_server push fail_html handlers self (request_input chunks)"
  shows "\<exists>request. rq_original_path request = Some (server_url_root web_server @ sub) \<and> rq_path request = Some sub \<and> rq_query request = Some query \<and>
    rq_headers request = Some hs \<and> rq_method request = meth \<and> rq_host request = headers_lookup hs (asc ''Host'') \<and>
    (\<exists>later. body = rq_buffer request @ later) \<and> \<not> rq_live after \<and>
    rq_events after =
      [if handle_stream handlers request then Stream_claimed else Responded (resource_response web_server push fail_html handlers request)]"
proof -
  let ?eof = "self\<lparr>rq_eof_okay := False\<rparr>" and ?root = "server_url_root web_server"
  obtain rest where after: "after = answer_request web_server push fail_html handlers ?eof meth pth hs rest" "\<exists>later. body = rest @ later"
    using printed_result [OF assms(1-7), of web_server push fail_html handlers] assms(14) by blast
  define request where "request = dispatched web_server ?eof meth pth hs rest"
  have "0 \<notin> set pth" using assms(2) visible_chars by (auto simp: request_ok_def)
  then have "cstr (?root @ sub @ 0 # query) = ?root @ sub" "cstr (sub @ 0 # query) = sub"
    using assms(9) cstr_append_nul [of "?root @ sub" query] cstr_append_nul [of sub query] by auto
  moreover have "memchr pth 63 = (if tail = [] then None else Some (length (?root @ sub)))"
    using assms(9,12,13) memchr_notin [of 63 "?root @ sub" query] by (auto simp: memchr_None_iff)
  ultimately have "request_paths ?root pth = (?root @ sub, sub, query)"
    using assms(9,13) by (auto simp: request_paths_def Let_def list_update_append)
  then have req: "rq_original_path request = Some (?root @ sub)" "rq_path request = Some sub" "rq_query request = Some query"
    "rq_headers request = Some hs" "rq_method request = meth" "rq_host request = headers_lookup hs (asc ''Host'')" "rq_buffer request = rest"
    by (simp_all add: request_def dispatched_def del: asc_simps)
  have "request_status web_server ?eof meth pth hs = 0" using assms(8) by (simp add: eof_same)
  from answer_dispatched [OF fresh_eof [OF assms(1)] this, of push fail_html handlers rest]
  have "rq_events after = [if handle_stream handlers request then Stream_claimed else Responded (resource_response web_server push fail_html handlers request)]"
    using req(2) assms(10,11) unfolding after(1) request_def [symmetric] by (cases sub) simp_all
  then show ?thesis using req after by (intro exI [of _ request]) (simp del: asc_simps)
qed

text \<open>A request for the root itself, without a slash behind it, fails the assertion that the path of a request starts with a slash, unless a handler of the stream claims it.\<close>

theorem web_request_root_asserts:
  fixes self :: "'f CockpitWebRequest"
  assumes "request_fresh self" "request_ok meth pth version hs" "content_length hs = Some len" "len \<le> length body"
    and "concat chunks = print_request meth pth version hs @ body" "[] \<notin> set chunks" "length (concat chunks) \<le> request_buffer_limit"
    and "request_status web_server self meth pth hs = 0" "pth = server_url_root web_server" "\<And>request. \<not> handle_stream handlers request"
    and "after = web_request_run web_server push fail_html handlers self (request_input chunks)"
  shows "rq_events after = [Request_assertion]"
proof -
  let ?eof = "self\<lparr>rq_eof_okay := False\<rparr>"
  obtain rest where after: "after = answer_request web_server push fail_html handlers ?eof meth pth hs rest"
    using printed_result [OF assms(1-7), of web_server push fail_html handlers] assms(11) by blast
  have "rq_path (dispatched web_server ?eof meth pth hs rest) = Some []"
    using request_paths_root [of pth] assms(9) by (auto simp: dispatched_def simp del: asc_simps)
  moreover have status: "request_status web_server ?eof meth pth hs = 0" using assms(8) by (simp add: eof_same)
  ultimately show ?thesis
    using answer_dispatched [OF fresh_eof [OF assms(1)] status, of push fail_html handlers rest] assms(10) unfolding after by simp
qed

section \<open>Examples\<close>

definition plain_server :: CockpitWebServer where
  "plain_server = cockpit_web_server_new False 0"

definition no_handlers :: "nat handlers" where
  "no_handlers = \<lparr>handle_stream = \<lambda>_. False, handle_resource = []\<rparr>"

definition first_request :: "nat CockpitWebRequest" where
  "first_request = cockpit_web_request_start False False None False"

definition pass :: "nat \<Rightarrow> bytes \<Rightarrow> nat \<times> bytes list" where
  "pass f b = (f, [b])"

definition host_header :: headers where
  "host_header = [(asc ''Host'', asc ''a'')]"

lemma first_fresh: "request_fresh first_request"
  by (simp add: first_request_def cockpit_web_request_start_def request_fresh_def)

lemma host_ok: "request_ok (asc ''GET'') (asc ''/x'') (asc ''HTTP/1.1'') host_header" "request_ok (asc ''PUT'') (asc ''/x'') (asc ''HTTP/1.1'') host_header"
proof -
  have "g_utf8_validate [97]" by (rule validate_ascii) simp
  then have "list_all header_ok host_header" by (simp add: host_header_def header_ok_def g_strstrip_def g_ascii_isspace_def)
  then show "request_ok (asc ''GET'') (asc ''/x'') (asc ''HTTP/1.1'') host_header" "request_ok (asc ''PUT'') (asc ''/x'') (asc ''HTTP/1.1'') host_header"
    by (simp_all add: request_ok_def host_header_def)
qed

lemma host_lookups: "content_length host_header = Some 0" "headers_lookup host_header (asc ''Host'') = Some (asc ''a'')"
  by (simp_all add: content_length_def host_header_def str_case_equal_def to_lower_def is_upper_def)

lemma host_size: "length meth \<le> 100 \<Longrightarrow> length pth \<le> 100 \<Longrightarrow> length (print_request meth pth (asc ''HTTP/1.1'') host_header) \<le> request_buffer_limit"
  by (simp add: print_request_def host_header_def print_header_def request_buffer_limit_def cockpit_webserver_request_maximum_def)

lemma print_request_parts: "print_request meth pth version hs \<noteq> []"
  by (simp add: print_request_def)

lemma plain_status:
  "request_status plain_server first_request meth pth host_header = (if meth = asc ''GET'' \<or> meth = asc ''HEAD'' then 0 else 405)"
proof -
  have "asc ''a'' \<noteq> []" by simp
  then show ?thesis
    by (simp add: request_status_def request_verdict_def plain_server_def cockpit_web_server_new_def first_request_def
        cockpit_web_request_start_def host_lookups del: asc_simps)
qed

theorem web_request_any_chunks_witness:
  "web_request_run plain_server pass [] no_handlers first_request (request_input [[71], [69, 84]]) = request_waiting first_request [71, 69, 84]"
proof -
  have "request_parse (concat [[71], [69, 84]]) = Want_more" by (simp add: request_parse_def web_socket_util_parse_req_line_def)
  then show ?thesis
    using web_request_any_chunks [OF first_fresh, of "[[71], [69, 84]]" _ plain_server pass "[]" no_handlers]
    by (simp add: request_buffer_limit_def cockpit_webserver_request_maximum_def)
qed

theorem web_request_run_safe_witness:
  "Request_assertion \<notin> set (rq_events (web_request_run plain_server pass [] no_handlers first_request [On_input (Input [1, 10]), On_timeout]))"
  using web_request_run_safe [OF first_fresh refl, of plain_server pass "[]" no_handlers "[On_input (Input [1, 10]), On_timeout]"]
  by (auto simp: plain_server_def cockpit_web_server_new_def)

theorem web_request_refused_witness:
  "filter (\<lambda>ev. ev \<noteq> Request_critical)
     (rq_events (web_request_run plain_server pass [65] no_handlers first_request
       (request_input [print_request (asc ''PUT'') (asc ''/x'') (asc ''HTTP/1.1'') host_header]))) =
   [Responded (refusal plain_server pass [65] first_request (asc ''PUT'') (asc ''/x'') host_header)]"
proof -
  define data where "data = print_request (asc ''PUT'') (asc ''/x'') (asc ''HTTP/1.1'') host_header"
  define r where "r = refusal plain_server pass [65] first_request (asc ''PUT'') (asc ''/x'') host_header"
  define ns where "ns = replicate (Suc (length (queued r))) (1 :: nat)"
  have data: "concat [data] = print_request (asc ''PUT'') (asc ''/x'') (asc ''HTTP/1.1'') host_header @ []" "[] \<notin> set [data]"
    "length (concat [data]) \<le> request_buffer_limit"
    using host_size [of "asc ''PUT''" "asc ''/x''"] print_request_parts [of "asc ''PUT''" "asc ''/x''" "asc ''HTTP/1.1''" host_header]
    by (simp_all add: data_def del: asc_simps)
  have status: "request_status plain_server first_request (asc ''PUT'') (asc ''/x'') host_header = 405"
    using plain_status [of "asc ''PUT''" "asc ''/x''"] by simp
  have ns: "list_all (\<lambda>n. 0 < n) ns" "length (queued r) - length (sent r) < length ns" by (simp_all add: ns_def list_all_iff)
  have "0 \<notin> set [65 :: byte]" "405 \<noteq> (0 :: nat)" by simp_all
  from web_request_refused [OF first_fresh host_ok(2) host_lookups(1) le0 data status this(2,1) refl r_def ns refl, of no_handlers]
  show ?thesis by (simp add: data_def r_def del: asc_simps)
qed

theorem web_request_dispatched_witness:
  "\<exists>request. rq_path request = Some (asc ''/x'') \<and>
     rq_events (web_request_run plain_server pass [65] no_handlers first_request
       (request_input [print_request (asc ''GET'') (asc ''/x'') (asc ''HTTP/1.1'') host_header])) =
     [Responded (resource_response plain_server pass [65] no_handlers request)]"
proof -
  have empty: "server_url_root plain_server = []" "\<And>request. \<not> handle_stream no_handlers request"
    by (simp_all add: plain_server_def cockpit_web_server_new_def no_handlers_def)
  show ?thesis
    using web_request_dispatched [OF first_fresh host_ok(1) host_lookups(1) _ _ _ _ _ _ _ _ _ _ refl, of "[]"
        "[print_request (asc ''GET'') (asc ''/x'') (asc ''HTTP/1.1'') host_header]" plain_server "asc ''/x''" "[]" "[]" pass "[65]" no_handlers]
      plain_status [of "asc ''GET''" "asc ''/x''"] host_size [of "asc ''GET''" "asc ''/x''"]
      print_request_parts [of "asc ''GET''" "asc ''/x''" "asc ''HTTP/1.1''" host_header] empty
    by auto
qed

theorem web_request_root_asserts_witness:
  "rq_events (web_request_run (set_url_root plain_server (Some (asc ''x/''))) pass [65] no_handlers first_request
     (request_input [print_request (asc ''GET'') (asc ''/x'') (asc ''HTTP/1.1'') host_header])) = [Request_assertion]"
proof -
  define server where "server = set_url_root plain_server (Some (asc ''x/''))"
  define data where "data = print_request (asc ''GET'') (asc ''/x'') (asc ''HTTP/1.1'') host_header"
  have data: "concat [data] = print_request (asc ''GET'') (asc ''/x'') (asc ''HTTP/1.1'') host_header @ []" "[] \<notin> set [data]"
    "length (concat [data]) \<le> request_buffer_limit"
    using host_size [of "asc ''GET''" "asc ''/x''"] print_request_parts [of "asc ''GET''" "asc ''/x''" "asc ''HTTP/1.1''" host_header]
    by (simp_all add: data_def del: asc_simps)
  have root: "server_url_root server = asc ''/x''" by (simp add: server_def set_url_root_def strip_slashes_def)
  have "path_has_prefix (asc ''/x'') (asc ''/x'')" by (simp add: path_has_prefix_def)
  moreover have "request_verdict (asc ''GET'') host_header = 0"
    using plain_status [of "asc ''GET''" "asc ''/x''"] by (simp add: request_status_def del: asc_simps split: if_splits)
  moreover have "\<not> rq_check_tls_redirect first_request" by (simp add: first_request_def cockpit_web_request_start_def)
  ultimately have status: "request_status server first_request (asc ''GET'') (asc ''/x'') host_header = 0"
    unfolding request_status_def root by (simp del: asc_simps)
  have "\<not> handle_stream no_handlers request" for request by (simp add: no_handlers_def)
  from web_request_root_asserts [OF first_fresh host_ok(1) host_lookups(1) le0 data status root [symmetric] this refl]
  show ?thesis by (simp add: data_def server_def del: asc_simps)
qed

end
