(* ===== verification/WebServerCookies.thy ===== *)
theory WebServerCookies
  imports WebServer "HOL-Library.Multiset"
begin

text \<open>
  Cookies of \<^verbatim>\<open>src/common/cockpitwebserver.c\<close>: what \<^const>\<open>cockpit_web_server_parse_cookie\<close> returns is the value of a cookie, and which cookies it finds.
\<close>

section \<open>Looking back for the start\<close>

text \<open>Where a cookie can start: at the front, or behind a semicolon and blanks.\<close>

definition cookie_start :: "bytes \<Rightarrow> bool" where
  "cookie_start pre \<longleftrightarrow> pre = [] \<or> (\<exists>front blanks. pre = front @ [59] @ blanks \<and> list_all g_ascii_isspace blanks)"

lemma semicolon_no_blank: "\<not> g_ascii_isspace 59"
  by (simp add: g_ascii_isspace_def)

lemma cookie_at_start_sound:
  "cookie_at_start header pos \<Longrightarrow> pos \<le> length header \<Longrightarrow> \<exists>front blanks. take pos header = front @ [59] @ blanks \<and> list_all g_ascii_isspace blanks"
proof (induction header pos rule: cookie_at_start.induct)
  case (2 header i)
  have split: "take (Suc i) header = take i header @ [header ! i]" using 2(3) by (simp add: take_Suc_conv_app_nth)
  show ?case
  proof (cases "g_ascii_isspace (header ! i)")
    case True
    then have "\<exists>front blanks. take i header = front @ [59] @ blanks \<and> list_all g_ascii_isspace blanks"
      using 2 by (auto split: if_splits)
    then show ?thesis unfolding split using True by fastforce
  next
    case False
    then have "header ! i = 59" using 2(2) by (auto split: if_splits)
    then show ?thesis unfolding split by (intro exI [of _ "take i header"] exI [of _ "[]"]) simp
  qed
qed simp

lemma cookie_at_start_complete:
  "front \<noteq> [] \<Longrightarrow> list_all g_ascii_isspace blanks \<Longrightarrow> cookie_at_start (front @ [59] @ blanks @ r) (length front + 1 + length blanks)"
proof (induction blanks arbitrary: r rule: rev_induct)
  case Nil
  then show ?case by (simp add: nth_append semicolon_no_blank)
next
  case (snoc b blanks)
  have "(front @ [59] @ (blanks @ [b]) @ r) ! (length front + 1 + length blanks) = b" by (simp add: nth_append)
  then show ?case using snoc.IH [of "b # r"] snoc.prems by simp
qed

section \<open>Soundness\<close>

definition cookie_in :: "bytes \<Rightarrow> bytes \<Rightarrow> bytes \<Rightarrow> bool" where
  "cookie_in header name raw \<longleftrightarrow>
     (\<exists>pre rest. header = pre @ name @ [61] @ raw @ rest \<and> cookie_start pre \<and> 59 \<notin> set raw \<and> (rest = [] \<or> hd rest = 59))"

lemma value_split: "\<exists>rest. s = takeWhile (\<lambda>b. b \<noteq> 59) s @ rest \<and> (rest = [] \<or> hd rest = 59)"
  using hd_dropWhile [of "\<lambda>b. b \<noteq> 59" s] takeWhile_dropWhile_id [of "\<lambda>b. b \<noteq> 59" s] by metis

lemma cookie_loop_step:
  assumes "name \<noteq> []" "memmem header name = Some pos"
    and "start \<longleftrightarrow> (if pos \<noteq> 0 then cookie_at_start header pos else at_start)" "rest = drop (pos + length name) header"
  shows "parse_cookie_loop header name at_start =
    (if rest \<noteq> [] \<and> hd rest = 61 \<and> start then g_uri_unescape_segment (takeWhile (\<lambda>b. b \<noteq> 59) (tl rest))
     else parse_cookie_loop rest name False)"
  using assms by (subst parse_cookie_loop.simps) (simp only: option.case if_False Let_def)

lemma cookie_loop_sound:
  assumes "parse_cookie_loop header name at_start = Some v" "at_start \<longrightarrow> before = []"
  shows "\<exists>raw. cookie_in (before @ header) name raw \<and> g_uri_unescape_segment raw = Some v"
  using assms
proof (induction header name at_start arbitrary: before rule: parse_cookie_loop.induct)
  case (1 header name at_start)
  obtain pos where name: "name \<noteq> []" and pos: "memmem header name = Some pos"
    using 1(2) by (cases "memmem header name"; cases "name = []") (auto simp: parse_cookie_loop.simps [of header])
  let ?start = "if pos \<noteq> 0 then cookie_at_start header pos else at_start"
  let ?rest = "drop (pos + length name) header"
  have m: "pos + length name \<le> length header" "starts_with (drop pos header) name" using memmem_Some [OF pos] by auto
  then have header: "header = take pos header @ name @ ?rest"
    by (metis append_take_drop_id drop_drop starts_with_take add.commute)
  show ?case
  proof (cases "?rest \<noteq> [] \<and> hd ?rest = 61 \<and> ?start")
    case True
    let ?raw = "takeWhile (\<lambda>b. b \<noteq> 59) (tl ?rest)"
    have v: "g_uri_unescape_segment ?raw = Some v" using 1(2) True unfolding cookie_loop_step [OF name pos refl refl] by metis
    obtain rest where rest: "tl ?rest = ?raw @ rest" "rest = [] \<or> hd rest = 59" using value_split by blast
    have "?rest = 61 # ?raw @ rest" using True rest(1) by (metis list.collapse)
    then have "before @ header = (before @ take pos header) @ name @ [61] @ ?raw @ rest" using header by simp
    moreover have "cookie_start (before @ take pos header)"
    proof (cases "pos = 0")
      case False
      then show ?thesis
        using True cookie_at_start_sound [of header pos] m(1) by (auto simp: cookie_start_def)
    qed (use True 1(3) in \<open>simp add: cookie_start_def\<close>)
    moreover have "59 \<notin> set ?raw" by (auto dest: set_takeWhileD)
    ultimately show ?thesis using v rest(2) unfolding cookie_in_def by blast
  next
    case False
    then have "parse_cookie_loop ?rest name False = Some v" using 1(2) unfolding cookie_loop_step [OF name pos refl refl] by metis
    then have "\<exists>raw. cookie_in ((before @ take pos header @ name) @ ?rest) name raw \<and> g_uri_unescape_segment raw = Some v"
      using 1(1) [OF name pos refl refl False] by blast
    then show ?thesis using header by (metis append.assoc)
  qed
qed

text \<open>C35: What is returned for a cookie is never taken out of another cookie: it is the decoded value of a cookie with exactly this name that starts the header or follows
  a semicolon, and that ends at the next semicolon or with the header.\<close>

theorem web_server_parse_cookie_sound:
  assumes "cockpit_web_server_parse_cookie headers name = Some v"
  shows "\<exists>header raw. headers_lookup headers (asc ''Cookie'') = Some header \<and> cookie_in header name raw \<and> g_uri_unescape_segment raw = Some v"
  using assms cookie_loop_sound [of _ name True v "[]"]
  by (auto simp: cockpit_web_server_parse_cookie_def simp del: asc_simps split: option.splits)

text \<open>A cookie is found if its name does not occur before it, and it is the first one or something is in front of the semicolon before it.\<close>

lemma cookie_found:
  assumes "headers_lookup headers (asc ''Cookie'') = Some (pre @ name @ [61] @ raw @ rest)"
    and "name \<noteq> []" "memmem (pre @ name @ [61] @ raw @ rest) name = Some (length pre)"
    and "pre = [] \<or> (\<exists>front blanks. front \<noteq> [] \<and> pre = front @ [59] @ blanks \<and> list_all g_ascii_isspace blanks)"
    and "59 \<notin> set raw" "rest = [] \<or> hd rest = 59"
  shows "cockpit_web_server_parse_cookie headers name = g_uri_unescape_segment raw"
proof -
  let ?header = "pre @ name @ [61] @ raw @ rest"
  have start: "if length pre \<noteq> 0 then cookie_at_start ?header (length pre) else True"
    using assms(4) cookie_at_start_complete [of _ _ "name @ [61] @ raw @ rest"] by fastforce
  have after: "drop (length pre + length name) ?header = 61 # raw @ rest" by simp
  have "takeWhile (\<lambda>b. b \<noteq> 59) (raw @ rest) = raw"
    using assms(5,6) by (cases rest) (auto simp: takeWhile_append)
  then have "parse_cookie_loop ?header name True = g_uri_unescape_segment raw"
    using cookie_loop_step [OF assms(2,3) refl refl, of True] start unfolding after by (simp split: if_splits)
  then show ?thesis by (simp add: cockpit_web_server_parse_cookie_def assms(1) del: asc_simps)
qed

text \<open>A cookie behind one whose value ends with its name is not found: \<^verbatim>\<open>x=n; n=1\<close> has no cookie \<^verbatim>\<open>n\<close>, because the search goes on behind the first \<^verbatim>\<open>n\<close> and never looks
  at the semicolon that is then the first byte.\<close>

theorem web_server_parse_cookie_hidden:
  "cockpit_web_server_parse_cookie [(asc ''Cookie'', asc ''x=n; n=1'')] (asc ''n'') = None \<and>
   cockpit_web_server_parse_cookie [(asc ''Cookie'', asc ''x=m; n=1'')] (asc ''n'') = Some (asc ''1'')"
proof -
  have "g_utf8_validate [49]" by (rule validate_ascii) simp
  then show ?thesis
    by (simp add: cockpit_web_server_parse_cookie_def parse_cookie_loop.simps str_case_equal_def g_ascii_isspace_def g_uri_unescape_segment_def)
qed

theorem web_server_parse_cookie_sound_witness:
  "\<exists>header raw. headers_lookup [(asc ''Cookie'', asc ''x=m; n=1'')] (asc ''Cookie'') = Some header \<and> cookie_in header (asc ''n'') raw \<and>
     g_uri_unescape_segment raw = Some (asc ''1'')"
proof (rule web_server_parse_cookie_sound)
  have "g_utf8_validate [49]" by (rule validate_ascii) simp
  then show "cockpit_web_server_parse_cookie [(asc ''Cookie'', asc ''x=m; n=1'')] (asc ''n'') = Some (asc ''1'')"
    by (simp add: cockpit_web_server_parse_cookie_def parse_cookie_loop.simps str_case_equal_def g_ascii_isspace_def g_uri_unescape_segment_def)
qed

section \<open>Accept lists\<close>

lemma filter_sort_key: "filter (\<lambda>x. f x = k) (sort_key f xs) = filter (\<lambda>x. f x = k) xs"
  by (metis (mono_tags, lifting) sort_key_stable)

lemma sort_qvalue_stable:
  "sorted_wrt (\<lambda>a b. qvalue b \<le> qvalue a) (sort_qvalue langs)" "mset (sort_qvalue langs) = mset langs"
  "filter (\<lambda>l. qvalue l = q) (sort_qvalue langs) = filter (\<lambda>l. qvalue l = q) langs"
proof -
  have "sorted_wrt (\<lambda>a b. qvalue a \<le> qvalue b) (sort_key qvalue (rev langs))"
    using sorted_sort_key [of qvalue "rev langs"] by (simp add: sorted_map)
  then show "sorted_wrt (\<lambda>a b. qvalue b \<le> qvalue a) (sort_qvalue langs)" by (simp add: sort_qvalue_def sorted_wrt_rev)
  show "mset (sort_qvalue langs) = mset langs" by (simp add: sort_qvalue_def)
  show "filter (\<lambda>l. qvalue l = q) (sort_qvalue langs) = filter (\<lambda>l. qvalue l = q) langs"
    using filter_sort_key [of qvalue q "rev langs"] by (simp add: sort_qvalue_def rev_filter flip: rev_filter)
qed

lemma accept_items_join:
  assumes "items \<noteq> []" "list_all (\<lambda>i. 44 \<notin> set i) items"
  shows "accept_items (concat (map (\<lambda>i. i @ [44]) (butlast items)) @ last items) = items"
  using assms
proof (induction items)
  case (Cons i items)
  show ?case
  proof (cases "items = []")
    case True
    then have "memchr i 44 = None" using Cons.prems by (simp add: memchr_None_iff)
    then show ?thesis using True by (subst accept_items.simps) simp
  next
    case False
    then have "memchr (i @ 44 # concat (map (\<lambda>i. i @ [44]) (butlast items)) @ last items) 44 = Some (length i)"
      using Cons.prems by (simp add: memchr_notin)
    then show ?thesis using False Cons by (subst accept_items.simps) simp
  qed
qed simp

text \<open>The list of what a client accepts: for items separated by commas, the entries with a positive quality in the order of their quality, those of equal quality
  in the order of the header, then the base languages in the same order.\<close>

theorem web_server_accept_order:
  assumes "items \<noteq> []" "list_all (\<lambda>i. 44 \<notin> set i) items" "accept = concat (map (\<lambda>i. i @ [44]) (butlast items)) @ last items"
  shows "\<exists>langs. sorted_wrt (\<lambda>a b. qvalue b \<le> qvalue a) langs \<and>
    (\<forall>q. filter (\<lambda>l. qvalue l = q) langs = (if q > 0 then filter (\<lambda>l. qvalue l = q) (map (accept_item strtod) items) else [])) \<and>
    cockpit_web_server_parse_accept_list strtod tenth (Some accept) None =
      map (\<lambda>l. g_strstrip (map to_lower (lang_value l))) langs @ List.map_filter base_language langs"
proof -
  let ?langs = "filter (\<lambda>l. qvalue l > 0) (sort_qvalue (map (accept_item strtod) items))"
  have "sorted_wrt (\<lambda>a b. qvalue b \<le> qvalue a) ?langs" using sort_qvalue_stable(1) by (rule sorted_wrt_filter)
  moreover have "filter (\<lambda>l. qvalue l = q) ?langs = (if q > 0 then filter (\<lambda>l. qvalue l = q) (map (accept_item strtod) items) else [])" for q
  proof -
    have "filter (\<lambda>l. qvalue l = q) ?langs = filter (\<lambda>l. q > 0) (filter (\<lambda>l. qvalue l = q) (sort_qvalue (map (accept_item strtod) items)))"
      by (simp add: conj_commute) (metis (mono_tags, lifting) filter_cong)
    then show ?thesis by (simp add: sort_qvalue_stable(3))
  qed
  moreover have "cockpit_web_server_parse_accept_list strtod tenth (Some accept) None =
      map (\<lambda>l. g_strstrip (map to_lower (lang_value l))) ?langs @ List.map_filter base_language ?langs"
    unfolding cockpit_web_server_parse_accept_list_def assms(3) using accept_items_join [OF assms(1,2)] by (simp add: Let_def)
  ultimately show ?thesis by blast
qed

theorem web_server_accept_order_witness:
  "\<exists>langs :: nat Language list. sorted_wrt (\<lambda>a b. qvalue b \<le> qvalue a) langs \<and>
     cockpit_web_server_parse_accept_list (\<lambda>s. length s) 0 (Some (asc ''de-at;q=1,en'')) None =
       map (\<lambda>l. g_strstrip (map to_lower (lang_value l))) langs @ List.map_filter base_language langs"
proof -
  let ?items = "[asc ''de-at;q=1'', asc ''en'']" and ?accept = "asc ''de-at;q=1,en''"
  have "?items \<noteq> []" "list_all (\<lambda>i. 44 \<notin> set i) ?items" "?accept = concat (map (\<lambda>i. i @ [44]) (butlast ?items)) @ last ?items"
    by simp_all
  from web_server_accept_order [OF this, of "\<lambda>s. length s" 0] show ?thesis by blast
qed

end
