(* ===== verification/Spec2Isabelle.thy ===== *)
theory Spec2Isabelle
  imports Authorize PipeTransport JsonText TlsConnection WebSocketProperties HandshakeAgreement WebInject ChannelFlow ChannelOpen PipeDelivery WebServerProperties WebServerCookies
begin

text \<open>
  Verification development for the C core of Cockpit, the web console for Linux servers.

  \<^bold>\<open>The program.\<close>  A browser talks HTTPS to \<^verbatim>\<open>cockpit-tls\<close>, which terminates TLS and relays plain bytes to
  an instance of \<^verbatim>\<open>cockpit-ws\<close>.  \<^verbatim>\<open>cockpit-ws\<close> authenticates the user, upgrades the connection to a web socket and
  passes messages between the browser and a \<^verbatim>\<open>cockpit-bridge\<close> process in the user's session; the messages
  travel over a pipe as frames (length, newline, channel, newline, payload), control messages are JSON.  The
  shared code is in \<^verbatim>\<open>src/common\<close> and \<^verbatim>\<open>src/websocket\<close>.

  \<^bold>\<open>Layout.\<close>  Bytes are \<^typ>\<open>8 word\<close>, byte strings are lists of them, lengths are natural numbers except where the source
  computes with them in a fixed width and the width matters.  System calls and library callbacks are
  arguments: a loop over \<^verbatim>\<open>read\<close> or \<^verbatim>\<open>write\<close> is a function of the list of results the calls return, so a theorem holds
  for every schedule of short transfers, interruptions and errors.  A failed assertion, or a read or write outside a
  buffer, is an explicit result.

  \<^item> \<open>Prelude\<close>: bytes, C string functions (\<^verbatim>\<open>memchr\<close>, \<^verbatim>\<open>strcspn\<close>, \<^verbatim>\<open>memmem\<close>, \<^verbatim>\<open>printf\<close> of numbers).  \<open>Posix\<close>: error numbers and
    results of system calls.
  \<^item> \<open>Interfaces\<close>: the locales.  \<open>byte_codec\<close> (interpreted for hex and base64, used by the authorize headers);
    \<open>stream_parser\<close>, a parser of a growing buffer whose messages do not depend on how the stream was cut (interpreted for
    frame headers, frames, web socket frames, HTTP request lines, header blocks and whole requests); \<open>dictionary\<close> (members of JSON
    objects); \<open>byte_fifo\<close> (the two ring buffers of the TLS relay).  \<open>handshake_class\<close> of \<open>WebSocketSafety\<close> is the contract of
    the virtual functions of a web socket connection, interpreted for server and client; \<open>channel_invariant\<close> of \<open>ChannelText\<close> lifts what
    every elementary action of a channel keeps to whole runs of it; \<open>stream_filter\<close> of \<open>WebResponseBody\<close> is what a filter on the body of a response promises,
    interpreted for the injection filter.
  \<^item> \<open>Hex\<close>, \<open>Base64\<close>, \<open>Authorize\<close>: \<^verbatim>\<open>cockpithex.c\<close>, \<^verbatim>\<open>cockpitbase64.c\<close>, \<^verbatim>\<open>cockpitauthorize.c\<close>.  Round trips, and memory safety of the
    decoder and the parsers on every input.
  \<^item> \<open>Frame\<close>, \<open>Transport\<close>, \<open>PipeTransport\<close>: \<^verbatim>\<open>cockpitframe.c\<close>, \<^verbatim>\<open>cockpittransport.c\<close>, \<^verbatim>\<open>cockpitpipetransport.c\<close>.  The frame grammar, blocking
    reader and writer, freezing and thawing of channels, and delivery of messages over a pipe in any chunks.
  \<^item> \<open>Pipe\<close>, \<open>PipeSafety\<close>, \<open>PipeDelivery\<close>: \<^verbatim>\<open>cockpitpipe.c\<close>, the buffered process pipe under the transport.  One function per main loop callback, a
    trace of what the kernel took and what was signalled.  Output reaches the kernel in order and once, counters are exact, the pipe closes
    once, the queue drains when the kernel takes bytes; and, over a pipe, the messages of one transport arrive at the other.
  \<^item> \<open>Channel\<close>, \<open>ChannelText\<close>, \<open>ChannelFlow\<close>, \<open>ChannelOpen\<close>: \<^verbatim>\<open>cockpitchannel.c\<close>, the base class of the channels.  Opening, the queue of messages before
    the channel is ready, text that is cut inside a character, flow control by pings and pongs with 64-bit sequence numbers, closing.
  \<^item> \<open>WebInject\<close>: \<^verbatim>\<open>cockpitwebinject.c\<close>, insertion after a marker in a response that arrives in blocks.
  \<^item> \<open>Template\<close>: \<^verbatim>\<open>cockpittemplate.c\<close>, the expansion of variables in pages and in JSON trees, with the memory behind its input.
  \<^item> \<open>WebResponse\<close>, \<open>WebResponseSafety\<close>, \<open>WebResponseBody\<close>, \<open>WebResponseHeaders\<close>: \<^verbatim>\<open>cockpitwebresponse.c\<close>, the response to an HTTP request.  Its queue, filters,
    headers and one shot functions; no assertion fails and it is done once; what is complete is sent; what a client reads is the header block and the body as
    the filters change it; and the parsers of the client read its headers back.
  \<^item> \<open>WebServer\<close>, \<open>WebRequest\<close>, \<open>WebServerProperties\<close>, \<open>WebServerCookies\<close>: \<^verbatim>\<open>cockpitwebserver.c\<close>, the HTTP server.  A request in any pieces is what the parser of the whole makes of
    it; which status a refused request gets and that its response is sent; what the handlers see of the others; cookies and accept lists.
  \<^item> \<open>Json\<close>, \<open>JsonText\<close>: \<^verbatim>\<open>cockpitjson.c\<close>.  Accessors, comparison, merge, tree walk and the writer, checked against an independent
    reader of JSON.
  \<^item> \<open>TlsBuffer\<close>, \<open>TlsConnection\<close>: \<^verbatim>\<open>src/tls/connection.c\<close>.  The ring buffers with wrapping 32-bit counters and the poll loop: what
    comes out is a prefix of what went in, no assertion fails, and the loop never sleeps with nothing to wait for.
  \<^item> \<open>Unicode\<close>: \<^verbatim>\<open>cockpitunicode.c\<close> and the validation of UTF-8.
  \<^item> \<open>HttpParse\<close>: \<^verbatim>\<open>src/websocket/websocket.c\<close>, the HTTP parsers.
  \<^item> \<open>WebSocketFrame\<close>, \<open>WebSocketConnection\<close>, \<open>WebSocketSafety\<close>, \<open>WebSocketHandshake\<close>, \<open>WebSocketProperties\<close>, \<open>HandshakeAgreement\<close>: the web socket.  The
    wire format; the connection as a record with one function per callback; its functions as compositions of
    elementary actions, on which the invariants are proved; the opening handshake of both sides; the properties of every
    reachable state (a step relation over all callbacks and calls); and the agreement of client and server.

  \<^bold>\<open>Bounds and fuel.\<close>  The loops of the model recurse on their input, with a measure where the recursion is not structural, so they need no
    fuel.  A reachable web socket state is one whose queued frames fit in the address space.  The TLS loop is a function of a finite list of
    rounds, each with the events that \<^verbatim>\<open>poll\<close> reports.  A channel carries less than \<open>2 ^ 63\<close> bytes in each
    direction (the source counts in \<^verbatim>\<open>gint64\<close>), and a \<^verbatim>\<open>writev\<close> takes no more than it was offered.  A chunk of a
    response is shorter than 4 GiB, because the source prints its length as an unsigned int, and the property on what is delivered is about responses for which
    no misuse was reported.  A request has at most the 16 KiB that the server buffers.

  \<^bold>\<open>Not modelled.\<close>  GObject boilerplate (properties, signals as objects, reference counts), logging, and failure of allocation.
    Signal handlers run as later steps, not inside the emission.  The JSON parser is json-glib's and is a parameter, as are the
    checksum and Base64 functions of GLib.  The listening sockets of the web server, the files it serves, the authentication and session
    code, the derived channels of the bridge, D-Bus and the metrics samplers are not modelled; the manifest lists them.
\<close>

end
